(* ===== verification/Prelude.thy ===== *)
theory Prelude
  imports Main "HOL-Library.Word" "HOL-Library.List_Lexorder"
begin

text \<open>
  Shared vocabulary of the development: the machine integers of the Rust sources as words,
  the casts and saturating operations of the standard library, the big-endian byte encodings
  used for every database key, results of fallible code as a sum, and the generic lemmas the
  components share.
\<close>

section \<open>Machine integers\<close>

type_synonym u8 = "8 word"
type_synonym u32 = "32 word"
type_synonym u64 = "64 word"
type_synonym i64 = int
type_synonym uuid = "128 word"
type_synonym bytes = "u8 list"

named_theorems word_order
  \<open>facts that move comparisons and successors of words around\<close>
named_theorems res_simps
  \<open>equations that run fallible code\<close>

abbreviation u64_MAX :: u64 where
  "u64_MAX \<equiv> - 1"

text \<open>The casts \<^verbatim>\<open>x as i64\<close> and \<^verbatim>\<open>x as u64\<close>: two's complement reinterpretation.\<close>

definition as_i64 :: "u64 \<Rightarrow> i64" where
  "as_i64 w = sint w"

definition as_u64 :: "i64 \<Rightarrow> u64" where
  "as_u64 i = word_of_int i"

definition saturating_add :: "u64 \<Rightarrow> u64 \<Rightarrow> u64" where
  "saturating_add a b = (if unat a + unat b < 2 ^ 64 then a + b else u64_MAX)"

definition saturating_sub :: "u64 \<Rightarrow> u64 \<Rightarrow> u64" where
  "saturating_sub a b = (if a < b then 0 else a - b)"

section \<open>Fallible code\<close>

text \<open>
  \<^verbatim>\<open>anyhow::Result<T>\<close> is a sum: the left summand is the error. The error type is a parameter, so
  each component keeps its own errors.
\<close>

type_synonym ('e, 'a) result = "'e + 'a"

definition is_ok :: "('e, 'a) result \<Rightarrow> bool" where
  "is_ok r = (case r of Inl _ \<Rightarrow> False | Inr _ \<Rightarrow> True)"

fun ok :: "('e, 'a) result \<Rightarrow> 'a option" where
  "ok (Inl _) = None"
| "ok (Inr x) = Some x"

text \<open>The question-mark operator: stop at the first error.\<close>

fun and_then :: "('e, 'a) result \<Rightarrow> ('a \<Rightarrow> ('e, 'b) result) \<Rightarrow> ('e, 'b) result" where
  "and_then (Inl e) f = Inl e"
| "and_then (Inr x) f = f x"

section \<open>Big-endian bytes\<close>

text \<open>
  \<^verbatim>\<open>to_be_bytes\<close> and \<^verbatim>\<open>from_be_bytes\<close> of the standard library, for a value of \<open>k\<close> bytes.
\<close>

fun nat_to_be :: "nat \<Rightarrow> nat \<Rightarrow> bytes" where
  "nat_to_be 0 m = []"
| "nat_to_be (Suc k) m = word_of_nat (m div 256 ^ k) # nat_to_be k (m mod 256 ^ k)"

fun nat_from_be :: "bytes \<Rightarrow> nat" where
  "nat_from_be [] = 0"
| "nat_from_be (b # bs) = unat b * 256 ^ length bs + nat_from_be bs"

definition u64_to_be :: "u64 \<Rightarrow> bytes" where
  "u64_to_be n = nat_to_be 8 (unat n)"

text \<open>The conversion of a slice into \<^verbatim>\<open>[u8; 8]\<close> fails on any other length.\<close>

definition u64_from_be :: "bytes \<Rightarrow> u64 option" where
  "u64_from_be bs = (if length bs = 8 then Some (word_of_nat (nat_from_be bs)) else None)"

definition u32_to_be :: "u32 \<Rightarrow> bytes" where
  "u32_to_be n = nat_to_be 4 (unat n)"

definition u32_from_be :: "bytes \<Rightarrow> u32 option" where
  "u32_from_be bs = (if length bs = 4 then Some (word_of_nat (nat_from_be bs)) else None)"

section \<open>Running fallible code\<close>

lemma and_then_cases:
  "and_then r f = (case r of Inl e \<Rightarrow> Inl e | Inr x \<Rightarrow> f x)"
  by (cases r) auto

lemma and_then_Inr [res_simps]:
  "and_then r f = Inr y \<longleftrightarrow> (\<exists>x. r = Inr x \<and> f x = Inr y)"
  by (cases r) auto

lemma and_then_Inl [res_simps]:
  "and_then r f = Inl e \<longleftrightarrow> r = Inl e \<or> (\<exists>x. r = Inr x \<and> f x = Inl e)"
  by (cases r) auto

lemma is_ok_simps [simp]: "is_ok (Inr x)" "\<not> is_ok (Inl e)"
  by (auto simp: is_ok_def)

section \<open>Byte encodings: round trips and order\<close>

lemma length_nat_to_be [simp]: "length (nat_to_be k m) = k"
  by (induction k arbitrary: m) auto

lemma unat_u8: "unat (b::u8) < 256"
  using unsigned_less [of b] by simp

lemma nat_from_be_bound: "nat_from_be bs < 256 ^ length bs"
proof (induction bs)
  case Nil
  then show ?case by simp
next
  case (Cons b bs)
  have "unat b \<le> 255" using unat_u8 [of b] by simp
  then have "unat b * 256 ^ length bs \<le> 255 * 256 ^ length bs" by (rule mult_right_mono) simp
  with Cons.IH have "unat b * 256 ^ length bs + nat_from_be bs < 255 * 256 ^ length bs + 256 ^ length bs"
    by linarith
  then show ?case by simp
qed

lemma nat_from_to_be: "m < 256 ^ k \<Longrightarrow> nat_from_be (nat_to_be k m) = m"
proof (induction k arbitrary: m)
  case 0
  then show ?case by simp
next
  case (Suc k)
  then have "m div 256 ^ k < 256" by (simp add: less_mult_imp_div_less)
  then have "unat (word_of_nat (m div 256 ^ k) :: u8) = m div 256 ^ k"
    by (simp add: unat_of_nat)
  moreover have "nat_from_be (nat_to_be k (m mod 256 ^ k)) = m mod 256 ^ k"
    by (rule Suc.IH) simp
  ultimately show ?case by (simp add: div_mult_mod_eq)
qed

lemma nat_to_from_be: "nat_to_be (length bs) (nat_from_be bs) = bs"
proof (induction bs)
  case Nil
  then show ?case by simp
next
  case (Cons b bs)
  then show ?case using nat_from_be_bound [of bs] by simp
qed

lemma nat_from_be_less:
  "length bs = length cs \<Longrightarrow> bs < cs \<longleftrightarrow> nat_from_be bs < nat_from_be cs"
proof (induction bs cs rule: list_induct2)
  case Nil
  then show ?case by simp
next
  case (Cons b bs c cs)
  let ?p = "256 ^ length bs :: nat"
  have lb: "nat_from_be bs < ?p" by (rule nat_from_be_bound)
  have lc: "nat_from_be cs < ?p" using nat_from_be_bound [of cs] Cons.hyps by simp
  consider (lt) "b < c" | (eq) "b = c" | (gt) "c < b" by fastforce
  then show ?case
  proof cases
    case lt
    then have "(unat b + 1) * ?p \<le> unat c * ?p"
      by (intro mult_right_mono) (simp_all add: word_less_nat_alt)
    with lt lb Cons.hyps show ?thesis by simp
  next
    case eq
    with Cons show ?thesis by simp
  next
    case gt
    then have "(unat c + 1) * ?p \<le> unat b * ?p"
      by (intro mult_right_mono) (simp_all add: word_less_nat_alt)
    with gt lc Cons.hyps show ?thesis by (auto dest: less_asym)
  qed
qed

lemma length_u64_to_be [simp]: "length (u64_to_be n) = 8"
  by (simp add: u64_to_be_def)

lemma u64_bound: "unat (n::u64) < 256 ^ 8"
  using unsigned_less [of n] by simp

lemma u64_from_to_be [simp]: "u64_from_be (u64_to_be n) = Some n"
  by (simp add: u64_from_be_def u64_to_be_def nat_from_to_be [OF u64_bound] del: nat_to_be.simps)

lemma u64_from_be_iff: "u64_from_be bs = Some n \<longleftrightarrow> bs = u64_to_be n"
proof
  assume "u64_from_be bs = Some n"
  then have l: "length bs = 8" and n: "n = word_of_nat (nat_from_be bs)"
    by (auto simp: u64_from_be_def split: if_splits)
  have "nat_from_be bs < 2 ^ 64" using nat_from_be_bound [of bs] l by simp
  then have "unat n = nat_from_be bs" by (simp add: n unat_of_nat)
  then show "bs = u64_to_be n" using nat_to_from_be [of bs] l by (simp add: u64_to_be_def)
qed simp

lemma u64_to_be_inject [simp]: "u64_to_be a = u64_to_be b \<longleftrightarrow> a = b"
  by (metis option.inject u64_from_to_be)

lemma u64_to_be_less [simp]: "u64_to_be a < u64_to_be b \<longleftrightarrow> a < b"
proof -
  have "nat_from_be (u64_to_be n) = unat n" for n
    by (simp add: u64_to_be_def nat_from_to_be [OF u64_bound] del: nat_to_be.simps)
  then show ?thesis
    using nat_from_be_less [of "u64_to_be a" "u64_to_be b"] by (simp add: word_less_nat_alt)
qed

lemma u64_to_be_le [simp]: "u64_to_be a \<le> u64_to_be b \<longleftrightarrow> a \<le> b"
  by (simp add: order.order_iff_strict)

lemma length_u32_to_be [simp]: "length (u32_to_be n) = 4"
  by (simp add: u32_to_be_def)

lemma u32_from_to_be [simp]: "u32_from_be (u32_to_be n) = Some n"
proof -
  have "unat n < 256 ^ 4" using unsigned_less [of n] by simp
  then show ?thesis
    by (simp add: u32_from_be_def u32_to_be_def nat_from_to_be del: nat_to_be.simps)
qed

lemma u32_to_be_inject [simp]: "u32_to_be a = u32_to_be b \<longleftrightarrow> a = b"
  by (metis option.inject u32_from_to_be)

lemma u32_to_be_less [simp]: "u32_to_be a < u32_to_be b \<longleftrightarrow> a < b"
proof -
  have "nat_from_be (u32_to_be n) = unat n" for n
  proof -
    have "unat n < 256 ^ 4" using unsigned_less [of n] by simp
    then show ?thesis by (simp add: u32_to_be_def nat_from_to_be del: nat_to_be.simps)
  qed
  then show ?thesis
    using nat_from_be_less [of "u32_to_be a" "u32_to_be b"] by (simp add: word_less_nat_alt)
qed

text \<open>In the order of keys, what lies between a key and an extension of it is an extension too.\<close>

lemma between_extension: "(a :: 'a :: linorder list) \<le> k \<Longrightarrow> k \<le> a @ r \<Longrightarrow> \<exists>r'. k = a @ r'"
proof (induction a arbitrary: k)
  case (Cons x a)
  then show ?case by (cases k) (auto split: if_splits dest: less_asym)
qed simp

lemma le_extension: "(a :: 'a :: linorder list) \<le> a @ r"
  by (induction a) auto

lemma less_extension: "length a = length b \<Longrightarrow> (a :: 'a :: linorder list) < b \<Longrightarrow> a < b @ r"
  by (induction a b rule: list_induct2) auto

section \<open>Words: successors, predecessors and the order\<close>

lemma u64_succ_unat: "a \<noteq> u64_MAX \<Longrightarrow> unat (a + 1 :: u64) = Suc (unat a)"
  by (metis add.commute unatSuc add_eq_0_iff)

lemma u64_less_imp_not_max: "(a::u64) < b \<Longrightarrow> a \<noteq> u64_MAX"
  by (metis word_n1_ge leD)

lemma u64_less_Suc_le [word_order]: "a \<noteq> u64_MAX \<Longrightarrow> b < (a::u64) + 1 \<longleftrightarrow> b \<le> a"
  by (simp add: word_less_nat_alt word_le_nat_alt u64_succ_unat less_Suc_eq_le)

lemma u64_Suc_le [word_order]: "a \<noteq> u64_MAX \<Longrightarrow> (a::u64) + 1 \<le> b \<longleftrightarrow> a < b"
  by (simp add: word_less_nat_alt word_le_nat_alt u64_succ_unat Suc_le_eq)

lemma u64_pred_unat: "(a::u64) \<noteq> 0 \<Longrightarrow> unat (a - 1) = unat a - 1"
  by (metis unat_minus_one)

lemma u64_le_pred [word_order]: "(a::u64) \<noteq> 0 \<Longrightarrow> b \<le> a - 1 \<longleftrightarrow> b < a"
  using unat_gt_0 [of a] by (simp add: word_less_nat_alt word_le_nat_alt u64_pred_unat) arith

lemma u64_pred_less [word_order]: "(a::u64) \<noteq> 0 \<Longrightarrow> a - 1 < b \<longleftrightarrow> a \<le> b"
  using unat_gt_0 [of a] by (simp add: word_less_nat_alt word_le_nat_alt u64_pred_unat) arith

lemma saturating_add_1: "saturating_add a 1 = (if a = u64_MAX then u64_MAX else a + 1)"
proof (cases "a = u64_MAX")
  case True
  then show ?thesis by (simp add: saturating_add_def unsigned_minus_1_eq_mask mask_eq_exp_minus_1)
next
  case False
  then have "unat a + 1 < 2 ^ 64"
    using u64_succ_unat [of a] u64_bound [of "a + 1"] by simp
  with False show ?thesis by (simp add: saturating_add_def)
qed

lemma saturating_succ_le [word_order]: "saturating_add a 1 < b \<longleftrightarrow> a \<noteq> u64_MAX \<and> a + 1 < b"
  by (auto simp: saturating_add_1 dest: u64_less_imp_not_max)

lemma as_i64_small: "n < 2 ^ 63 \<Longrightarrow> as_i64 n = int (unat n)"
  using signed_take_bit_int_eq_self [of 63 "uint n"] uint_ge_0 [of n]
  by (simp add: as_i64_def sint_uint word_less_def)

lemma as_u64_as_i64 [simp]: "as_u64 (as_i64 n) = n"
  by (simp add: as_u64_def as_i64_def)

end
