(* ===== verification/Store.thy ===== *)
theory Store
  imports Prelude
begin

text \<open>
  The key-value store below every persistent component. \<^verbatim>\<open>core/src/database.rs\<close> opens one RocksDB
  instance with five column families; RocksDB itself is a library, so its operations are a record
  of functions that the definitions of the other theories take as an argument, and what the code
  relies on is the locale \<open>rocksdb_laws\<close>: point reads see the last committed write, a write batch
  is applied as a whole and in order, and an iterator enumerates a column family in the
  lexicographic order of its keys. A sorted association list per column family, defined at the
  end, is an implementation that satisfies these laws.
\<close>

section \<open>The interface\<close>

datatype cf_name =
    CF_METADATA
  | CF_HOT_BLOCKS
  | CF_STATE_DATA
  | CF_GAPS
  | CF_SKIPPED_BATCHES

fun cf_string :: "cf_name \<Rightarrow> string" where
  "cf_string CF_METADATA = ''metadata''"
| "cf_string CF_HOT_BLOCKS = ''hot_blocks''"
| "cf_string CF_STATE_DATA = ''state_data''"
| "cf_string CF_GAPS = ''gaps''"
| "cf_string CF_SKIPPED_BATCHES = ''skipped_batches''"

text \<open>The errors of the node's fallible code (\<^verbatim>\<open>anyhow::Error\<close> and \<^verbatim>\<open>core/src/error.rs\<close>).\<close>

datatype error =
    DbError string
  | NoColumnFamily cf_name
  | InvalidByteLength
  | EncodeError
  | DecodeError
  | MalformedBlock
  | MissingHotBlock u64
  | EmptyArchive
  | IoError string
  | BadIndexName
  | DataFileMissing
  | DivisionByZero
  | Other string

type_synonym 'a res = "(error, 'a) result"

datatype batch_op =
    PutCf cf_name bytes bytes
  | DeleteCf cf_name bytes

type_synonym write_batch = "batch_op list"

datatype direction = Forward | Reverse

datatype iter_mode = IterStart | IterFrom bytes direction

record 'db rocksdb =
  cf_handle :: "'db \<Rightarrow> cf_name \<Rightarrow> bool"
  get_cf :: "'db \<Rightarrow> cf_name \<Rightarrow> bytes \<Rightarrow> bytes option res"
  put_cf :: "'db \<Rightarrow> cf_name \<Rightarrow> bytes \<Rightarrow> bytes \<Rightarrow> 'db res"
  write_db :: "'db \<Rightarrow> write_batch \<Rightarrow> 'db res"
  iterator_cf :: "'db \<Rightarrow> cf_name \<Rightarrow> iter_mode \<Rightarrow> (bytes \<times> bytes) res list"

section \<open>What the code relies on\<close>

type_synonym table = "bytes \<rightharpoonup> bytes"
type_synonym tables = "cf_name \<Rightarrow> table"

fun apply_op :: "batch_op \<Rightarrow> tables \<Rightarrow> tables" where
  "apply_op (PutCf c k v) t = t(c := (t c)(k \<mapsto> v))"
| "apply_op (DeleteCf c k) t = t(c := (t c)(k := None))"

definition apply_batch :: "write_batch \<Rightarrow> tables \<Rightarrow> tables" where
  "apply_batch b t = fold apply_op b t"

fun iter_in_range :: "iter_mode \<Rightarrow> bytes \<Rightarrow> bool" where
  "iter_in_range IterStart k = True"
| "iter_in_range (IterFrom a Forward) k = (a \<le> k)"
| "iter_in_range (IterFrom a Reverse) k = (k \<le> a)"

fun iter_before :: "iter_mode \<Rightarrow> bytes \<Rightarrow> bytes \<Rightarrow> bool" where
  "iter_before IterStart k l = (k < l)"
| "iter_before (IterFrom a Forward) k l = (k < l)"
| "iter_before (IterFrom a Reverse) k l = (l < k)"

definition iter_spec :: "table \<Rightarrow> iter_mode \<Rightarrow> (bytes \<times> bytes) list \<Rightarrow> bool" where
  "iter_spec t m xs \<longleftrightarrow>
     sorted_wrt (\<lambda>p q. iter_before m (fst p) (fst q)) xs \<and>
     set xs = {(k, v). t k = Some v \<and> iter_in_range m k}"

locale rocksdb_laws =
  fixes R :: "'db rocksdb"
    and view :: "'db \<Rightarrow> tables"
    and invar :: "'db \<Rightarrow> bool"
  assumes cf_ok: "invar db \<Longrightarrow> cf_handle R db c"
    and get_ok: "invar db \<Longrightarrow> get_cf R db c k = Inr (view db c k)"
    and put_ok: "invar db \<Longrightarrow>
      \<exists>db'. put_cf R db c k v = Inr db' \<and> invar db' \<and> view db' = apply_op (PutCf c k v) (view db)"
    and write_ok: "invar db \<Longrightarrow>
      \<exists>db'. write_db R db b = Inr db' \<and> invar db' \<and> view db' = apply_batch b (view db)"
    and iter_ok: "invar db \<Longrightarrow>
      \<exists>xs. iterator_cf R db c m = map Inr xs \<and> iter_spec (view db c) m xs"

text \<open>
  A batch acts on each column family separately: the operations that name the family, in order.
\<close>

fun op_cf :: "batch_op \<Rightarrow> cf_name" where
  "op_cf (PutCf c k v) = c"
| "op_cf (DeleteCf c k) = c"

fun table_op :: "batch_op \<Rightarrow> table \<Rightarrow> table" where
  "table_op (PutCf c k v) t = t(k \<mapsto> v)"
| "table_op (DeleteCf c k) t = t(k := None)"

definition cf_ops :: "cf_name \<Rightarrow> write_batch \<Rightarrow> write_batch" where
  "cf_ops c b = filter (\<lambda>b. op_cf b = c) b"

lemma apply_op_cf: "apply_op b t c = (if op_cf b = c then table_op b (t c) else t c)"
  by (cases b) auto

lemma apply_batch_cf: "apply_batch b t c = fold table_op (cf_ops c b) (t c)"
  by (induction b arbitrary: t) (auto simp: apply_batch_def cf_ops_def apply_op_cf)

lemma cf_ops_simps [simp]:
  "cf_ops c [] = []"
  "cf_ops c (PutCf d k v # b) = (if d = c then PutCf d k v # cf_ops c b else cf_ops c b)"
  "cf_ops c (DeleteCf d k # b) = (if d = c then DeleteCf d k # cf_ops c b else cf_ops c b)"
  "cf_ops c (a @ b) = cf_ops c a @ cf_ops c b"
  by (auto simp: cf_ops_def)

lemma cf_ops_only: "(\<And>x. x \<in> set b \<Longrightarrow> op_cf x = d) \<Longrightarrow> cf_ops c b = (if c = d then b else [])"
  by (auto simp: cf_ops_def filter_id_conv filter_empty_conv)

section \<open>A sorted association list per column family\<close>

type_synonym ref_db = "cf_name \<Rightarrow> (bytes \<times> bytes) list"

fun ref_put :: "'k::linorder \<Rightarrow> 'v \<Rightarrow> ('k \<times> 'v) list \<Rightarrow> ('k \<times> 'v) list" where
  "ref_put k v [] = [(k, v)]"
| "ref_put k v (p # ps) =
     (if fst p < k then p # ref_put k v ps else if fst p = k then (k, v) # ps else (k, v) # p # ps)"

definition ref_delete :: "'k \<Rightarrow> ('k \<times> 'v) list \<Rightarrow> ('k \<times> 'v) list" where
  "ref_delete k ps = filter (\<lambda>p. fst p \<noteq> k) ps"

fun ref_op :: "batch_op \<Rightarrow> ref_db \<Rightarrow> ref_db" where
  "ref_op (PutCf c k v) db = db(c := ref_put k v (db c))"
| "ref_op (DeleteCf c k) db = db(c := ref_delete k (db c))"

fun ref_iter :: "iter_mode \<Rightarrow> (bytes \<times> bytes) list \<Rightarrow> (bytes \<times> bytes) list" where
  "ref_iter IterStart ps = ps"
| "ref_iter (IterFrom a Forward) ps = filter (\<lambda>p. a \<le> fst p) ps"
| "ref_iter (IterFrom a Reverse) ps = rev (filter (\<lambda>p. fst p \<le> a) ps)"

definition ref_rocksdb :: "ref_db rocksdb" where
  "ref_rocksdb = \<lparr>
     cf_handle = (\<lambda>db c. True),
     get_cf = (\<lambda>db c k. Inr (map_of (db c) k)),
     put_cf = (\<lambda>db c k v. Inr (ref_op (PutCf c k v) db)),
     write_db = (\<lambda>db b. Inr (fold ref_op b db)),
     iterator_cf = (\<lambda>db c m. map Inr (ref_iter m (db c)))\<rparr>"

definition ref_view :: "ref_db \<Rightarrow> tables" where
  "ref_view db c = map_of (db c)"

definition ref_invar :: "ref_db \<Rightarrow> bool" where
  "ref_invar db \<longleftrightarrow> (\<forall>c. sorted_wrt (<) (map fst (db c)))"

definition ref_empty :: ref_db where
  "ref_empty c = []"

section \<open>The reference store satisfies the laws\<close>

lemma cf_string_inject: "cf_string a = cf_string b \<longleftrightarrow> a = b"
  by (cases a; cases b) simp_all

lemma ref_put_below:
  "(\<forall>q \<in> set (ref_put k v ps). a < fst q) \<longleftrightarrow> a < k \<and> (\<forall>q \<in> set ps. a < fst q)"
  by (induction ps) auto

lemma sorted_ref_put: "sorted_wrt (<) (map fst ps) \<Longrightarrow> sorted_wrt (<) (map fst (ref_put k v ps))"
proof (induction ps)
  case Nil
  then show ?case by simp
next
  case (Cons p ps)
  consider "fst p < k" | "fst p = k" | "k < fst p" by (rule linorder_cases)
  then show ?case
  proof cases
    case 1
    with Cons show ?thesis by (simp add: ref_put_below)
  next
    case 2
    with Cons.prems show ?thesis by simp
  next
    case 3
    then have "\<not> fst p < k" and "fst p \<noteq> k" by auto
    with 3 Cons.prems show ?thesis by (auto intro: less_trans)
  qed
qed

lemma map_of_ref_put_other: "x \<noteq> k \<Longrightarrow> map_of (ref_put k v ps) x = map_of ps x"
  by (induction ps) simp_all

lemma map_of_ref_put_same:
  "sorted_wrt (<) (map fst ps) \<Longrightarrow> map_of (ref_put k v ps) k = Some v"
  by (induction ps) simp_all

lemma map_of_ref_put: "sorted_wrt (<) (map fst ps) \<Longrightarrow> map_of (ref_put k v ps) = (map_of ps)(k \<mapsto> v)"
  by (rule ext) (simp add: map_of_ref_put_other map_of_ref_put_same)

lemma map_of_ref_delete: "map_of (ref_delete k ps) = (map_of ps)(k := None)"
  by (induction ps) (auto simp: ref_delete_def fun_eq_iff)

lemma sorted_ref_delete: "sorted_wrt (<) (map fst ps) \<Longrightarrow> sorted_wrt (<) (map fst (ref_delete k ps))"
  by (induction ps) (auto simp: ref_delete_def)

lemma ref_op_correct:
  assumes "ref_invar db"
  shows "ref_invar (ref_op b db)" and "ref_view (ref_op b db) = apply_op b (ref_view db)"
  using assms
  by (cases b; auto simp: ref_invar_def ref_view_def sorted_ref_put sorted_ref_delete
      map_of_ref_put map_of_ref_delete fun_eq_iff)+

lemma ref_batch_correct:
  "ref_invar db \<Longrightarrow> ref_invar (fold ref_op b db) \<and> ref_view (fold ref_op b db) = fold apply_op b (ref_view db)"
  by (induction b arbitrary: db) (simp_all add: ref_op_correct)

lemma ref_iter_correct:
  assumes "sorted_wrt (<) (map fst ps)"
  shows "iter_spec (map_of ps) m (ref_iter m ps)"
proof -
  have "distinct (map fst ps)" using assms by (simp add: strict_sorted_iff)
  then have mem: "map_of ps k = Some v \<longleftrightarrow> (k, v) \<in> set ps" for k v
    by (simp add: map_of_eq_Some_iff)
  have srt: "sorted_wrt (\<lambda>p q. fst p < fst q) ps" using assms by (simp add: sorted_wrt_map)
  have range: "set (ref_iter m ps) = {p \<in> set ps. iter_in_range m (fst p)}"
    by (cases "(m, [] :: bytes)" rule: iter_in_range.cases) simp_all
  have "sorted_wrt (\<lambda>p q. iter_before m (fst p) (fst q)) (ref_iter m ps)"
    by (cases "(m, [] :: bytes)" rule: iter_in_range.cases)
      (simp_all add: srt sorted_wrt_rev sorted_wrt_filter)
  moreover have "set (ref_iter m ps) = {(k, v). map_of ps k = Some v \<and> iter_in_range m k}"
    unfolding range mem by (rule set_eqI) (simp split: prod.split)
  ultimately show ?thesis by (simp only: iter_spec_def)
qed

interpretation ref: rocksdb_laws ref_rocksdb ref_view ref_invar
proof unfold_locales
  fix db :: ref_db and c m k v
  assume "ref_invar db"
  then show "\<exists>db'. put_cf ref_rocksdb db c k v = Inr db' \<and> ref_invar db' \<and>
      ref_view db' = apply_op (PutCf c k v) (ref_view db)"
    using ref_op_correct [of db "PutCf c k v"] by (simp add: ref_rocksdb_def)
next
  fix db :: ref_db and c m
  assume "ref_invar db"
  then show "\<exists>xs. iterator_cf ref_rocksdb db c m = map Inr xs \<and> iter_spec (ref_view db c) m xs"
    using ref_iter_correct [of "db c" m]
    by (auto simp: ref_rocksdb_def ref_view_def ref_invar_def)
qed (auto simp: ref_rocksdb_def ref_view_def apply_batch_def ref_batch_correct)

lemma ref_invar_empty [simp]: "ref_invar ref_empty"
  by (simp add: ref_invar_def ref_empty_def)

end
