(* ===== verification/Core_Types.thy ===== *)
theory Core_Types
  imports Store
begin

text \<open>
  The data every component shares: the block messages of the block stream, the events of the
  internal message bus (\<^verbatim>\<open>core/src/events.rs\<close>), the configuration with its defaults
  (\<^verbatim>\<open>core/src/config.rs\<close>), the capability registry, and the serialisation functions of the
  libraries the code calls (protobuf, bincode, zstd), which are parameters.

  Protobuf messages are generated code. A message whose fields the sources read is a datatype with
  these fields; a message that is only encoded and passed on is kept as its encoding.
\<close>

section \<open>Block stream messages\<close>

datatype singleton_value =
    PlatformStateValue bytes
  | NodeRewardsValue bytes
  | BlockStreamInfoValue bytes
  | HintsConstructionValue bytes
  | EntityCountsValue bytes
  | CrsStateValue bytes
  | EntityNumberValue bytes
  | NetworkStakingRewardsValue bytes
  | ThrottleUsageSnapshotsValue bytes
  | CongestionLevelStartsValue bytes
  | RunningHashesValue bytes
  | BlockInfoValue bytes
  | ExchangeRateSetValue bytes
  | BytesValue bytes
  | TimestampValue bytes
  | RosterStateValue bytes
  | OtherSingleton bytes

datatype queue_value =
    TransactionReceiptEntriesElement bytes
  | OtherQueueElement bytes

datatype change_operation =
    MapUpdate "bytes option" "bytes option"
  | MapDelete "bytes option"
  | SingletonUpdate "singleton_value option"
  | QueuePush "queue_value option"
  | QueuePop
  | OtherChange

record state_change =
  state_id :: u32
  change_operation :: "change_operation option"

record state_changes =
  consensus_timestamp :: "bytes option"
  changes :: "state_change list"

text \<open>A header and a proof carry a block number; their other fields are not read.\<close>

datatype block_item_type =
    BlockHeader u64 bytes
  | BlockProof u64 bytes
  | StateChanges state_changes
  | OtherItem bytes

type_synonym block_item = "block_item_type option"

record block =
  items :: "block_item list"

record block_item_set =
  block_items :: "block_item list"

text \<open>
  \<^verbatim>\<open>get_block_number\<close> of the persistence service and of the cold writer, and
  \<^verbatim>\<open>get_block_number_from_block\<close> of the backfill worker: the number of the header that must be the
  first item.
\<close>

definition get_block_number :: "block \<Rightarrow> u64 res" where
  "get_block_number b =
     (case items b of
        Some (BlockHeader n _) # _ \<Rightarrow> Inr n
      | _ \<Rightarrow> Inl MalformedBlock)"

section \<open>Events of the message bus\<close>

record block_data =
  bd_block_number :: u64
  bd_contents :: bytes

record block_event =
  block_number :: u64
  cache_key :: uuid

text \<open>\<^verbatim>\<open>BlockItemsReceived\<close>, \<^verbatim>\<open>BlockVerified\<close> and \<^verbatim>\<open>BlockPersisted\<close> have the same two fields.\<close>

type_synonym block_items_received = block_event
type_synonym block_verified = block_event
type_synonym block_persisted = block_event

record block_verification_failed =
  failed_block_number :: u64
  failed_cache_key :: uuid
  failed_reason :: string

section \<open>Configuration\<close>

record core_config =
  log_level :: string
  database_path :: string
  start_block_number :: u64
  grpc_address :: string
  grpc_port :: "16 word"

definition default_core_config :: core_config where
  "default_core_config = \<lparr>
     log_level = ''INFO'',
     database_path = ''data/database'',
     start_block_number = 0,
     grpc_address = ''0.0.0.0'',
     grpc_port = 8090\<rparr>"

record observability_config =
  obs_enabled :: bool
  listen_address :: string

definition default_observability_config :: observability_config where
  "default_observability_config = \<lparr>obs_enabled = True, listen_address = ''0.0.0.0:9600''\<rparr>"

record persistence_config =
  persistence_enabled :: bool
  cold_storage_path :: string
  hot_storage_block_count :: u64
  archive_batch_size :: u64

definition default_persistence_config :: persistence_config where
  "default_persistence_config = \<lparr>
     persistence_enabled = True,
     cold_storage_path = ''data/cold_storage'',
     hot_storage_block_count = 100,
     archive_batch_size = 100\<rparr>"

record publish_config =
  publish_enabled :: bool
  publish_max_concurrent_streams :: nat
  persistence_ack_timeout_seconds :: u64
  stale_winner_timeout_seconds :: u64
  winner_cleanup_interval_seconds :: u64
  winner_cleanup_threshold_blocks :: u64
  max_message_size_bytes :: nat
  max_items_per_set :: nat

definition default_publish_config :: publish_config where
  "default_publish_config = \<lparr>
     publish_enabled = True,
     publish_max_concurrent_streams = 250,
     persistence_ack_timeout_seconds = 60,
     stale_winner_timeout_seconds = 10,
     winner_cleanup_interval_seconds = 150,
     winner_cleanup_threshold_blocks = 1000,
     max_message_size_bytes = 32 * 1024 * 1024,
     max_items_per_set = 10000\<rparr>"

record subscriber_config =
  subscriber_enabled :: bool
  subscriber_max_concurrent_streams :: nat
  session_timeout_seconds :: u64
  live_stream_queue_size :: nat
  max_future_block_lookahead :: u64

definition default_subscriber_config :: subscriber_config where
  "default_subscriber_config = \<lparr>
     subscriber_enabled = True,
     subscriber_max_concurrent_streams = 100,
     session_timeout_seconds = 60,
     live_stream_queue_size = 250,
     max_future_block_lookahead = 250\<rparr>"

datatype backfill_mode = GapFill | Continuous

record backfill_config =
  backfill_enabled :: bool
  mode :: backfill_mode
  peers :: "string list"
  check_interval_seconds :: u64
  max_batch_size :: u64

definition default_check_interval :: u64 where
  "default_check_interval = 60"

definition default_max_batch_size :: u64 where
  "default_max_batch_size = 1000"

definition default_backfill_config :: backfill_config where
  "default_backfill_config = \<lparr>
     backfill_enabled = False,
     mode = GapFill,
     peers = [],
     check_interval_seconds = 60,
     max_batch_size = 1000\<rparr>"

text \<open>
  The other sections of the configuration hold a single flag each: on by default, except for the
  verification service, whose default is derived and therefore off.
\<close>

record state_management_config =
  state_management_enabled :: bool

definition default_state_management_config :: state_management_config where
  "default_state_management_config = \<lparr>state_management_enabled = True\<rparr>"

record verification_config =
  verification_enabled :: bool

definition default_verification_config :: verification_config where
  "default_verification_config = \<lparr>verification_enabled = False\<rparr>"

record block_access_config =
  block_access_enabled :: bool

definition default_block_access_config :: block_access_config where
  "default_block_access_config = \<lparr>block_access_enabled = True\<rparr>"

record server_status_config =
  server_status_enabled :: bool

definition default_server_status_config :: server_status_config where
  "default_server_status_config = \<lparr>server_status_enabled = True\<rparr>"

record query_config =
  query_enabled :: bool

definition default_query_config :: query_config where
  "default_query_config = \<lparr>query_enabled = True\<rparr>"

record plugin_configs =
  observability :: observability_config
  persistence_service :: persistence_config
  publish_service :: publish_config
  verification_service :: verification_config
  block_access_service :: block_access_config
  server_status_service :: server_status_config
  state_management_service :: state_management_config
  subscriber_service :: subscriber_config
  query_service :: query_config
  backfill :: backfill_config

definition default_plugin_configs :: plugin_configs where
  "default_plugin_configs = \<lparr>
     observability = default_observability_config,
     persistence_service = default_persistence_config,
     publish_service = default_publish_config,
     verification_service = default_verification_config,
     block_access_service = default_block_access_config,
     server_status_service = default_server_status_config,
     state_management_service = default_state_management_config,
     subscriber_service = default_subscriber_config,
     query_service = default_query_config,
     backfill = default_backfill_config\<rparr>"

record config =
  core :: core_config
  plugins :: plugin_configs

definition default_config :: config where
  "default_config = \<lparr>core = default_core_config, plugins = default_plugin_configs\<rparr>"

section \<open>Capability registry\<close>

datatype capability = ProvidesVerifiedBlocks | ProvidesBlockReader

type_synonym capability_registry = "capability set"

definition register :: "capability \<Rightarrow> capability_registry \<Rightarrow> capability_registry" where
  "register c r = insert c r"

definition is_registered :: "capability \<Rightarrow> capability_registry \<Rightarrow> bool" where
  "is_registered c r \<longleftrightarrow> c \<in> r"

section \<open>Libraries\<close>

text \<open>
  \<^verbatim>\<open>prost\<close> encodes and decodes blocks, \<^verbatim>\<open>bincode\<close> wraps the bytes of a stored block, \<^verbatim>\<open>zstd\<close>
  compresses archived blocks, and \<^verbatim>\<open>regex\<close> finds the block range in the name of an index file.
\<close>

record codec =
  encode_block :: "block \<Rightarrow> bytes res"
  encode_to_vec :: "block \<Rightarrow> bytes"
  decode_block :: "bytes \<Rightarrow> block res"
  bincode_serialize :: "bytes \<Rightarrow> bytes res"
  bincode_deserialize :: "bytes \<Rightarrow> bytes res"
  zstd_encode_all :: "bytes \<Rightarrow> bytes res"
  zstd_decode_all :: "bytes \<Rightarrow> bytes res"
  filename_re :: "string \<Rightarrow> (string \<times> string) option"

definition ascii_digits :: string where
  "ascii_digits = ''0123456789''"

definition ten_digits :: "string \<Rightarrow> bool" where
  "ten_digits s \<longleftrightarrow> length s = 10 \<and> set s \<subseteq> set ascii_digits"

text \<open>
  The documented contract: each decoder undoes its encoder, encoding into a growable buffer does not
  fail, a message with items takes at least a byte, and the pattern matches the names of index files.
\<close>

locale codec_laws =
  fixes C :: codec
  assumes encode_ok: "encode_block C b = Inr (encode_to_vec C b)"
    and decode_encode: "decode_block C (encode_to_vec C b) = Inr b"
    and encode_nonempty: "items b \<noteq> [] \<Longrightarrow> encode_to_vec C b \<noteq> []"
    and serialize_ok: "\<exists>bs. bincode_serialize C x = Inr bs"
    and deserialize_serialize: "bincode_serialize C x = Inr bs \<Longrightarrow> bincode_deserialize C bs = Inr x"
    and compress_ok: "\<exists>bs. zstd_encode_all C x = Inr bs"
    and decompress_compress: "zstd_encode_all C x = Inr bs \<Longrightarrow> zstd_decode_all C bs = Inr x"
    and filename_re_match: "ten_digits s \<Longrightarrow> ten_digits e \<Longrightarrow>
      filename_re C (''blocks-'' @ s @ ''-'' @ e @ ''.rbi'') = Some (s, e)"

section \<open>Basic facts\<close>

lemma get_block_number_Inr:
  "get_block_number b = Inr n \<longleftrightarrow> (\<exists>r xs. items b = Some (BlockHeader n r) # xs)"
  by (auto simp: get_block_number_def split: list.splits option.splits block_item_type.splits)

lemma is_registered_register [simp]:
  "is_registered c (register d r) \<longleftrightarrow> c = d \<or> is_registered c r"
  by (auto simp: is_registered_def register_def)

end
