(* ===== verification/Block_Cache.thy ===== *)
theory Block_Cache
  imports Core_Types
begin

text \<open>
  The cache that hands block contents from the publisher to the other plugins
  (\<^verbatim>\<open>core/src/cache.rs\<close>): entries with their insertion time, a queue of keys to remove, and the
  periodic cleanup. Times are nanoseconds of a monotonic clock; fresh keys are given by the
  environment, since they are random.
\<close>

section \<open>Operations\<close>

definition CACHE_TTL_SECONDS :: nat where
  "CACHE_TTL_SECONDS = 60"

definition CLEANUP_INTERVAL_SECONDS :: nat where
  "CLEANUP_INTERVAL_SECONDS = 10"

definition ttl :: nat where
  "ttl = CACHE_TTL_SECONDS * 10 ^ 9"

definition cleanup_interval :: nat where
  "cleanup_interval = CLEANUP_INTERVAL_SECONDS * 10 ^ 9"

record block_data_cache =
  cache :: "uuid \<rightharpoonup> block_data \<times> nat"
  cleanup_queue :: "uuid set"

definition cache_new :: block_data_cache where
  "cache_new = \<lparr>cache = Map.empty, cleanup_queue = {}\<rparr>"

definition cache_insert :: "uuid \<Rightarrow> nat \<Rightarrow> block_data \<Rightarrow> block_data_cache \<Rightarrow> block_data_cache \<times> uuid" where
  "cache_insert key now data c = (c\<lparr>cache := (cache c)(key \<mapsto> (data, now))\<rparr>, key)"

definition cache_get :: "uuid \<Rightarrow> block_data_cache \<Rightarrow> block_data option" where
  "cache_get key c = map_option fst (cache c key)"

definition mark_for_removal :: "uuid \<Rightarrow> block_data_cache \<Rightarrow> block_data_cache" where
  "mark_for_removal key c =
     (case cache c key of
        Some _ \<Rightarrow> c\<lparr>cache := (cache c)(key := None)\<rparr>
      | None \<Rightarrow> c\<lparr>cleanup_queue := insert key (cleanup_queue c)\<rparr>)"

definition stale :: "nat \<Rightarrow> block_data \<times> nat \<Rightarrow> bool" where
  "stale now e \<longleftrightarrow> now - snd e > ttl"

text \<open>One round of the cleanup task: drain the queue, then evict what is older than the time to live.\<close>

definition cleanup_round :: "nat \<Rightarrow> block_data_cache \<Rightarrow> block_data_cache" where
  "cleanup_round now c =
     (let c1 = c\<lparr>cache := (\<lambda>k. if k \<in> cleanup_queue c then None else cache c k), cleanup_queue := {}\<rparr>
      in c1\<lparr>cache := (\<lambda>k. case cache c1 k of None \<Rightarrow> None | Some e \<Rightarrow> if stale now e then None else Some e)\<rparr>)"

section \<open>The cache over time\<close>

text \<open>
  A step is an insertion under a key never used before, a removal, a cleanup round, or the passing
  of time. The second component is the clock, the third the set of keys used so far.
\<close>

datatype cache_action =
    CInsert uuid block_data
  | CRemove uuid
  | CCleanup
  | CWait nat

inductive cache_step ::
    "block_data_cache \<times> nat \<times> uuid set \<Rightarrow> cache_action \<Rightarrow> block_data_cache \<times> nat \<times> uuid set \<Rightarrow> bool" where
  step_insert: "key \<notin> used \<Longrightarrow>
    cache_step (c, now, used) (CInsert key data) (fst (cache_insert key now data c), now, insert key used)"
| step_remove: "cache_step (c, now, used) (CRemove key) (mark_for_removal key c, now, insert key used)"
| step_cleanup: "cache_step (c, now, used) CCleanup (cleanup_round now c, now, used)"
| step_wait: "cache_step (c, now, used) (CWait d) (c, now + d, used)"

inductive cache_run ::
    "block_data_cache \<times> nat \<times> uuid set \<Rightarrow> cache_action list \<Rightarrow> block_data_cache \<times> nat \<times> uuid set \<Rightarrow> bool" where
  run_done: "cache_run s [] s"
| run_step: "cache_step s a s1 \<Longrightarrow> cache_run s1 as s2 \<Longrightarrow> cache_run s (a # as) s2"

inductive_cases cache_stepE: "cache_step (c, now, used) a s'"

lemma cleanup_round_get:
  "cache_get k (cleanup_round now c) =
     (if k \<in> cleanup_queue c \<or> (\<exists>e. cache c k = Some e \<and> stale now e) then None else cache_get k c)"
  by (auto simp: cache_get_def cleanup_round_def Let_def split: option.splits)

text \<open>An entry stays while it is not removed and not older than the time to live.\<close>

definition holds :: "uuid \<Rightarrow> block_data \<Rightarrow> nat \<Rightarrow> block_data_cache \<times> nat \<times> uuid set \<Rightarrow> bool" where
  "holds key data t s \<longleftrightarrow>
     (case s of (c, now, used) \<Rightarrow>
        t \<le> now \<and> key \<in> used \<and> key \<notin> cleanup_queue c \<and> cache c key = Some (data, t))"

lemma holds_step:
  assumes "holds key data t s" and "cache_step s a s'" and "a \<noteq> CRemove key" and "fst (snd s') \<le> t + ttl"
  shows "holds key data t s'"
proof -
  obtain c now used where s: "s = (c, now, used)" by (cases s)
  from assms(2) [unfolded s] show ?thesis
    using assms(1,3,4) unfolding s
    by (elim cache_stepE)
      (auto simp: holds_def cache_insert_def mark_for_removal_def cleanup_round_def stale_def Let_def split: option.splits)
qed

lemma cache_step_time: "cache_step s a s' \<Longrightarrow> fst (snd s) \<le> fst (snd s')"
  by (induction rule: cache_step.induct) auto

lemma cache_run_time: "cache_run s as s' \<Longrightarrow> fst (snd s) \<le> fst (snd s')"
  by (induction rule: cache_run.induct) (auto dest: cache_step_time)

lemma holds_run:
  "cache_run s as s' \<Longrightarrow> holds key data t s \<Longrightarrow> CRemove key \<notin> set as \<Longrightarrow> fst (snd s') \<le> t + ttl \<Longrightarrow> holds key data t s'"
proof (induction rule: cache_run.induct)
  case (run_step s a s1 as s2)
  have "fst (snd s1) \<le> t + ttl" using cache_run_time [OF run_step.hyps(2)] run_step.prems(3) by simp
  with run_step show ?case by (auto intro: holds_step)
qed

section \<open>Properties\<close>

text \<open>
  Whatever else happens to the cache, the contents inserted under a key are returned for it for
  one minute, unless the key itself is marked for removal.
\<close>

lemma cache_entry_available:
  assumes "key \<notin> cleanup_queue c"
    and "cache_run (fst (cache_insert key now data c), now, insert key used) as (c', now', used')"
    and "CRemove key \<notin> set as" and "now' \<le> now + ttl"
  shows "cache_get key c' = Some data"
proof -
  have "holds key data now (fst (cache_insert key now data c), now, insert key used)"
    using assms(1) by (simp add: holds_def cache_insert_def)
  from holds_run [OF assms(2) this assms(3)] assms(4) show ?thesis
    by (simp add: holds_def cache_get_def)
qed

text \<open>
  The cache does not leak: after a cleanup round every entry left is at most one minute old, and
  no key that was marked for removal is left.
\<close>

lemma cleanup_round_bounds:
  "cleanup_queue (cleanup_round now c) = {} \<and>
   (case cache (cleanup_round now c) key of
      None \<Rightarrow> True
    | Some (data, t) \<Rightarrow> now - t \<le> 60 * 10 ^ 9 \<and> key \<notin> cleanup_queue c \<and> cache c key = Some (data, t))"
  by (auto simp: cleanup_round_def Let_def stale_def ttl_def CACHE_TTL_SECONDS_def split: option.splits if_splits)

end
