(* ===== verification/Ref_Codec.thy ===== *)
theory Ref_Codec
  imports Core_Types
begin

text \<open>
  A reference implementation of the serialisation interface of \<open>Core_Types\<close>, which shows that its
  laws can hold and lets the examples run. Formats are pairs of a printer and a parser that is
  insensitive to what follows; they compose over pairs, options, lists and tags. The formats of the
  real libraries are different, and no property depends on them.
\<close>

section \<open>Composable formats\<close>

type_synonym 'a fmt = "('a \<Rightarrow> bytes) \<times> (bytes \<Rightarrow> ('a \<times> bytes) option)"

definition fmt_ok :: "'a fmt \<Rightarrow> bool" where
  "fmt_ok f \<longleftrightarrow> (\<forall>x r. snd f (fst f x @ r) = Some (x, r))"

lemma fmt_okD: "fmt_ok f \<Longrightarrow> snd f (fst f x @ r) = Some (x, r)"
  by (simp add: fmt_ok_def)

definition fmt_byte :: "u8 fmt" where
  "fmt_byte = (\<lambda>b. [b], \<lambda>bs. case bs of [] \<Rightarrow> None | b # r \<Rightarrow> Some (b, r))"

definition fmt_pair :: "'a fmt \<Rightarrow> 'b fmt \<Rightarrow> ('a \<times> 'b) fmt" where
  "fmt_pair f g =
     (\<lambda>(x, y). fst f x @ fst g y,
      \<lambda>bs. case snd f bs of None \<Rightarrow> None
        | Some (x, r) \<Rightarrow> (case snd g r of None \<Rightarrow> None | Some (y, r') \<Rightarrow> Some ((x, y), r')))"

text \<open>A list is printed with a marker before each element and an end marker.\<close>

fun print_list :: "('a \<Rightarrow> bytes) \<Rightarrow> 'a list \<Rightarrow> bytes" where
  "print_list p [] = [0]"
| "print_list p (x # xs) = 1 # p x @ print_list p xs"

fun parse_list :: "nat \<Rightarrow> (bytes \<Rightarrow> ('a \<times> bytes) option) \<Rightarrow> bytes \<Rightarrow> ('a list \<times> bytes) option" where
  "parse_list 0 p bs = None"
| "parse_list (Suc n) p bs =
     (case bs of
        [] \<Rightarrow> None
      | m # r \<Rightarrow>
          if m = 0 then Some ([], r)
          else (case p r of
              None \<Rightarrow> None
            | Some (x, r') \<Rightarrow>
                (case parse_list n p r' of None \<Rightarrow> None | Some (xs, r'') \<Rightarrow> Some (x # xs, r''))))"

definition fmt_list :: "'a fmt \<Rightarrow> 'a list fmt" where
  "fmt_list f = (print_list (fst f), \<lambda>bs. parse_list (length bs) (snd f) bs)"

definition fmt_map :: "('a \<Rightarrow> 'b) \<Rightarrow> ('b \<Rightarrow> 'a) \<Rightarrow> 'a fmt \<Rightarrow> 'b fmt" where
  "fmt_map to from f = (\<lambda>y. fst f (from y), \<lambda>bs. map_option (\<lambda>(x, r). (to x, r)) (snd f bs))"

definition fmt_option :: "'a fmt \<Rightarrow> 'a option fmt" where
  "fmt_option f =
     fmt_map (\<lambda>xs. case xs of [] \<Rightarrow> None | x # _ \<Rightarrow> Some x) (\<lambda>v. case v of None \<Rightarrow> [] | Some x \<Rightarrow> [x]) (fmt_list f)"

lemma fmt_byte_ok: "fmt_ok fmt_byte"
  by (simp add: fmt_ok_def fmt_byte_def)

lemma fmt_pair_ok: "fmt_ok f \<Longrightarrow> fmt_ok g \<Longrightarrow> fmt_ok (fmt_pair f g)"
  by (auto simp: fmt_ok_def fmt_pair_def)

lemma parse_print_list:
  "fmt_ok f \<Longrightarrow> length xs < n \<Longrightarrow> parse_list n (snd f) (print_list (fst f) xs @ r) = Some (xs, r)"
proof (induction xs arbitrary: n)
  case Nil
  then show ?case by (cases n) simp_all
next
  case (Cons x xs)
  then obtain m where "n = Suc m" "length xs < m" by (cases n) auto
  with Cons show ?case by (simp add: fmt_okD)
qed

lemma length_print_list: "length xs < length (print_list p xs)"
  by (induction xs) auto

lemma fmt_list_ok: "fmt_ok f \<Longrightarrow> fmt_ok (fmt_list f)"
proof -
  assume f: "fmt_ok f"
  have "snd (fmt_list f) (fst (fmt_list f) xs @ r) = Some (xs, r)" for xs r
    unfolding fmt_list_def fst_conv snd_conv
    by (rule parse_print_list [OF f]) (simp add: length_print_list trans_less_add1)
  then show ?thesis by (simp add: fmt_ok_def)
qed

lemma fmt_map_ok: "fmt_ok f \<Longrightarrow> (\<And>y. to (from y) = y) \<Longrightarrow> fmt_ok (fmt_map to from f)"
  by (simp add: fmt_ok_def fmt_map_def)

lemma fmt_option_ok: "fmt_ok f \<Longrightarrow> fmt_ok (fmt_option f)"
  unfolding fmt_option_def by (intro fmt_map_ok fmt_list_ok) (auto split: option.split)

section \<open>Formats of the block messages\<close>

abbreviation fmt_bytes :: "bytes fmt" where
  "fmt_bytes \<equiv> fmt_list fmt_byte"

fun singleton_to :: "u8 \<times> bytes \<Rightarrow> singleton_value" where
  "singleton_to (t, b) =
     (if t = 0 then PlatformStateValue b else if t = 1 then NodeRewardsValue b
      else if t = 2 then BlockStreamInfoValue b else if t = 3 then HintsConstructionValue b
      else if t = 4 then EntityCountsValue b else if t = 5 then CrsStateValue b
      else if t = 6 then EntityNumberValue b else if t = 7 then NetworkStakingRewardsValue b
      else if t = 8 then ThrottleUsageSnapshotsValue b else if t = 9 then CongestionLevelStartsValue b
      else if t = 10 then RunningHashesValue b else if t = 11 then BlockInfoValue b
      else if t = 12 then ExchangeRateSetValue b else if t = 13 then BytesValue b
      else if t = 14 then TimestampValue b else if t = 15 then RosterStateValue b else OtherSingleton b)"

fun singleton_of :: "singleton_value \<Rightarrow> u8 \<times> bytes" where
  "singleton_of (PlatformStateValue b) = (0, b)"
| "singleton_of (NodeRewardsValue b) = (1, b)"
| "singleton_of (BlockStreamInfoValue b) = (2, b)"
| "singleton_of (HintsConstructionValue b) = (3, b)"
| "singleton_of (EntityCountsValue b) = (4, b)"
| "singleton_of (CrsStateValue b) = (5, b)"
| "singleton_of (EntityNumberValue b) = (6, b)"
| "singleton_of (NetworkStakingRewardsValue b) = (7, b)"
| "singleton_of (ThrottleUsageSnapshotsValue b) = (8, b)"
| "singleton_of (CongestionLevelStartsValue b) = (9, b)"
| "singleton_of (RunningHashesValue b) = (10, b)"
| "singleton_of (BlockInfoValue b) = (11, b)"
| "singleton_of (ExchangeRateSetValue b) = (12, b)"
| "singleton_of (BytesValue b) = (13, b)"
| "singleton_of (TimestampValue b) = (14, b)"
| "singleton_of (RosterStateValue b) = (15, b)"
| "singleton_of (OtherSingleton b) = (16, b)"

lemma singleton_to_of: "singleton_to (singleton_of v) = v"
  by (cases v) simp_all

fun queue_to :: "u8 \<times> bytes \<Rightarrow> queue_value" where
  "queue_to (t, b) = (if t = 0 then TransactionReceiptEntriesElement b else OtherQueueElement b)"

fun queue_of :: "queue_value \<Rightarrow> u8 \<times> bytes" where
  "queue_of (TransactionReceiptEntriesElement b) = (0, b)"
| "queue_of (OtherQueueElement b) = (1, b)"

lemma queue_to_of: "queue_to (queue_of v) = v"
  by (cases v) simp_all

text \<open>The parts of a change operation: tag, key, value, singleton and queue element.\<close>

type_synonym change_parts =
  "u8 \<times> bytes option \<times> bytes option \<times> singleton_value option \<times> queue_value option"

fun change_to :: "change_parts \<Rightarrow> change_operation" where
  "change_to (t, k, v, s, q) =
     (if t = 0 then MapUpdate k v else if t = 1 then MapDelete k else if t = 2 then SingletonUpdate s
      else if t = 3 then QueuePush q else if t = 4 then QueuePop else OtherChange)"

fun change_of :: "change_operation \<Rightarrow> change_parts" where
  "change_of (MapUpdate k v) = (0, k, v, None, None)"
| "change_of (MapDelete k) = (1, k, None, None, None)"
| "change_of (SingletonUpdate s) = (2, None, None, s, None)"
| "change_of (QueuePush q) = (3, None, None, None, q)"
| "change_of QueuePop = (4, None, None, None, None)"
| "change_of OtherChange = (5, None, None, None, None)"

lemma change_to_of: "change_to (change_of c) = c"
  by (cases c) simp_all

definition fmt_change :: "change_operation fmt" where
  "fmt_change = fmt_map change_to change_of
     (fmt_pair fmt_byte (fmt_pair (fmt_option fmt_bytes) (fmt_pair (fmt_option fmt_bytes)
       (fmt_pair (fmt_option (fmt_map singleton_to singleton_of (fmt_pair fmt_byte fmt_bytes)))
         (fmt_option (fmt_map queue_to queue_of (fmt_pair fmt_byte fmt_bytes)))))))"

definition fmt_u64 :: "u64 fmt" where
  "fmt_u64 = fmt_map (\<lambda>bs. the (u64_from_be bs)) u64_to_be fmt_bytes"

definition fmt_u32 :: "u32 fmt" where
  "fmt_u32 = fmt_map (\<lambda>bs. the (u32_from_be bs)) u32_to_be fmt_bytes"

definition fmt_state_change :: "state_change fmt" where
  "fmt_state_change = fmt_map (\<lambda>(i, c). \<lparr>state_id = i, change_operation = c\<rparr>)
     (\<lambda>s. (state_id s, change_operation s)) (fmt_pair fmt_u32 (fmt_option fmt_change))"

definition fmt_state_changes :: "state_changes fmt" where
  "fmt_state_changes = fmt_map (\<lambda>(t, c). \<lparr>consensus_timestamp = t, changes = c\<rparr>)
     (\<lambda>s. (consensus_timestamp s, changes s)) (fmt_pair (fmt_option fmt_bytes) (fmt_list fmt_state_change))"

type_synonym item_parts = "u8 \<times> u64 \<times> bytes \<times> state_changes"

fun item_to :: "item_parts \<Rightarrow> block_item_type" where
  "item_to (t, n, b, s) =
     (if t = 0 then BlockHeader n b else if t = 1 then BlockProof n b
      else if t = 2 then StateChanges s else OtherItem b)"

abbreviation no_changes :: state_changes where
  "no_changes \<equiv> \<lparr>consensus_timestamp = None, changes = []\<rparr>"

fun item_of :: "block_item_type \<Rightarrow> item_parts" where
  "item_of (BlockHeader n b) = (0, n, b, no_changes)"
| "item_of (BlockProof n b) = (1, n, b, no_changes)"
| "item_of (StateChanges s) = (2, 0, [], s)"
| "item_of (OtherItem b) = (3, 0, b, no_changes)"

lemma item_to_of: "item_to (item_of i) = i"
  by (cases i) simp_all

definition fmt_block :: "block fmt" where
  "fmt_block = fmt_map (\<lambda>xs. \<lparr>items = xs\<rparr>) items
     (fmt_list (fmt_option (fmt_map item_to item_of
       (fmt_pair fmt_byte (fmt_pair fmt_u64 (fmt_pair fmt_bytes fmt_state_changes))))))"

lemma fmt_block_ok: "fmt_ok fmt_block"
  unfolding fmt_block_def fmt_state_changes_def fmt_state_change_def fmt_change_def fmt_u64_def fmt_u32_def
  by (intro fmt_map_ok fmt_list_ok fmt_option_ok fmt_pair_ok fmt_byte_ok)
    (simp_all add: singleton_to_of queue_to_of change_to_of item_to_of)

section \<open>The reference libraries\<close>

definition ref_filename_re :: "string \<Rightarrow> (string \<times> string) option" where
  "ref_filename_re s =
     (let a = take 10 (drop 7 s); b = take 10 (drop 18 s)
      in if ten_digits a \<and> ten_digits b \<and> s = ''blocks-'' @ a @ ''-'' @ b @ ''.rbi''
         then Some (a, b) else None)"

definition ref_codec :: codec where
  "ref_codec = \<lparr>
     encode_block = (\<lambda>b. Inr (fst fmt_block b)),
     encode_to_vec = fst fmt_block,
     decode_block = (\<lambda>bs. case snd fmt_block bs of Some (b, []) \<Rightarrow> Inr b | _ \<Rightarrow> Inl DecodeError),
     bincode_serialize = (\<lambda>x. Inr (fst fmt_bytes x)),
     bincode_deserialize = (\<lambda>bs. case snd fmt_bytes bs of Some (x, []) \<Rightarrow> Inr x | _ \<Rightarrow> Inl DecodeError),
     zstd_encode_all = (\<lambda>x. Inr (fst fmt_bytes x)),
     zstd_decode_all = (\<lambda>bs. case snd fmt_bytes bs of Some (x, []) \<Rightarrow> Inr x | _ \<Rightarrow> Inl DecodeError),
     filename_re = ref_filename_re\<rparr>"

lemma ref_filename_re_match:
  assumes "ten_digits a" "ten_digits b"
  shows "ref_filename_re (''blocks-'' @ a @ ''-'' @ b @ ''.rbi'') = Some (a, b)"
proof -
  have "length a = 10" "length b = 10" using assms by (simp_all add: ten_digits_def)
  then show ?thesis using assms by (simp add: ref_filename_re_def Let_def)
qed

interpretation refc: codec_laws ref_codec
proof unfold_locales
  have b: "fmt_ok fmt_bytes" by (intro fmt_list_ok fmt_byte_ok)
  show "decode_block ref_codec (encode_to_vec ref_codec x) = Inr x" for x
    using fmt_okD [OF fmt_block_ok, of x "[]"] by (simp add: ref_codec_def)
  show "encode_to_vec ref_codec x \<noteq> []" if "items x \<noteq> []" for x
    using that by (cases "items x") (simp_all add: ref_codec_def fmt_block_def fmt_map_def fmt_list_def)
  show "bincode_serialize ref_codec x = Inr bs \<Longrightarrow> bincode_deserialize ref_codec bs = Inr x" for x bs
    using fmt_okD [OF b, of x "[]"] by (auto simp: ref_codec_def)
  show "zstd_encode_all ref_codec x = Inr bs \<Longrightarrow> zstd_decode_all ref_codec bs = Inr x" for x bs
    using fmt_okD [OF b, of x "[]"] by (auto simp: ref_codec_def)
qed (simp_all add: ref_codec_def ref_filename_re_match [simplified])

end
