(* ===== verification/Publish.thy ===== *)
theory Publish
  imports Block_Cache Ref_Codec "HOL-Library.AList"
begin

text \<open>
  The publish plugin (\<^verbatim>\<open>rock-node-publish-plugin\<close>): the state shared by all publisher sessions
  (\<^verbatim>\<open>state.rs\<close>), the validation of requests (\<^verbatim>\<open>validation.rs\<close>), the session manager
  (\<^verbatim>\<open>session_manager.rs\<close>), the life of a connection (\<^verbatim>\<open>service.rs\<close>) and the plugin's start,
  cleanup and stop (\<^verbatim>\<open>lib.rs\<close>).

  A concurrent map is an association list. A response channel is named by the id of its session, and
  a send appends to a log. Timers and metrics are left out. A handler that waits for the persistence
  of its block returns the cache key it waits for; the rest of the handler is a second function.
\<close>

section \<open>Shared state\<close>

datatype session_state = New | Primary | Behind

datatype block_action = Accept | Skip | Resend | EndBehind | EndDuplicate | EndError | BadBlockProof

record shared_state =
  block_winners :: "(u64 \<times> uuid) list"
  latest_persisted_block :: i64
  active_sessions :: "uuid list"

definition shared_new :: shared_state where
  "shared_new = \<lparr>block_winners = [], latest_persisted_block = - 1, active_sessions = []\<rparr>"

definition get_latest_persisted_block :: "shared_state \<Rightarrow> i64" where
  "get_latest_persisted_block sh = latest_persisted_block sh"

definition set_latest_persisted_block :: "i64 \<Rightarrow> shared_state \<Rightarrow> shared_state" where
  "set_latest_persisted_block n sh = sh\<lparr>latest_persisted_block := n\<rparr>"

section \<open>Validation\<close>

datatype publish_error =
    EmptyBlockItems
  | MissingBlockHeader i64
  | TooManyItems nat nat
  | BlockNumberMismatch i64 i64
  | InvalidBlockNumber i64
  | NoActiveBlock uuid
  | Encoding error
  | ChannelSend
  | VerificationTimeout u64
  | VerificationFailed u64 string

record request_validator =
  validator_max_items :: nat

fun is_block_header :: "block_item_type \<Rightarrow> bool" where
  "is_block_header (BlockHeader _ _) = True"
| "is_block_header _ = False"

fun extract_block_number_from_any_item :: "block_item_type \<Rightarrow> i64 option" where
  "extract_block_number_from_any_item (BlockHeader n _) = Some (as_i64 n)"
| "extract_block_number_from_any_item (BlockProof n _) = Some (as_i64 n)"
| "extract_block_number_from_any_item _ = None"

definition validate_block_items ::
    "request_validator \<Rightarrow> block_item_set \<Rightarrow> bool \<Rightarrow> (publish_error, unit) result" where
  "validate_block_items v bset is_new_block =
     (case block_items bset of
        [] \<Rightarrow> Inl EmptyBlockItems
      | first_item # _ \<Rightarrow>
          (let count = length (block_items bset)
           in if count > validator_max_items v then Inl (TooManyItems count (validator_max_items v))
              else if is_new_block then
                (case first_item of
                   Some item_type \<Rightarrow>
                     if \<not> is_block_header item_type
                     then Inl (MissingBlockHeader
                            (case extract_block_number_from_any_item item_type of None \<Rightarrow> - 1 | Some n \<Rightarrow> n))
                     else Inr ()
                 | None \<Rightarrow> Inl (MissingBlockHeader (- 1)))
              else Inr ()))"

section \<open>Session manager\<close>

datatype end_code = CodeError | CodeBehind | CodeDuplicateBlock | CodeBadBlockProof

datatype publish_response =
    Acknowledgement u64
  | SkipBlock u64
  | ResendBlock u64
  | EndStream end_code u64

record session_manager =
  sm_id :: uuid
  publisher_id :: "string option"
  sm_state :: session_state
  current_block_number :: i64
  current_block_action :: "block_action option"
  item_buffer :: "block_item list"
  validator :: request_validator
  blocks_received :: u64
  blocks_accepted :: u64
  blocks_skipped :: u64

text \<open>
  What a session shares with the rest of the node: the shared state, the block cache, the channel of
  received blocks (with whether its receiver still exists) and the log of responses.
\<close>

record world =
  shared :: shared_state
  block_cache :: block_data_cache
  items_received :: "block_items_received list"
  items_rx_open :: bool
  responses :: "(uuid \<times> publish_response) list"

datatype outcome = Continue | Terminate | AwaitPersistence uuid

definition session_new :: "publish_config \<Rightarrow> uuid \<Rightarrow> session_manager" where
  "session_new cfg i = \<lparr>
     sm_id = i,
     publisher_id = None,
     sm_state = New,
     current_block_number = 0,
     current_block_action = None,
     item_buffer = [],
     validator = \<lparr>validator_max_items = max_items_per_set cfg\<rparr>,
     blocks_received = 0,
     blocks_accepted = 0,
     blocks_skipped = 0\<rparr>"

definition send_response :: "session_manager \<Rightarrow> publish_response \<Rightarrow> world \<Rightarrow> world" where
  "send_response s r w = w\<lparr>responses := responses w @ [(sm_id s, r)]\<rparr>"

definition broadcast :: "uuid list \<Rightarrow> publish_response \<Rightarrow> world \<Rightarrow> world" where
  "broadcast is r w = w\<lparr>responses := responses w @ map (\<lambda>i. (i, r)) is\<rparr>"

definition other_sessions :: "uuid \<Rightarrow> shared_state \<Rightarrow> uuid list" where
  "other_sessions i sh = filter (\<lambda>j. j \<noteq> i) (active_sessions sh)"

subsection \<open>Choice of the action\<close>

text \<open>
  The checks of a header read the shared state before the election takes the entry of the block.
  Other sessions may act in between: \<open>old\<close> is what the checks see, \<open>sh\<close> the state at the election.
\<close>

definition get_action_for_header ::
    "shared_state \<Rightarrow> i64 \<Rightarrow> session_manager \<Rightarrow> shared_state \<Rightarrow> block_action \<times> session_manager \<times> shared_state" where
  "get_action_for_header old n s sh =
     (let latest = get_latest_persisted_block old; s_n = s\<lparr>current_block_number := n\<rparr>
      in if n < latest then (EndBehind, s_n, sh)
         else if n = latest then (EndDuplicate, s_n, sh)
         else
           (case map_of (block_winners old) (as_u64 n) of
              Some winner \<Rightarrow> if winner = sm_id s then (EndDuplicate, s_n, sh) else (Skip, s_n, sh)
            | None \<Rightarrow>
                (case map_of (block_winners sh) (as_u64 n) of
                   None \<Rightarrow>
                     (Accept, s_n\<lparr>sm_state := Primary\<rparr>,
                      sh\<lparr>block_winners := AList.update (as_u64 n) (sm_id s) (block_winners sh)\<rparr>)
                 | Some _ \<Rightarrow> (Skip, s\<lparr>sm_state := Behind\<rparr>, sh))))"

definition get_action_for_currently_streaming :: "i64 \<Rightarrow> session_manager \<Rightarrow> shared_state \<Rightarrow> block_action" where
  "get_action_for_currently_streaming n s sh =
     (if n \<noteq> current_block_number s then EndError
      else (case map_of (block_winners sh) (as_u64 n) of
              Some winner \<Rightarrow> if winner = sm_id s then Accept else Resend
            | None \<Rightarrow> EndError))"

definition get_action_for_block ::
    "shared_state \<Rightarrow> i64 \<Rightarrow> block_action option \<Rightarrow> session_manager \<Rightarrow> shared_state \<Rightarrow>
     block_action \<times> session_manager \<times> shared_state" where
  "get_action_for_block old n previous s sh =
     (case previous of
        None \<Rightarrow> get_action_for_header old n s sh
      | Some Accept \<Rightarrow> (get_action_for_currently_streaming n s sh, s, sh)
      | Some _ \<Rightarrow> (EndError, s, sh))"

subsection \<open>Completion of a block\<close>

definition reset_for_next_block :: "session_manager \<Rightarrow> session_manager" where
  "reset_for_next_block s =
     s\<lparr>item_buffer := [], sm_state := New, current_block_number := 0, current_block_action := None\<rparr>"

text \<open>Up to the wait. The key and the time of the cache insertion come from the environment.\<close>

definition complete_block ::
    "codec \<Rightarrow> uuid \<Rightarrow> nat \<Rightarrow> session_manager \<Rightarrow> world \<Rightarrow> outcome \<times> session_manager \<times> world" where
  "complete_block C fresh_key now s w =
     (let n = as_u64 (current_block_number s);
          block_proto = \<lparr>items = item_buffer s\<rparr>;
          s1 = s\<lparr>blocks_accepted := blocks_accepted s + 1, item_buffer := []\<rparr>
      in case encode_block C block_proto of
           Inl _ \<Rightarrow> (Terminate, s1, w)
         | Inr contents \<Rightarrow>
             (let (bc, key) = cache_insert fresh_key now \<lparr>bd_block_number = n, bd_contents = contents\<rparr> (block_cache w);
                  w1 = w\<lparr>block_cache := bc\<rparr>
              in if items_rx_open w
                 then (AwaitPersistence key, s1,
                       w1\<lparr>items_received := items_received w1 @ [\<lparr>block_number = n, cache_key = key\<rparr>]\<rparr>)
                 else (Terminate, s1, w1)))"

datatype bus_event =
    VerificationFailedEvent block_verification_failed
  | PersistedEvent block_persisted

text \<open>
  The loop over the events received before the timeout: the first failure or confirmation of this
  block under this key ends it, anything else is passed over, and running out of events is the
  timeout.
\<close>

fun await_result :: "u64 \<Rightarrow> uuid \<Rightarrow> bus_event list \<Rightarrow> (string, block_persisted) result option" where
  "await_result n key [] = None"
| "await_result n key (VerificationFailedEvent e # es) =
     (if failed_block_number e = n \<and> failed_cache_key e = key then Some (Inl (failed_reason e))
      else await_result n key es)"
| "await_result n key (PersistedEvent e # es) =
     (if block_number e = n \<and> cache_key e = key then Some (Inr e)
      else await_result n key es)"

definition release_winner :: "u64 \<Rightarrow> world \<Rightarrow> world" where
  "release_winner n w = w\<lparr>shared := (shared w)\<lparr>block_winners := AList.delete n (block_winners (shared w))\<rparr>\<rparr>"

definition handle_end_error :: "block_action \<Rightarrow> session_manager \<Rightarrow> world \<Rightarrow> world" where
  "handle_end_error action s w =
     (let code = (case action of BadBlockProof \<Rightarrow> CodeBadBlockProof | _ \<Rightarrow> CodeError)
      in send_response s (EndStream code (as_u64 (current_block_number s))) w)"

text \<open>
  What follows the wait, in two parts between which other tasks may run: the responses and the
  release of the winner entry, in the order each branch has them.
\<close>

definition settle_first ::
    "u64 \<Rightarrow> (string, block_persisted) result option \<Rightarrow> session_manager \<Rightarrow> world \<Rightarrow> world" where
  "settle_first n result s w =
     (case result of
        Some (Inr _) \<Rightarrow>
          (let w1 = w\<lparr>shared := set_latest_persisted_block (as_i64 n) (shared w)\<rparr>
           in broadcast (active_sessions (shared w1)) (Acknowledgement n) w1)
      | Some (Inl _) \<Rightarrow>
          (let w1 = handle_end_error BadBlockProof s w
           in broadcast (other_sessions (sm_id s) (shared w1)) (ResendBlock n) w1)
      | None \<Rightarrow> release_winner n w)"

definition settle_second ::
    "u64 \<Rightarrow> (string, block_persisted) result option \<Rightarrow> session_manager \<Rightarrow> world \<Rightarrow> bool \<times> world" where
  "settle_second n result s w =
     (case result of
        Some (Inr _) \<Rightarrow> (True, release_winner n w)
      | Some (Inl _) \<Rightarrow> (False, release_winner n w)
      | None \<Rightarrow> (False, broadcast (other_sessions (sm_id s) (shared w)) (ResendBlock n) w))"

definition wait_for_verification_and_persistence ::
    "uuid \<Rightarrow> bus_event list \<Rightarrow> session_manager \<Rightarrow> world \<Rightarrow> bool \<times> world" where
  "wait_for_verification_and_persistence key es s w =
     (let n = as_u64 (current_block_number s); result = await_result n key es
      in settle_second n result s (settle_first n result s w))"

text \<open>The end of the handler once the wait has returned.\<close>

definition finish_block :: "bool \<Rightarrow> session_manager \<Rightarrow> outcome \<times> session_manager" where
  "finish_block success s = (if success then (Continue, reset_for_next_block s) else (Terminate, s))"

subsection \<open>Requests\<close>

text \<open>Items up to and including a proof go to the buffer; a proof completes the block.\<close>

fun accept_items :: "block_item list \<Rightarrow> block_item list \<Rightarrow> block_item list \<times> bool" where
  "accept_items [] buf = (buf, False)"
| "accept_items (item # rest) buf =
     (case item of
        Some (BlockProof _ _) \<Rightarrow> (buf @ [item], True)
      | _ \<Rightarrow> accept_items rest (buf @ [item]))"

definition handle_accept ::
    "codec \<Rightarrow> uuid \<Rightarrow> nat \<Rightarrow> block_item_set \<Rightarrow> session_manager \<Rightarrow> world \<Rightarrow> outcome \<times> session_manager \<times> world" where
  "handle_accept C fresh_key now bset s w =
     (let (buf, complete) = accept_items (block_items bset) (item_buffer s);
          s1 = s\<lparr>item_buffer := buf\<rparr>
      in if complete then complete_block C fresh_key now s1 w else (Continue, s1, w))"

definition handle_skip :: "session_manager \<Rightarrow> world \<Rightarrow> session_manager \<times> world" where
  "handle_skip s w =
     (let s1 = s\<lparr>blocks_skipped := blocks_skipped s + 1\<rparr>
      in (reset_for_next_block s1, send_response s1 (SkipBlock (as_u64 (current_block_number s1))) w))"

definition handle_resend :: "session_manager \<Rightarrow> world \<Rightarrow> session_manager \<times> world" where
  "handle_resend s w =
     (reset_for_next_block s, send_response s (ResendBlock (as_u64 (current_block_number s))) w)"

definition handle_end_behind :: "session_manager \<Rightarrow> world \<Rightarrow> world" where
  "handle_end_behind s w =
     send_response s (EndStream CodeBehind (as_u64 (get_latest_persisted_block (shared w)))) w"

definition handle_end_duplicate :: "session_manager \<Rightarrow> world \<Rightarrow> world" where
  "handle_end_duplicate s w =
     send_response s (EndStream CodeDuplicateBlock (as_u64 (current_block_number s))) w"

fun header_number :: "block_item list \<Rightarrow> i64 option" where
  "header_number [] = None"
| "header_number (item # rest) =
     (case item of
        Some (BlockHeader n _) \<Rightarrow> Some (as_i64 n)
      | _ \<Rightarrow> header_number rest)"

definition run_action ::
    "codec \<Rightarrow> uuid \<Rightarrow> nat \<Rightarrow> block_item_set \<Rightarrow> block_action \<Rightarrow> session_manager \<Rightarrow> world \<Rightarrow>
     outcome \<times> session_manager \<times> world" where
  "run_action C fresh_key now bset action s w =
     (case action of
        Accept \<Rightarrow> handle_accept C fresh_key now bset s w
      | Skip \<Rightarrow> (Continue, handle_skip s w)
      | Resend \<Rightarrow> (Continue, handle_resend s w)
      | EndBehind \<Rightarrow> (Terminate, s, handle_end_behind s w)
      | EndDuplicate \<Rightarrow> (Terminate, s, handle_end_duplicate s w)
      | EndError \<Rightarrow> (Terminate, s, handle_end_error action s w)
      | BadBlockProof \<Rightarrow> (Terminate, s, handle_end_error action s w))"

definition handle_block_items ::
    "codec \<Rightarrow> shared_state \<Rightarrow> uuid \<Rightarrow> nat \<Rightarrow> block_item_set \<Rightarrow> session_manager \<Rightarrow> world \<Rightarrow>
     outcome \<times> session_manager \<times> world" where
  "handle_block_items C old fresh_key now bset s0 w =
     (let s = s0\<lparr>blocks_received := blocks_received s0 + 1\<rparr>;
          block_num = header_number (block_items bset)
      in case validate_block_items (validator s) bset (block_num \<noteq> None) of
           Inl _ \<Rightarrow>
             (Terminate, s, send_response s (EndStream CodeError
                (as_u64 (case block_num of None \<Rightarrow> current_block_number s | Some n \<Rightarrow> n))) w)
         | Inr _ \<Rightarrow>
             (let (action, s1, sh) =
                (case block_num of
                   Some num \<Rightarrow> get_action_for_block old num None s (shared w)
                 | None \<Rightarrow>
                     if current_block_action s \<noteq> None
                     then get_action_for_block old (current_block_number s) (current_block_action s) s (shared w)
                     else (EndError, s, shared w))
              in run_action C fresh_key now bset action (s1\<lparr>current_block_action := Some action\<rparr>) (w\<lparr>shared := sh\<rparr>)))"

definition handle_block_end ::
    "codec \<Rightarrow> uuid \<Rightarrow> nat \<Rightarrow> u64 \<Rightarrow> session_manager \<Rightarrow> world \<Rightarrow> outcome \<times> session_manager \<times> world" where
  "handle_block_end C fresh_key now end_block_number s w =
     (if current_block_action s \<noteq> Some Accept \<or> as_i64 end_block_number \<noteq> current_block_number s
      then (let s1 = s\<lparr>current_block_action := Some EndError\<rparr> in (Terminate, s1, handle_end_error EndError s1 w))
      else complete_block C fresh_key now s w)"

text \<open>
  The end of a stream only compares the publisher's range with the node's: whether the publisher is
  reported as significantly ahead, and whether its range is reported as invalid.
\<close>

definition handle_end_stream :: "u64 \<Rightarrow> u64 \<Rightarrow> shared_state \<Rightarrow> bool \<times> bool" where
  "handle_end_stream earliest latest sh =
     (latest > as_u64 (get_latest_persisted_block sh) + 100, earliest > latest)"

datatype publish_request =
    BlockItemsRequest block_item_set
  | EndOfBlockRequest u64
  | EndStreamRequest u64 u64

definition handle_request ::
    "codec \<Rightarrow> shared_state \<Rightarrow> uuid \<Rightarrow> nat \<Rightarrow> publish_request \<Rightarrow> session_manager \<Rightarrow> world \<Rightarrow>
     outcome \<times> session_manager \<times> world" where
  "handle_request C old fresh_key now request s w =
     (case request of
        BlockItemsRequest bset \<Rightarrow> handle_block_items C old fresh_key now bset s w
      | EndOfBlockRequest n \<Rightarrow> handle_block_end C fresh_key now n s w
      | EndStreamRequest earliest latest \<Rightarrow>
          (let _ = handle_end_stream earliest latest (shared w) in (Terminate, s, w)))"

section \<open>Connections and the plugin\<close>

definition open_session :: "publish_config \<Rightarrow> uuid \<Rightarrow> world \<Rightarrow> session_manager \<times> world" where
  "open_session cfg i w =
     (session_new cfg i, w\<lparr>shared := (shared w)\<lparr>active_sessions := List.insert i (active_sessions (shared w))\<rparr>\<rparr>)"

text \<open>
  The loop over the requests of a connection, up to the first one that ends the session or waits.
  Every request sees the shared state as the one before left it.
\<close>

fun serve_requests ::
    "codec \<Rightarrow> uuid \<Rightarrow> nat \<Rightarrow> publish_request list \<Rightarrow> session_manager \<Rightarrow> world \<Rightarrow>
     outcome \<times> session_manager \<times> world" where
  "serve_requests C fresh_key now [] s w = (Continue, s, w)"
| "serve_requests C fresh_key now (request # requests) s w =
     (case handle_request C (shared w) fresh_key now request s w of
        (Continue, s1, w1) \<Rightarrow> serve_requests C fresh_key now requests s1 w1
      | finished \<Rightarrow> finished)"

definition affected_blocks :: "uuid \<Rightarrow> shared_state \<Rightarrow> u64 list" where
  "affected_blocks i sh = map fst (filter (\<lambda>e. snd e = i) (block_winners sh))"

definition release_affected :: "uuid \<Rightarrow> u64 \<Rightarrow> world \<Rightarrow> world" where
  "release_affected i n w =
     (let w1 = release_winner n w in broadcast (other_sessions i (shared w1)) (ResendBlock n) w1)"

definition unregister_session :: "uuid \<Rightarrow> world \<Rightarrow> world" where
  "unregister_session i w = w\<lparr>shared := (shared w)\<lparr>active_sessions := removeAll i (active_sessions (shared w))\<rparr>\<rparr>"

definition publish_initialize :: "publish_config \<Rightarrow> u64 option res option \<Rightarrow> shared_state option" where
  "publish_initialize cfg reader =
     (if \<not> publish_enabled cfg then None
      else Some (set_latest_persisted_block
             (case reader of
                Some (Inr (Some num)) \<Rightarrow> as_i64 num
              | Some (Inr None) \<Rightarrow> - 1
              | Some (Inl _) \<Rightarrow> - 1
              | None \<Rightarrow> - 1) shared_new))"

text \<open>One round of the task that forgets winners far behind the latest persisted block.\<close>

definition cleanup_before :: "publish_config \<Rightarrow> shared_state \<Rightarrow> u64 option" where
  "cleanup_before cfg sh =
     (let latest = get_latest_persisted_block sh; threshold = winner_cleanup_threshold_blocks cfg
      in if latest > 0 \<and> as_u64 latest > threshold then Some (as_u64 latest - threshold) else None)"

definition cleanup_winners :: "publish_config \<Rightarrow> shared_state \<Rightarrow> shared_state" where
  "cleanup_winners cfg sh =
     (case cleanup_before cfg sh of
        None \<Rightarrow> sh
      | Some b \<Rightarrow> sh\<lparr>block_winners := filter (\<lambda>e. fst e \<ge> b) (block_winners sh)\<rparr>)"

definition publish_stop :: "world \<Rightarrow> world" where
  "publish_stop w =
     (let latest = get_latest_persisted_block (shared w)
      in broadcast (active_sessions (shared w))
           (EndStream CodeError (if latest < 0 then 0 else as_u64 latest)) w)"

section \<open>What a request may change\<close>

named_theorems pub_defs \<open>the definitions of the request handlers\<close>

declare handle_request_def [pub_defs] handle_block_items_def [pub_defs] handle_block_end_def [pub_defs]
  run_action_def [pub_defs] handle_accept_def [pub_defs] handle_skip_def [pub_defs] handle_resend_def [pub_defs]
  handle_end_behind_def [pub_defs] handle_end_duplicate_def [pub_defs] handle_end_error_def [pub_defs]
  send_response_def [pub_defs] reset_for_next_block_def [pub_defs] complete_block_def [pub_defs]
  get_action_for_block_def [pub_defs] get_action_for_header_def [pub_defs]
  get_action_for_currently_streaming_def [pub_defs] cache_insert_def [pub_defs] Let_def [pub_defs]

text \<open>The election: an acceptance takes a free entry, or finds its own.\<close>

lemma get_action_for_block_cases:
  assumes "get_action_for_block old n prev s sh = (a, s', sh')"
  shows "sm_id s' = sm_id s \<and> item_buffer s' = item_buffer s \<and> validator s' = validator s \<and>
    (sh' = sh \<or> a = Accept \<and> map_of (block_winners sh) (as_u64 n) = None \<and>
       sh' = sh\<lparr>block_winners := AList.update (as_u64 n) (sm_id s) (block_winners sh)\<rparr>) \<and>
    (a = Accept \<longrightarrow> current_block_number s' = n \<and> map_of (block_winners sh') (as_u64 n) = Some (sm_id s))"
  using assms
  by (auto simp: get_action_for_block_def get_action_for_header_def get_action_for_currently_streaming_def Let_def
      update_conv' split: if_splits option.splits block_action.splits)

lemma complete_block_cases:
  assumes "complete_block C key now s w = (out, s', w')"
  shows "shared w' = shared w" "responses w' = responses w" "sm_id s' = sm_id s"
    "current_block_number s' = current_block_number s" "out \<noteq> Continue"
    "out = AwaitPersistence k \<Longrightarrow> k = key"
  using assms by (auto simp: complete_block_def cache_insert_def Let_def split: sum.splits if_splits)

text \<open>Running the action leaves the shared state alone and answers the session itself only.\<close>

definition own_responses :: "session_manager \<Rightarrow> world \<Rightarrow> world \<Rightarrow> bool" where
  "own_responses s w w' \<longleftrightarrow>
     (\<exists>rs. responses w' = responses w @ rs \<and> (\<forall>x \<in> set rs. fst x = sm_id s \<and> (\<forall>n. snd x \<noteq> Acknowledgement n)))"

definition streaming :: "outcome \<Rightarrow> session_manager \<Rightarrow> bool" where
  "streaming out s \<longleftrightarrow> (out = Continue \<and> current_block_action s = Some Accept) \<or> (\<exists>k. out = AwaitPersistence k)"

lemma own_responses_refl: "responses w' = responses w \<Longrightarrow> own_responses s w w'"
  by (simp add: own_responses_def)

lemma run_action_cases:
  assumes "run_action C key now bset a s w = (out, s', w')" and "current_block_action s = Some a"
  shows "shared w' = shared w" "sm_id s' = sm_id s" "own_responses s w w'"
    "streaming out s' \<Longrightarrow> a = Accept \<and> current_block_number s' = current_block_number s"
proof -
  have acc: "shared w' = shared w \<and> sm_id s' = sm_id s \<and> own_responses s w w' \<and>
      current_block_number s' = current_block_number s" if "a = Accept"
    using assms that complete_block_cases [of C key now "s\<lparr>item_buffer := fst (accept_items (block_items bset) (item_buffer s))\<rparr>" w out s' w']
    by (auto simp: run_action_def handle_accept_def Let_def split: prod.splits if_splits intro: own_responses_refl)
  have "shared w' = shared w \<and> sm_id s' = sm_id s \<and> own_responses s w w' \<and> \<not> streaming out s'" if "a \<noteq> Accept"
    using assms that
    by (cases a; clarsimp simp: run_action_def handle_skip_def handle_resend_def handle_end_behind_def
        handle_end_duplicate_def handle_end_error_def reset_for_next_block_def own_responses_def send_response_def
        streaming_def Let_def)
  with acc show "shared w' = shared w" "sm_id s' = sm_id s" "own_responses s w w'"
    "streaming out s' \<Longrightarrow> a = Accept \<and> current_block_number s' = current_block_number s"
    by blast+
qed

lemma handle_block_items_run:
  assumes "handle_block_items C old key now bset s w = (out, s', w')"
  obtains (invalid) n where "out = Terminate" "sm_id s' = sm_id s" "w' = send_response s (EndStream CodeError n) w"
  | (valid) a s1 sh where
      "run_action C key now bset a (s1\<lparr>current_block_action := Some a\<rparr>) (w\<lparr>shared := sh\<rparr>) = (out, s', w')"
      "sm_id s1 = sm_id s"
      "sh = shared w \<or> a = Accept \<and> (\<exists>n. map_of (block_winners (shared w)) n = None \<and>
         sh = (shared w)\<lparr>block_winners := AList.update n (sm_id s) (block_winners (shared w))\<rparr>)"
      "a = Accept \<Longrightarrow> map_of (block_winners sh) (as_u64 (current_block_number s1)) = Some (sm_id s)"
proof (cases "validate_block_items (validator s) bset (header_number (block_items bset) \<noteq> None)")
  case (Inl e)
  then show thesis using assms by (intro invalid) (auto simp: handle_block_items_def send_response_def Let_def)
next
  case (Inr u)
  let ?s = "s\<lparr>blocks_received := blocks_received s + 1\<rparr>" and ?n = "header_number (block_items bset)"
  define act where "act = (case ?n of
      Some num \<Rightarrow> get_action_for_block old num None ?s (shared w)
    | None \<Rightarrow> if current_block_action s \<noteq> None
        then get_action_for_block old (current_block_number s) (current_block_action s) ?s (shared w)
        else (EndError, ?s, shared w))"
  obtain a s1 sh where act_eq: "act = (a, s1, sh)" by (cases act)
  then have run: "run_action C key now bset a (s1\<lparr>current_block_action := Some a\<rparr>) (w\<lparr>shared := sh\<rparr>) = (out, s', w')"
    using assms Inr unfolding act_def
    by (cases ?n; cases "current_block_action s"; clarsimp simp: handle_block_items_def)
  have "sm_id s1 = sm_id s \<and> (sh = shared w \<or> a = Accept \<and> (\<exists>n. map_of (block_winners (shared w)) n = None \<and>
       sh = (shared w)\<lparr>block_winners := AList.update n (sm_id s) (block_winners (shared w))\<rparr>)) \<and>
     (a = Accept \<longrightarrow> map_of (block_winners sh) (as_u64 (current_block_number s1)) = Some (sm_id s))"
  proof (cases "\<exists>n prev. get_action_for_block old n prev ?s (shared w) = (a, s1, sh)")
    case True
    then obtain n prev where "get_action_for_block old n prev ?s (shared w) = (a, s1, sh)" by blast
    from get_action_for_block_cases [OF this] show ?thesis by auto
  next
    case False
    then have "act = (EndError, ?s, shared w)"
      using act_eq by (auto simp: act_def split: option.splits if_splits)
    then show ?thesis using act_eq by simp
  qed
  then show thesis using valid [OF run] by blast
qed

lemma handle_block_items_cases:
  assumes "handle_block_items C old key now bset s w = (out, s', w')"
  shows "sm_id s' = sm_id s \<and> own_responses s w w' \<and>
    (shared w' = shared w \<or> (\<exists>n. map_of (block_winners (shared w)) n = None \<and>
       shared w' = (shared w)\<lparr>block_winners := AList.update n (sm_id s) (block_winners (shared w))\<rparr>)) \<and>
    (streaming out s' \<longrightarrow> map_of (block_winners (shared w')) (as_u64 (current_block_number s')) = Some (sm_id s))"
  using assms
proof (cases rule: handle_block_items_run)
  case (invalid n)
  then show ?thesis by (auto simp: streaming_def own_responses_def send_response_def)
next
  case (valid a s1 sh)
  then show ?thesis using run_action_cases [OF valid(1)] by (auto simp: own_responses_def)
qed

lemma handle_request_cases:
  assumes "handle_request C old key now req s w = (out, s', w')"
  shows "sm_id s' = sm_id s" "own_responses s w w'"
    "shared w' = shared w \<or> (\<exists>n. map_of (block_winners (shared w)) n = None \<and>
       shared w' = (shared w)\<lparr>block_winners := AList.update n (sm_id s) (block_winners (shared w))\<rparr>)"
    "streaming out s' \<Longrightarrow>
       map_of (block_winners (shared w')) (as_u64 (current_block_number s')) = Some (sm_id s) \<or>
       shared w' = shared w \<and> current_block_number s' = current_block_number s \<and> current_block_action s = Some Accept"
proof -
  have "sm_id s' = sm_id s \<and> own_responses s w w' \<and>
    (shared w' = shared w \<or> (\<exists>n. map_of (block_winners (shared w)) n = None \<and>
       shared w' = (shared w)\<lparr>block_winners := AList.update n (sm_id s) (block_winners (shared w))\<rparr>)) \<and>
    (streaming out s' \<longrightarrow> map_of (block_winners (shared w')) (as_u64 (current_block_number s')) = Some (sm_id s) \<or>
       shared w' = shared w \<and> current_block_number s' = current_block_number s \<and> current_block_action s = Some Accept)"
  proof (cases req)
    case (BlockItemsRequest bset)
    then show ?thesis using assms handle_block_items_cases [of C old key now bset s w out s' w']
      by (simp add: handle_request_def)
  next
    case (EndOfBlockRequest n)
    then show ?thesis using assms complete_block_cases [of C key now s w out s' w']
      by (auto simp: handle_request_def handle_block_end_def streaming_def handle_end_error_def own_responses_def
          send_response_def Let_def split: if_splits intro: own_responses_refl)
  next
    case (EndStreamRequest e l)
    then show ?thesis using assms
      by (auto simp: handle_request_def streaming_def intro: own_responses_refl)
  qed
  then show "sm_id s' = sm_id s" "own_responses s w w'"
    "shared w' = shared w \<or> (\<exists>n. map_of (block_winners (shared w)) n = None \<and>
       shared w' = (shared w)\<lparr>block_winners := AList.update n (sm_id s) (block_winners (shared w))\<rparr>)"
    "streaming out s' \<Longrightarrow>
       map_of (block_winners (shared w')) (as_u64 (current_block_number s')) = Some (sm_id s) \<or>
       shared w' = shared w \<and> current_block_number s' = current_block_number s \<and> current_block_action s = Some Accept"
    by blast+
qed

section \<open>A block sent in pieces\<close>

fun is_proof :: "block_item \<Rightarrow> bool" where
  "is_proof (Some (BlockProof _ _)) = True"
| "is_proof _ = False"

fun is_header :: "block_item \<Rightarrow> bool" where
  "is_header (Some (BlockHeader _ _)) = True"
| "is_header _ = False"

lemma accept_items_no_proof: "\<not> list_ex is_proof xs \<Longrightarrow> accept_items xs buf = (buf @ xs, False)"
  by (induction xs buf rule: accept_items.induct) (auto split: option.splits block_item_type.splits)

lemma accept_items_proof:
  "\<not> list_ex is_proof xs \<Longrightarrow> is_proof p \<Longrightarrow> accept_items (xs @ [p]) buf = (buf @ xs @ [p], True)"
  by (induction xs buf rule: accept_items.induct)
    (auto split: option.splits block_item_type.splits elim: is_proof.elims)

lemma header_number_none: "\<not> list_ex is_header xs \<Longrightarrow> header_number xs = None"
  by (induction xs) (auto split: option.splits block_item_type.splits)

text \<open>What the submission of a block leaves behind.\<close>

definition submitted :: "codec \<Rightarrow> uuid \<Rightarrow> u64 \<Rightarrow> block \<Rightarrow> world \<Rightarrow> world \<Rightarrow> bool" where
  "submitted C key n b w w' \<longleftrightarrow>
     items_received w' = items_received w @ [\<lparr>block_number = n, cache_key = key\<rparr>] \<and>
     (\<exists>data. cache_get key (block_cache w') = Some data \<and> bd_block_number data = n \<and>
        decode_block C (bd_contents data) = Inr b)"

lemma complete_block_submits:
  assumes "codec_laws C" and "items_rx_open w"
  shows "\<exists>s' w'. complete_block C key now s w = (AwaitPersistence key, s', w') \<and>
    submitted C key (as_u64 (current_block_number s)) \<lparr>items = item_buffer s\<rparr> w w' \<and>
    current_block_number s' = current_block_number s \<and> shared w' = shared w \<and> responses w' = responses w"
  using assms
  by (simp add: complete_block_def codec_laws.encode_ok codec_laws.decode_encode cache_insert_def cache_get_def
      submitted_def Let_def)

text \<open>A set of items for the block that is being streamed.\<close>

lemma continue_block:
  assumes "current_block_action s = Some Accept"
    and "map_of (block_winners (shared w)) (as_u64 (current_block_number s)) = Some (sm_id s)"
    and "block_items bset \<noteq> []" "length (block_items bset) \<le> validator_max_items (validator s)"
    and "\<not> list_ex is_header (block_items bset)"
  shows "handle_request C old key now (BlockItemsRequest bset) s w =
    handle_accept C key now bset (s\<lparr>blocks_received := blocks_received s + 1, current_block_action := Some Accept\<rparr>) w"
  using assms header_number_none [OF assms(5)]
  by (auto simp: handle_request_def handle_block_items_def validate_block_items_def get_action_for_block_def
      get_action_for_currently_streaming_def run_action_def Let_def split: list.splits)

lemma serve_rest_of_block:
  assumes laws: "codec_laws C" and open_rx: "items_rx_open w"
    and "current_block_action s = Some Accept" "current_block_number s = as_i64 n"
    and "map_of (block_winners (shared w)) n = Some (sm_id s)"
    and "\<forall>b \<in> set bs. block_items b \<noteq> [] \<and> length (block_items b) \<le> validator_max_items (validator s)"
    and "concat (map block_items bs) = body @ [p]" "is_proof p"
    and "\<not> list_ex is_proof body" "\<not> list_ex is_header body"
  shows "\<exists>s' w'. serve_requests C key now (map BlockItemsRequest bs) s w = (AwaitPersistence key, s', w') \<and>
    submitted C key n \<lparr>items = item_buffer s @ body @ [p]\<rparr> w w' \<and> shared w' = shared w \<and> responses w' = responses w \<and>
    current_block_number s' = as_i64 n"
  using assms(3-)
proof (induction bs arbitrary: s body)
  case Nil
  then show ?case by simp
next
  case (Cons b bs)
  let ?s = "s\<lparr>blocks_received := blocks_received s + 1, current_block_action := Some Accept\<rparr>"
  have nohd: "\<not> list_ex is_header (block_items b)"
  proof -
    have "set (block_items b) \<subseteq> set (body @ [p])" using Cons.prems(5) by (metis concat.simps(2) list.simps(9) set_append sup_ge1)
    then show ?thesis using Cons.prems(6,8) by (auto simp: list_ex_iff elim: is_proof.elims is_header.elims)
  qed
  have step: "handle_request C (shared w) key now (BlockItemsRequest b) s w = handle_accept C key now b ?s w"
    using Cons.prems by (intro continue_block nohd) simp_all
  show ?case
  proof (cases bs)
    case Nil
    then have b: "block_items b = body @ [p]" using Cons.prems(5) by simp
    show ?thesis
      using complete_block_submits [OF laws open_rx, of key now "?s\<lparr>item_buffer := item_buffer s @ body @ [p]\<rparr>"]
        accept_items_proof [OF Cons.prems(7,6), of "item_buffer s"] Cons.prems(2)
      by (auto simp: step handle_accept_def b Nil)
  next
    case (Cons b2 bs2)
    have ne: "concat (map block_items bs) \<noteq> []" using Cons.prems(4) Cons by simp
    obtain ys where ys: "concat (map block_items bs) = ys @ [p]" "body = block_items b @ ys"
      using Cons.prems(5) ne by (cases "concat (map block_items bs)" rule: rev_cases) auto
    have "accept_items (block_items b) (item_buffer s) = (item_buffer s @ block_items b, False)"
      using accept_items_no_proof Cons.prems(7) ys(2) by simp
    then have "serve_requests C key now (map BlockItemsRequest (b # bs)) s w =
        serve_requests C key now (map BlockItemsRequest bs) (?s\<lparr>item_buffer := item_buffer s @ block_items b\<rparr>) w"
      by (simp add: step handle_accept_def)
    with Cons.IH [of "?s\<lparr>item_buffer := item_buffer s @ block_items b\<rparr>" ys] Cons.prems ys show ?thesis
      by simp
  qed
qed

text \<open>A set that starts a block which nobody holds and which is newer than the latest persisted one.\<close>

lemma start_block:
  assumes "latest_persisted_block (shared w) < as_i64 n" "map_of (block_winners (shared w)) n = None"
    and "block_items bset = Some (BlockHeader n r) # rest" "length (block_items bset) \<le> validator_max_items (validator s)"
  shows "handle_request C (shared w) key now (BlockItemsRequest bset) s w =
    handle_accept C key now bset (s\<lparr>blocks_received := blocks_received s + 1, current_block_number := as_i64 n,
        sm_state := Primary, current_block_action := Some Accept\<rparr>)
      (w\<lparr>shared := (shared w)\<lparr>block_winners := AList.update n (sm_id s) (block_winners (shared w))\<rparr>\<rparr>)"
  using assms
  by (simp add: handle_request_def handle_block_items_def validate_block_items_def get_action_for_block_def
      get_action_for_header_def get_latest_persisted_block_def run_action_def Let_def)

lemma serve_whole_block:
  assumes laws: "codec_laws C" and open_rx: "items_rx_open w"
    and new: "latest_persisted_block (shared w) < as_i64 n" "map_of (block_winners (shared w)) n = None"
    and size: "\<forall>b \<in> set bs. block_items b \<noteq> [] \<and> length (block_items b) \<le> validator_max_items (validator s)"
    and items: "concat (map block_items bs) = Some (BlockHeader n r) # body @ [p]" "is_proof p"
      "\<not> list_ex is_proof body" "\<not> list_ex is_header body"
  shows "\<exists>s' w'. serve_requests C key now (map BlockItemsRequest bs) s w = (AwaitPersistence key, s', w') \<and>
    submitted C key n \<lparr>items = item_buffer s @ Some (BlockHeader n r) # body @ [p]\<rparr> w w' \<and>
    map_of (block_winners (shared w')) n = Some (sm_id s) \<and> responses w' = responses w \<and>
    current_block_number s' = as_i64 n \<and> active_sessions (shared w') = active_sessions (shared w)"
proof (cases bs)
  case Nil
  then show ?thesis using items(1) by simp
next
  case (Cons b bs')
  let ?s = "s\<lparr>blocks_received := blocks_received s + 1, current_block_number := as_i64 n,
    sm_state := Primary, current_block_action := Some Accept\<rparr>"
  let ?w = "w\<lparr>shared := (shared w)\<lparr>block_winners := AList.update n (sm_id s) (block_winners (shared w))\<rparr>\<rparr>"
  obtain rest where b: "block_items b = Some (BlockHeader n r) # rest"
    using items(1) size Cons by (cases "block_items b") auto
  have step: "handle_request C (shared w) key now (BlockItemsRequest b) s w = handle_accept C key now b ?s ?w"
    using size Cons by (intro start_block [OF new b]) simp
  have win: "map_of (block_winners (shared ?w)) n = Some (sm_id s)" by (simp add: update_conv')
  show ?thesis
  proof (cases "bs' = []")
    case True
    then have b': "block_items b = (Some (BlockHeader n r) # body) @ [p]" using items(1) Cons by simp
    then have "accept_items (block_items b) (item_buffer s) = (item_buffer s @ Some (BlockHeader n r) # body @ [p], True)"
      using accept_items_proof [of "Some (BlockHeader n r) # body" p "item_buffer s"] items(2,3) by simp
    then show ?thesis
      using complete_block_submits [OF laws, of ?w key now "?s\<lparr>item_buffer := item_buffer s @ Some (BlockHeader n r) # body @ [p]\<rparr>"]
        open_rx win
      by (auto simp: step handle_accept_def Cons True submitted_def)
  next
    case False
    then have ne: "concat (map block_items bs') \<noteq> []" using size Cons by (cases bs') auto
    then obtain ys where ys: "concat (map block_items bs') = ys @ [p]" "body = rest @ ys"
      using items(1) b Cons by (cases "concat (map block_items bs')" rule: rev_cases) auto
    have "accept_items (block_items b) (item_buffer s) = (item_buffer s @ block_items b, False)"
      using items(3) ys(2) by (intro accept_items_no_proof) (simp add: b)
    then have "serve_requests C key now (map BlockItemsRequest bs) s w =
        serve_requests C key now (map BlockItemsRequest bs') (?s\<lparr>item_buffer := item_buffer s @ block_items b\<rparr>) ?w"
      by (simp add: step handle_accept_def Cons)
    with serve_rest_of_block [OF laws, of ?w "?s\<lparr>item_buffer := item_buffer s @ block_items b\<rparr>" n bs' ys p key now]
      ys items(2-4) size open_rx win show ?thesis
      by (auto simp: Cons b submitted_def)
  qed
qed

text \<open>
  C17: A block sent in pieces arrives whole. However a publisher cuts a block into sets of items, once the
  proof arrives the node has queued exactly one event for the block, and the cache holds, under the
  key of the event, an encoding that decodes to all items of the block in order.
\<close>

theorem streamed_block_submitted:
  assumes "codec_laws C" and "items_rx_open w" and "item_buffer s = []"
    and "latest_persisted_block (shared w) < as_i64 n" and "map_of (block_winners (shared w)) n = None"
    and "\<forall>b \<in> set bs. block_items b \<noteq> [] \<and> length (block_items b) \<le> validator_max_items (validator s)"
    and "concat (map block_items bs) = Some (BlockHeader n r) # body @ [p]" and "is_proof p"
    and "\<not> list_ex is_proof body" and "\<not> list_ex is_header body"
  shows "\<exists>s' w' data b. serve_requests C key now (map BlockItemsRequest bs) s w = (AwaitPersistence key, s', w') \<and>
    items_received w' = items_received w @ [\<lparr>block_number = n, cache_key = key\<rparr>] \<and>
    cache_get key (block_cache w') = Some data \<and> decode_block C (bd_contents data) = Inr b \<and>
    items b = concat (map block_items bs) \<and> get_block_number b = Inr n"
  using serve_whole_block [OF assms(1,2,4-), of key now] assms(3,7)
  by (fastforce simp: submitted_def get_block_number_def)

definition example_world :: world where
  "example_world = \<lparr>shared = shared_new, block_cache = cache_new, items_received = [], items_rx_open = True, responses = []\<rparr>"

abbreviation example_pieces :: "block_item_set list" where
  "example_pieces \<equiv> [\<lparr>block_items = [Some (BlockHeader 5 []), Some (OtherItem [1])]\<rparr>,
     \<lparr>block_items = [None, Some (OtherItem [2]), Some (BlockProof 5 [])]\<rparr>]"

theorem streamed_block_submitted_witness:
  "\<exists>s' w' data b. serve_requests ref_codec 9 0 (map BlockItemsRequest example_pieces)
      (session_new default_publish_config 1) example_world = (AwaitPersistence 9, s', w') \<and>
    items_received w' = items_received example_world @ [\<lparr>block_number = 5, cache_key = 9\<rparr>] \<and>
    cache_get 9 (block_cache w') = Some data \<and> decode_block ref_codec (bd_contents data) = Inr b \<and>
    items b = concat (map block_items example_pieces) \<and> get_block_number b = Inr 5"
  by (rule streamed_block_submitted [where r = "[]" and p = "Some (BlockProof 5 [])"
        and body = "[Some (OtherItem [1]), None, Some (OtherItem [2])]"])
    (simp_all add: refc.codec_laws_axioms example_world_def shared_new_def session_new_def default_publish_config_def as_i64_def)

text \<open>
  C26: A header in the middle of a block mislabels it. A session that is streaming block \<open>m\<close> and sends the
  header of another block \<open>n\<close> before the proof of \<open>m\<close> is accepted for \<open>n\<close> with the items of \<open>m\<close> still
  in its buffer: what is then submitted as block \<open>n\<close> is a block with number \<open>m\<close>.
\<close>

theorem header_mid_block_mislabels:
  assumes "codec_laws C" and "items_rx_open w" and "item_buffer s = Some (BlockHeader m r0) # rest"
    and "latest_persisted_block (shared w) < as_i64 n" and "map_of (block_winners (shared w)) n = None"
    and "2 \<le> validator_max_items (validator s)" and "is_proof p"
  shows "\<exists>s' w' data b. handle_request C (shared w) key now
      (BlockItemsRequest \<lparr>block_items = [Some (BlockHeader n r), p]\<rparr>) s w = (AwaitPersistence key, s', w') \<and>
    items_received w' = items_received w @ [\<lparr>block_number = n, cache_key = key\<rparr>] \<and>
    cache_get key (block_cache w') = Some data \<and> decode_block C (bd_contents data) = Inr b \<and>
    get_block_number b = Inr m"
proof -
  let ?b = "\<lparr>block_items = [Some (BlockHeader n r), p]\<rparr>"
  obtain s' w' where run: "serve_requests C key now (map BlockItemsRequest [?b]) s w = (AwaitPersistence key, s', w')"
    and sub: "submitted C key n \<lparr>items = item_buffer s @ Some (BlockHeader n r) # [] @ [p]\<rparr> w w'"
    using serve_whole_block [OF assms(1,2,4,5), of "[?b]" s r "[]" p key now] assms(6,7) by auto
  then have "handle_request C (shared w) key now (BlockItemsRequest ?b) s w = (AwaitPersistence key, s', w')"
    by (auto split: outcome.splits prod.splits)
  with sub show ?thesis by (auto simp: submitted_def get_block_number_def assms(3))
qed

theorem header_mid_block_mislabels_witness:
  "\<exists>s' w' data b. handle_request ref_codec (shared example_world) 9 0
      (BlockItemsRequest \<lparr>block_items = [Some (BlockHeader 6 []), Some (BlockProof 6 [])]\<rparr>)
      ((session_new default_publish_config 1)\<lparr>item_buffer := [Some (BlockHeader 5 [])]\<rparr>) example_world =
      (AwaitPersistence 9, s', w') \<and>
    items_received w' = items_received example_world @ [\<lparr>block_number = 6, cache_key = 9\<rparr>] \<and>
    cache_get 9 (block_cache w') = Some data \<and> decode_block ref_codec (bd_contents data) = Inr b \<and>
    get_block_number b = Inr 5"
  by (rule header_mid_block_mislabels [where ?r0.0 = "[]" and rest = "[]"])
    (simp_all add: refc.codec_laws_axioms example_world_def shared_new_def session_new_def default_publish_config_def as_i64_def)

lemma run_action_answers:
  assumes "codec_laws C" and "items_rx_open w" and "run_action C key now bset a s w = (out, s', w')"
  shows "out = Terminate \<Longrightarrow> a \<noteq> Accept \<and> (\<exists>code n. responses w' = responses w @ [(sm_id s, EndStream code n)])"
    "out = Continue \<Longrightarrow> \<exists>rs. responses w' = responses w @ rs \<and> (\<nexists>code n. (sm_id s, EndStream code n) \<in> set rs)"
    "out = AwaitPersistence k \<Longrightarrow> responses w' = responses w"
proof -
  have acc: "out \<noteq> Terminate \<and> responses w' = responses w" if "a = Accept"
    using assms(3) that
      complete_block_submits [OF assms(1,2), of key now "s\<lparr>item_buffer := fst (accept_items (block_items bset) (item_buffer s))\<rparr>"]
    by (auto simp: run_action_def handle_accept_def Let_def split: prod.splits if_splits)
  have other: "(out = Terminate \<and> (\<exists>code n. responses w' = responses w @ [(sm_id s, EndStream code n)])) \<or>
      (out = Continue \<and> (\<exists>r. responses w' = responses w @ [(sm_id s, r)] \<and> (\<nexists>code n. r = EndStream code n)))" if "a \<noteq> Accept"
    using assms(3) that
    by (cases a; clarsimp simp: run_action_def handle_skip_def handle_resend_def handle_end_behind_def
        handle_end_duplicate_def handle_end_error_def send_response_def Let_def)
  show "out = Terminate \<Longrightarrow> a \<noteq> Accept \<and> (\<exists>code n. responses w' = responses w @ [(sm_id s, EndStream code n)])"
    "out = Continue \<Longrightarrow> \<exists>rs. responses w' = responses w @ rs \<and> (\<nexists>code n. (sm_id s, EndStream code n) \<in> set rs)"
    "out = AwaitPersistence k \<Longrightarrow> responses w' = responses w"
    using acc other by (cases "a = Accept"; auto)+
qed

lemma request_answered:
  assumes "codec_laws C" and "items_rx_open w" and "handle_request C old key now req s w = (out, s1, w1)"
  shows "case out of
      Terminate \<Rightarrow> shared w1 = shared w \<and>
        (case req of
           EndStreamRequest _ _ \<Rightarrow> responses w1 = responses w
         | _ \<Rightarrow> \<exists>code n. responses w1 = responses w @ [(sm_id s, EndStream code n)])
    | Continue \<Rightarrow> \<exists>rs. responses w1 = responses w @ rs \<and> (\<nexists>code n. (sm_id s, EndStream code n) \<in> set rs)
    | AwaitPersistence k \<Rightarrow> responses w1 = responses w"
proof (cases req)
  case (BlockItemsRequest bset)
  then have "handle_block_items C old key now bset s w = (out, s1, w1)"
    using assms(3) by (simp add: handle_request_def)
  then show ?thesis
  proof (cases rule: handle_block_items_run)
    case (invalid n)
    then show ?thesis using BlockItemsRequest by (simp add: send_response_def)
  next
    case (valid a t sh)
    have "items_rx_open (w\<lparr>shared := sh\<rparr>)" using assms(2) by simp
    from run_action_answers [OF assms(1) this valid(1)] run_action_cases(1) [OF valid(1)] valid(2,3) BlockItemsRequest
    show ?thesis by (cases out) auto
  qed
next
  case (EndOfBlockRequest n)
  then show ?thesis
    using assms(3) complete_block_submits [OF assms(1,2), of key now s]
    by (auto simp: handle_request_def handle_block_end_def handle_end_error_def send_response_def Let_def split: if_splits)
next
  case (EndStreamRequest e l)
  then show ?thesis using assms(3) by (auto simp: handle_request_def)
qed

text \<open>What the end of the wait brings.\<close>

lemma wait_reports:
  assumes "wait_for_verification_and_persistence k es s w = (success, w')" and "n = as_u64 (current_block_number s)"
  shows "map_of (block_winners (shared w')) n = None \<and>
    (case await_result n k es of
       Some (Inr _) \<Rightarrow> success \<and> responses w' = responses w @ map (\<lambda>i. (i, Acknowledgement n)) (active_sessions (shared w))
     | Some (Inl _) \<Rightarrow> \<not> success \<and> responses w' = responses w @ (sm_id s, EndStream CodeBadBlockProof n) #
         map (\<lambda>i. (i, ResendBlock n)) (other_sessions (sm_id s) (shared w))
     | None \<Rightarrow> \<not> success \<and> responses w' = responses w @ map (\<lambda>i. (i, ResendBlock n)) (other_sessions (sm_id s) (shared w)))"
  using assms
  by (auto simp: wait_for_verification_and_persistence_def settle_first_def settle_second_def release_winner_def
      broadcast_def handle_end_error_def send_response_def set_latest_persisted_block_def other_sessions_def delete_conv' Let_def
      split: option.splits sum.splits)

text \<open>
  C27: A failed block is offered before it is free. When verification of a block fails, the other sessions
  are asked to resend it while its winner entry is still there: a session that answers before the
  entry is removed is told to skip the block. After the entry is removed it would be accepted.
\<close>

theorem failed_block_resend_skipped:
  assumes "map_of (block_winners (shared w)) n = Some (sm_id s)" and "sm_id t \<noteq> sm_id s"
    and "sm_id t \<in> set (active_sessions (shared w))" and "latest_persisted_block (shared w) < as_i64 n"
    and "w1 = settle_first n (Some (Inl reason)) s w" and "settle_second n (Some (Inl reason)) s w1 = (success, w2)"
  shows "(sm_id t, ResendBlock n) \<in> set (responses w1) \<and>
    fst (get_action_for_header (shared w1) (as_i64 n) t (shared w1)) = Skip \<and>
    fst (get_action_for_header (shared w2) (as_i64 n) t (shared w2)) = Accept"
  using assms
  by (auto simp: settle_first_def settle_second_def handle_end_error_def send_response_def broadcast_def
      other_sessions_def release_winner_def get_action_for_header_def get_latest_persisted_block_def delete_conv' Let_def)

lemma session_new_id [simp]: "sm_id (session_new cfg i) = i"
  by (simp add: session_new_def)

definition race_world :: world where
  "race_world = example_world\<lparr>shared := shared_new\<lparr>block_winners := [(5, 1)], active_sessions := [1, 2]\<rparr>\<rparr>"

definition race_start :: world where
  "race_start = example_world\<lparr>shared := shared_new\<lparr>active_sessions := [1, 2]\<rparr>\<rparr>"

definition race_first :: world where
  "race_first = settle_first 5 (Some (Inl ''bad proof'')) (session_new default_publish_config 1) race_world"

definition race_second :: world where
  "race_second = snd (settle_second 5 (Some (Inl ''bad proof'')) (session_new default_publish_config 1) race_first)"

theorem failed_block_resend_skipped_witness:
  "(sm_id (session_new default_publish_config 2), ResendBlock 5) \<in> set (responses race_first) \<and>
    fst (get_action_for_header (shared race_first) (as_i64 5) (session_new default_publish_config 2) (shared race_first)) = Skip \<and>
    fst (get_action_for_header (shared race_second) (as_i64 5) (session_new default_publish_config 2) (shared race_second)) = Accept"
  by (rule failed_block_resend_skipped [where s = "session_new default_publish_config 1" and w = race_world
        and reason = "''bad proof''" and success = False])
    (simp_all add: race_first_def race_second_def race_world_def settle_second_def example_world_def shared_new_def as_i64_def)

text \<open>
  C25: How the end of a session is reported. While blocks can be encoded and the pipeline takes them, a
  request ends the session at once only with an end of stream to the publisher, or because it was the
  publisher's own end of stream, which is not answered; either way the shared state is unchanged. A request
  that does not end the session sends it no end of stream. A request that submits a block waits, and what
  the wait brings decides, whatever the other sessions have done meanwhile: a confirmation is acknowledged
  to all sessions and this one goes on; a failed verification is reported to this session by an end of
  stream and ends it; a timeout ends it without any message to it, and only the other sessions are asked to
  resend. In each case the block is free afterwards.
\<close>

theorem session_end_reported:
  assumes "codec_laws C" and "items_rx_open w" and "handle_request C old key now req s w = (out, s1, w1)"
  shows "case out of
      Terminate \<Rightarrow> shared w1 = shared w \<and>
        (case req of
           EndStreamRequest _ _ \<Rightarrow> responses w1 = responses w
         | _ \<Rightarrow> \<exists>code n. responses w1 = responses w @ [(sm_id s, EndStream code n)])
    | Continue \<Rightarrow> \<exists>rs. responses w1 = responses w @ rs \<and> (\<nexists>code n. (sm_id s, EndStream code n) \<in> set rs)
    | AwaitPersistence k \<Rightarrow> responses w1 = responses w \<and>
        (let n = as_u64 (current_block_number s1); (success, w3) = wait_for_verification_and_persistence k es s1 w2;
             sent_to = \<lambda>is r. map (\<lambda>i. (i, r)) is
         in map_of (block_winners (shared w3)) n = None \<and>
            (case await_result n k es of
               Some (Inr _) \<Rightarrow> finish_block success s1 = (Continue, reset_for_next_block s1) \<and>
                 responses w3 = responses w2 @ sent_to (active_sessions (shared w2)) (Acknowledgement n)
             | Some (Inl _) \<Rightarrow> finish_block success s1 = (Terminate, s1) \<and>
                 responses w3 = responses w2 @ (sm_id s, EndStream CodeBadBlockProof n) #
                   sent_to (other_sessions (sm_id s) (shared w2)) (ResendBlock n)
             | None \<Rightarrow> finish_block success s1 = (Terminate, s1) \<and>
                 responses w3 = responses w2 @ sent_to (other_sessions (sm_id s) (shared w2)) (ResendBlock n)))"
proof -
  have now: "case out of
      Terminate \<Rightarrow> shared w1 = shared w \<and>
        (case req of
           EndStreamRequest _ _ \<Rightarrow> responses w1 = responses w
         | _ \<Rightarrow> \<exists>code n. responses w1 = responses w @ [(sm_id s, EndStream code n)])
    | Continue \<Rightarrow> \<exists>rs. responses w1 = responses w @ rs \<and> (\<nexists>code n. (sm_id s, EndStream code n) \<in> set rs)
    | AwaitPersistence k \<Rightarrow> responses w1 = responses w"
    using request_answered [OF assms] .
  show ?thesis
  proof (cases out)
    case (AwaitPersistence k)
    obtain success w3 where w: "wait_for_verification_and_persistence k es s1 w2 = (success, w3)" by fastforce
    have "sm_id s1 = sm_id s" using handle_request_cases(1) [OF assms(3)] .
    then show ?thesis
      using now AwaitPersistence wait_reports [OF w refl]
      by (simp add: w Let_def finish_block_def split: option.splits sum.splits)
  qed (use now in simp_all)
qed

text \<open>A block whose items do not come before the timeout.\<close>

theorem session_end_reported_witness:
  "\<exists>s1 w1. handle_request ref_codec (shared race_start) 9 0
       (BlockItemsRequest \<lparr>block_items = [Some (BlockHeader 5 []), Some (BlockProof 5 [])]\<rparr>)
       (session_new default_publish_config 1) race_start = (AwaitPersistence 9, s1, w1) \<and>
     finish_block (fst (wait_for_verification_and_persistence 9 [] s1 w1)) s1 = (Terminate, s1) \<and>
     responses (snd (wait_for_verification_and_persistence 9 [] s1 w1)) = [(2, ResendBlock 5)]"
proof -
  let ?req = "BlockItemsRequest \<lparr>block_items = [Some (BlockHeader 5 []), Some (BlockProof 5 [])]\<rparr>"
    and ?s = "session_new default_publish_config 1"
  obtain s1 w1 where run: "handle_request ref_codec (shared race_start) 9 0 ?req ?s race_start = (AwaitPersistence 9, s1, w1)"
    and n: "current_block_number s1 = 5" and sh: "active_sessions (shared w1) = [1, 2]"
    using serve_whole_block [OF refc.codec_laws_axioms, of race_start 5
        "[\<lparr>block_items = [Some (BlockHeader 5 []), Some (BlockProof 5 [])]\<rparr>]" ?s "[]" "[]" "Some (BlockProof 5 [])" 9 0]
    by (auto simp: race_start_def example_world_def shared_new_def session_new_def default_publish_config_def as_i64_def
        split: outcome.splits prod.splits)
  have "items_rx_open race_start" "responses race_start = []" by (simp_all add: race_start_def example_world_def)
  with session_end_reported [OF refc.codec_laws_axioms _ run, of "[]" w1] n sh run show ?thesis
    by (auto simp: Let_def other_sessions_def as_u64_def split: prod.splits)
qed

end
