(* ===== verification/Publish_System.thy ===== *)
theory Publish_System
  imports Publish Ref_Codec
begin

text \<open>
  All publisher sessions together, as a step relation over the points at which one task can be
  interrupted by another, with the cleanup task, the plugin's stop and the rest of the node as
  further steps. The invariant gives the exclusion property of the election, that no winner entry
  outlives its session, and that an acknowledgement follows a confirmed persistence.
\<close>

section \<open>Steps\<close>

text \<open>
  A session reads requests; after the submission of a block it subscribes to the message bus, waits,
  and settles in two parts; after its last request it collects the blocks it still holds, releases
  them one by one and unregisters.
\<close>

datatype phase =
    Reading
  | Submitted uuid
  | Waiting uuid nat
  | Settling "(string, block_persisted) result option"
  | Ending
  | Closing "u64 list"
  | Closed

fun next_phase :: "outcome \<Rightarrow> phase" where
  "next_phase Continue = Reading"
| "next_phase Terminate = Ending"
| "next_phase (AwaitPersistence key) = Submitted key"

text \<open>
  The predicate \<open>P\<close> limits the requests a session may receive. The bus keeps every event that was broadcast. \<open>cut\<close> is the greatest bound below which the cleanup
  task has dropped winners, \<open>used\<close> the cache keys handed out so far; both only record the past.
\<close>

record pub_system =
  pworld :: world
  sessions :: "uuid \<rightharpoonup> session_manager \<times> phase"
  bus :: "bus_event list"
  cut :: u64
  used :: "uuid set"

abbreviation winner :: "world \<Rightarrow> u64 \<rightharpoonup> uuid" where
  "winner w \<equiv> map_of (block_winners (shared w))"

abbreviation block_of :: "session_manager \<Rightarrow> u64" where
  "block_of s \<equiv> as_u64 (current_block_number s)"

text \<open>
  A polite publisher finishes a block before it starts another: it sends no header while the session
  is accepted for a block.
\<close>

definition polite :: "session_manager \<Rightarrow> publish_request \<Rightarrow> bool" where
  "polite s req \<longleftrightarrow>
     (case req of
        BlockItemsRequest bset \<Rightarrow> current_block_action s = Some Accept \<longrightarrow> header_number (block_items bset) = None
      | _ \<Rightarrow> True)"

inductive pub_task ::
    "codec \<Rightarrow> publish_config \<Rightarrow> (session_manager \<Rightarrow> publish_request \<Rightarrow> bool) \<Rightarrow> pub_system \<Rightarrow> pub_system \<Rightarrow> bool"
  for C cfg P where
  connect: "sessions p i = None \<Longrightarrow> open_session cfg i (pworld p) = (s, w) \<Longrightarrow>
    pub_task C cfg P p (p\<lparr>pworld := w, sessions := (sessions p)(i \<mapsto> (s, Reading))\<rparr>)"
| request: "sessions p i = Some (s, Reading) \<Longrightarrow> P s req \<Longrightarrow> key \<notin> used p \<Longrightarrow>
    handle_request C old key now req s (pworld p) = (out, s', w) \<Longrightarrow>
    pub_task C cfg P p (p\<lparr>pworld := w, sessions := (sessions p)(i \<mapsto> (s', next_phase out)), used := insert key (used p)\<rparr>)"
| disconnect: "sessions p i = Some (s, Reading) \<Longrightarrow>
    pub_task C cfg P p (p\<lparr>sessions := (sessions p)(i \<mapsto> (s, Ending))\<rparr>)"
| subscribe: "sessions p i = Some (s, Submitted key) \<Longrightarrow>
    pub_task C cfg P p (p\<lparr>sessions := (sessions p)(i \<mapsto> (s, Waiting key (length (bus p))))\<rparr>)"
| wake: "sessions p i = Some (s, Waiting key pos) \<Longrightarrow> set es \<subseteq> set (drop pos (bus p)) \<Longrightarrow>
    result = await_result (block_of s) key es \<Longrightarrow>
    pub_task C cfg P p (p\<lparr>pworld := settle_first (block_of s) result s (pworld p),
      sessions := (sessions p)(i \<mapsto> (s, Settling result))\<rparr>)"
| settle: "sessions p i = Some (s, Settling result) \<Longrightarrow>
    settle_second (block_of s) result s (pworld p) = (success, w) \<Longrightarrow> finish_block success s = (out, s') \<Longrightarrow>
    pub_task C cfg P p (p\<lparr>pworld := w, sessions := (sessions p)(i \<mapsto> (s', next_phase out))\<rparr>)"
| collect: "sessions p i = Some (s, Ending) \<Longrightarrow>
    pub_task C cfg P p (p\<lparr>sessions := (sessions p)(i \<mapsto> (s, Closing (affected_blocks i (shared (pworld p)))))\<rparr>)"
| release: "sessions p i = Some (s, Closing (n # ns)) \<Longrightarrow>
    pub_task C cfg P p (p\<lparr>pworld := release_affected i n (pworld p),
      sessions := (sessions p)(i \<mapsto> (s, Closing ns))\<rparr>)"
| close: "sessions p i = Some (s, Closing []) \<Longrightarrow>
    pub_task C cfg P p (p\<lparr>pworld := unregister_session i (pworld p), sessions := (sessions p)(i \<mapsto> (s, Closed))\<rparr>)"
| cleanup: "shared (pworld p) = sh \<Longrightarrow>
    pub_task C cfg P p (p\<lparr>pworld := (pworld p)\<lparr>shared := cleanup_winners cfg sh\<rparr>,
      cut := (case cleanup_before cfg sh of None \<Rightarrow> cut p | Some b \<Rightarrow> max b (cut p))\<rparr>)"
| stop: "pub_task C cfg P p (p\<lparr>pworld := publish_stop (pworld p)\<rparr>)"

text \<open>The rest of the node may change the cache and the queue of received blocks, and use the bus.\<close>

inductive pub_step ::
    "codec \<Rightarrow> publish_config \<Rightarrow> (session_manager \<Rightarrow> publish_request \<Rightarrow> bool) \<Rightarrow> pub_system \<Rightarrow> pub_system \<Rightarrow> bool"
  for C cfg P where
  task: "pub_task C cfg P p p' \<Longrightarrow> pub_step C cfg P p p'"
| node: "pub_step C cfg P p (p\<lparr>pworld := (pworld p)\<lparr>block_cache := bc, items_received := q, items_rx_open := b\<rparr>,
    bus := bus p @ es\<rparr>)"

inductive pub_reach ::
    "codec \<Rightarrow> publish_config \<Rightarrow> (session_manager \<Rightarrow> publish_request \<Rightarrow> bool) \<Rightarrow> pub_system \<Rightarrow> pub_system \<Rightarrow> bool"
  for C cfg P p0 where
  pub_start: "pub_reach C cfg P p0 p0"
| pub_next: "pub_reach C cfg P p0 p \<Longrightarrow> pub_step C cfg P p p' \<Longrightarrow> pub_reach C cfg P p0 p'"

definition pub_init :: "publish_config \<Rightarrow> u64 option res option \<Rightarrow> block_data_cache \<Rightarrow> pub_system option" where
  "pub_init cfg reader bc =
     map_option (\<lambda>sh. \<lparr>
       pworld = \<lparr>shared = sh, block_cache = bc, items_received = [], items_rx_open = True, responses = []\<rparr>,
       sessions = Map.empty, bus = [], cut = 0, used = {}\<rparr>)
     (publish_initialize cfg reader)"

section \<open>Invariant\<close>

text \<open>
  A session that has been accepted for a block holds its winner entry, unless the cleanup task has
  dropped it; and an entry belongs to a session that is still there and will release it.
\<close>

fun holding :: "session_manager \<Rightarrow> phase \<Rightarrow> bool" where
  "holding s Reading \<longleftrightarrow> current_block_action s = Some Accept"
| "holding s (Submitted _) \<longleftrightarrow> True"
| "holding s (Waiting _ _) \<longleftrightarrow> True"
| "holding s (Settling result) \<longleftrightarrow> result \<noteq> None"
| "holding s _ \<longleftrightarrow> False"

fun may_hold :: "u64 \<Rightarrow> phase \<Rightarrow> bool" where
  "may_hold n (Closing ns) \<longleftrightarrow> n \<in> set ns"
| "may_hold n Closed \<longleftrightarrow> False"
| "may_hold n _ \<longleftrightarrow> True"

definition owns :: "world \<Rightarrow> u64 \<Rightarrow> uuid \<Rightarrow> u64 \<Rightarrow> bool" where
  "owns w c i n \<longleftrightarrow> winner w n = Some i \<or> n < c"

definition session_ok :: "world \<Rightarrow> u64 \<Rightarrow> uuid \<Rightarrow> session_manager \<Rightarrow> phase \<Rightarrow> bool" where
  "session_ok w c i s ph \<longleftrightarrow>
     sm_id s = i \<and> (i \<in> set (active_sessions (shared w)) \<longleftrightarrow> ph \<noteq> Closed) \<and>
     (holding s ph \<longrightarrow> owns w c i (block_of s)) \<and>
     (\<forall>ns. ph = Closing ns \<longrightarrow> distinct ns \<and> (\<forall>n \<in> set ns. owns w c i n))"

definition pub_inv :: "world \<Rightarrow> (uuid \<rightharpoonup> session_manager \<times> phase) \<Rightarrow> u64 \<Rightarrow> bool" where
  "pub_inv w ss c \<longleftrightarrow>
     distinct (map fst (block_winners (shared w))) \<and>
     (\<forall>i s ph. ss i = Some (s, ph) \<longrightarrow> session_ok w c i s ph) \<and>
     (\<forall>n i. winner w n = Some i \<longrightarrow> (\<exists>s ph. ss i = Some (s, ph) \<and> may_hold n ph))"

lemma pub_invD:
  assumes "pub_inv w ss c"
  shows "distinct (map fst (block_winners (shared w)))" "ss i = Some (s, ph) \<Longrightarrow> session_ok w c i s ph"
    "winner w n = Some i \<Longrightarrow> \<exists>s ph. ss i = Some (s, ph) \<and> may_hold n ph"
  using assms unfolding pub_inv_def by blast+

lemma session_ok_mono:
  assumes "session_ok w c i s ph" and "c \<le> c'"
    and "i \<in> set (active_sessions (shared w')) \<longleftrightarrow> i \<in> set (active_sessions (shared w))"
    and "\<And>n. winner w n = Some i \<Longrightarrow> owns w' c' i n"
  shows "session_ok w' c' i s ph"
proof -
  have "owns w' c' i n" if "owns w c i n" for n
    using that assms(2,4) less_le_trans [of n c c'] unfolding owns_def by blast
  then show ?thesis using assms(1,3) unfolding session_ok_def by blast
qed

text \<open>A step of one session: the others keep what they have, and nothing is left to nobody.\<close>

lemma pub_inv_session_step:
  assumes inv: "pub_inv w ss c" and "distinct (map fst (block_winners (shared w')))"
    and act: "\<And>j. j \<noteq> i \<Longrightarrow> j \<in> set (active_sessions (shared w')) \<longleftrightarrow> j \<in> set (active_sessions (shared w))"
    and ok: "session_ok w' c i s' ph'"
    and keep: "\<And>j n. j \<noteq> i \<Longrightarrow> winner w n = Some j \<Longrightarrow> owns w' c j n"
    and old: "\<And>j n. winner w' n = Some j \<Longrightarrow> if j = i then may_hold n ph' else winner w n = Some j"
  shows "pub_inv w' (ss(i \<mapsto> (s', ph'))) c"
proof -
  have "session_ok w' c j s ph" if "(ss(i \<mapsto> (s', ph'))) j = Some (s, ph)" for j s ph
  proof (cases "j = i")
    case True
    then show ?thesis using that ok by simp
  next
    case False
    with that have "session_ok w c j s ph" using pub_invD(2) [OF inv] by simp
    then show ?thesis using act [OF False] keep [OF False] by (rule session_ok_mono [OF _ order_refl])
  qed
  moreover have "\<exists>s ph. (ss(i \<mapsto> (s', ph'))) j = Some (s, ph) \<and> may_hold n ph" if "winner w' n = Some j" for n j
    using old [OF that] pub_invD(3) [OF inv, of n j] by (auto split: if_splits)
  ultimately show ?thesis using assms(2) unfolding pub_inv_def by blast
qed

lemma pub_inv_shared: "shared w' = shared w \<Longrightarrow> pub_inv w' ss c = pub_inv w ss c"
  by (simp add: pub_inv_def session_ok_def owns_def)

lemma pub_inv_same_winners:
  assumes inv: "pub_inv w ss c" and win: "block_winners (shared w') = block_winners (shared w)"
    and "\<And>j. j \<noteq> i \<Longrightarrow> j \<in> set (active_sessions (shared w')) \<longleftrightarrow> j \<in> set (active_sessions (shared w))"
    and "session_ok w' c i s' ph'" and "\<And>n. winner w n = Some i \<Longrightarrow> may_hold n ph'"
  shows "pub_inv w' (ss(i \<mapsto> (s', ph'))) c"
  using pub_invD(1) [OF inv] assms(3-5)
  by (intro pub_inv_session_step [OF inv, of w' i s' ph']) (auto simp: win owns_def)

lemma pub_inv_release:
  assumes inv: "pub_inv w ss c" and n: "owns w c i n"
    and win: "block_winners (shared w') = AList.delete n (block_winners (shared w))"
    and act: "active_sessions (shared w') = active_sessions (shared w)"
    and "session_ok w' c i s' ph'" and "\<And>m. m \<noteq> n \<Longrightarrow> winner w m = Some i \<Longrightarrow> may_hold m ph'"
  shows "pub_inv w' (ss(i \<mapsto> (s', ph'))) c"
proof (rule pub_inv_session_step [OF inv _ _ assms(5)])
  show "distinct (map fst (block_winners (shared w')))"
    using pub_invD(1) [OF inv] by (simp add: win distinct_delete)
  show "j \<in> set (active_sessions (shared w')) \<longleftrightarrow> j \<in> set (active_sessions (shared w))" for j
    by (simp add: act)
  show "owns w' c j m" if "j \<noteq> i" "winner w m = Some j" for j m
    using that n by (auto simp: owns_def win delete_conv')
  show "if j = i then may_hold m ph' else winner w m = Some j" if "winner w' m = Some j" for j m
    using that assms(6) by (auto simp: win delete_conv' split: if_splits)
qed

lemma session_okD:
  assumes "session_ok w c i s ph"
  shows "sm_id s = i" "i \<in> set (active_sessions (shared w)) \<longleftrightarrow> ph \<noteq> Closed"
    "holding s ph \<Longrightarrow> owns w c i (block_of s)" "ph = Closing ns \<Longrightarrow> distinct ns"
    "ph = Closing ns \<Longrightarrow> n \<in> set ns \<Longrightarrow> owns w c i n"
  using assms unfolding session_ok_def by blast+

text \<open>Most phases ask for no more than the registration of the session.\<close>

lemma session_ok_idle:
  "sm_id s = i \<Longrightarrow> i \<in> set (active_sessions (shared w)) \<Longrightarrow> \<not> holding s ph \<Longrightarrow> ph \<noteq> Closed \<Longrightarrow>
   (\<And>ns. ph \<noteq> Closing ns) \<Longrightarrow> session_ok w c i s ph"
  by (simp add: session_ok_def)

lemma pub_inv_request:
  assumes inv: "pub_inv w ss c" and i: "ss i = Some (s, Reading)"
    and req: "handle_request C old key now req s w = (out, s', w')"
  shows "pub_inv w' (ss(i \<mapsto> (s', next_phase out))) c"
proof -
  note ok = pub_invD(2) [OF inv i] and cases = handle_request_cases [OF req]
  have id: "sm_id s = i" using session_okD(1) [OF ok] .
  have ph: "next_phase out \<noteq> Closed" "next_phase out \<noteq> Closing ns" "may_hold n (next_phase out)" for ns n
    by (cases out; simp)+
  have hold: "holding s' (next_phase out) \<longleftrightarrow> streaming out s'"
    by (cases out) (auto simp: streaming_def)
  have "active_sessions (shared w') = active_sessions (shared w)" using cases(3) by auto
  moreover have keep: "winner w' n = Some j" if "winner w n = Some j" for n j
    using cases(3) that by (auto simp: update_conv')
  moreover have "owns w' c i (block_of s')" if "streaming out s'"
    using cases(4) [OF that] session_okD(3) [OF ok] unfolding id owns_def by auto
  ultimately have "session_ok w' c i s' (next_phase out)"
    using session_okD(2) [OF ok] cases(1) id ph hold unfolding session_ok_def by simp
  moreover have "distinct (map fst (block_winners (shared w')))"
    using cases(3) pub_invD(1) [OF inv] by (auto simp: distinct_update)
  moreover have "if j = i then may_hold n (next_phase out) else winner w n = Some j" if "winner w' n = Some j" for j n
    using cases(3) that ph(3) id by (auto simp: update_conv' split: if_splits)
  moreover have "owns w' c j n" if "j \<noteq> i" "winner w n = Some j" for j n
    using keep [OF that(2)] by (simp add: owns_def)
  ultimately show ?thesis
    using \<open>active_sessions (shared w') = active_sessions (shared w)\<close>
    by (intro pub_inv_session_step [OF inv]) simp_all
qed

lemma winners_frame [simp]:
  "shared (broadcast is r w) = shared w" "shared (send_response s r w) = shared w"
  "shared (handle_end_error a s w) = shared w"
  "block_winners (shared (release_winner n w)) = AList.delete n (block_winners (shared w))"
  "active_sessions (shared (release_winner n w)) = active_sessions (shared w)"
  by (simp_all add: broadcast_def send_response_def handle_end_error_def release_winner_def Let_def)

lemma settle_first_shared:
  "block_winners (shared (settle_first n r s w)) =
     (if r = None then AList.delete n (block_winners (shared w)) else block_winners (shared w))"
  "active_sessions (shared (settle_first n r s w)) = active_sessions (shared w)"
  by (simp_all add: settle_first_def set_latest_persisted_block_def Let_def split: option.split sum.split)

lemma settle_second_shared:
  assumes "settle_second n r s w = (success, w')"
  shows "block_winners (shared w') =
      (if r = None then block_winners (shared w) else AList.delete n (block_winners (shared w)))"
    "active_sessions (shared w') = active_sessions (shared w)" "r = None \<Longrightarrow> \<not> success"
  using assms by (auto simp: settle_second_def split: option.splits sum.splits)

lemma finish_block_cases:
  assumes "finish_block success s = (out, s')"
  shows "sm_id s' = sm_id s" "\<not> holding s' (next_phase out)" "next_phase out \<noteq> Closed"
    "next_phase out \<noteq> Closing ns" "may_hold n (next_phase out)"
  using assms by (auto simp: finish_block_def reset_for_next_block_def split: if_splits)

lemma pub_inv_wake:
  assumes inv: "pub_inv w ss c" and i: "ss i = Some (s, Waiting key pos)"
  shows "pub_inv (settle_first (block_of s) r s w) (ss(i \<mapsto> (s, Settling r))) c"
proof -
  note ok = session_okD [OF pub_invD(2) [OF inv i]]
  let ?w = "settle_first (block_of s) r s w"
  have act: "i \<in> set (active_sessions (shared ?w))" using ok(2) by (simp add: settle_first_shared)
  show ?thesis
  proof (cases r)
    case None
    then have "session_ok ?w c i s (Settling r)" using ok(1) act by (intro session_ok_idle) simp_all
    with None show ?thesis
      using pub_inv_release [OF inv _ _ _ \<open>session_ok ?w c i s (Settling r)\<close>, of "block_of s"] ok(3)
      by (simp add: settle_first_shared)
  next
    case (Some x)
    then have "session_ok ?w c i s (Settling r)"
      using ok(1,3) act by (simp add: session_ok_def owns_def settle_first_shared)
    with Some show ?thesis
      by (intro pub_inv_same_winners [OF inv]) (simp_all add: settle_first_shared)
  qed
qed

lemma pub_inv_settle:
  assumes inv: "pub_inv w ss c" and i: "ss i = Some (s, Settling r)"
    and w': "settle_second (block_of s) r s w = (success, w')" and fin: "finish_block success s = (out, s')"
  shows "pub_inv w' (ss(i \<mapsto> (s', next_phase out))) c"
proof -
  note ok = session_okD [OF pub_invD(2) [OF inv i]] and sh = settle_second_shared [OF w'] and f = finish_block_cases [OF fin]
  have ok': "session_ok w' c i s' (next_phase out)"
    using ok(1,2) sh(2) f by (intro session_ok_idle) simp_all
  show ?thesis
  proof (cases r)
    case None
    then show ?thesis using ok' sh f(5) by (intro pub_inv_same_winners [OF inv]) simp_all
  next
    case (Some x)
    then show ?thesis using ok' sh f(5) ok(3) by (intro pub_inv_release [OF inv, of i "block_of s"]) simp_all
  qed
qed

lemma affected_blocks_winner:
  "distinct (map fst (block_winners (shared w))) \<Longrightarrow>
   n \<in> set (affected_blocks i (shared w)) \<longleftrightarrow> winner w n = Some i"
  by (force simp: affected_blocks_def map_of_eq_Some_iff)

lemma distinct_affected_blocks:
  "distinct (map fst (block_winners sh)) \<Longrightarrow> distinct (affected_blocks i sh)"
  by (auto simp: affected_blocks_def distinct_map intro: inj_on_subset)

lemma pub_inv_collect:
  assumes inv: "pub_inv w ss c" and i: "ss i = Some (s, Ending)"
  shows "pub_inv w (ss(i \<mapsto> (s, Closing (affected_blocks i (shared w))))) c"
proof -
  note ok = session_okD [OF pub_invD(2) [OF inv i]] and d = pub_invD(1) [OF inv]
  have "session_ok w c i s (Closing (affected_blocks i (shared w)))"
    using ok(1,2) distinct_affected_blocks [OF d] affected_blocks_winner [OF d]
    by (simp add: session_ok_def owns_def)
  then show ?thesis
    by (rule pub_inv_same_winners [OF inv refl refl]) (simp add: affected_blocks_winner [OF d])
qed

lemma pub_inv_release_step:
  assumes inv: "pub_inv w ss c" and i: "ss i = Some (s, Closing (n # ns))"
  shows "pub_inv (release_affected i n w) (ss(i \<mapsto> (s, Closing ns))) c"
proof -
  note ok = session_okD [OF pub_invD(2) [OF inv i]]
  let ?w = "release_affected i n w"
  have sh: "block_winners (shared ?w) = AList.delete n (block_winners (shared w))"
    "active_sessions (shared ?w) = active_sessions (shared w)"
    by (simp_all add: release_affected_def Let_def)
  have ns: "distinct ns" "n \<notin> set ns" using ok(4) by auto
  have own: "owns ?w c i m" if "m \<in> set ns" for m
  proof -
    have "m \<noteq> n" using that ns(2) by blast
    moreover have "owns w c i m" using ok(5) that by simp
    ultimately show ?thesis by (auto simp: owns_def sh delete_conv')
  qed
  show ?thesis
  proof (rule pub_inv_release [OF inv _ sh])
    show "owns w c i n" using ok(5) by simp
    show "session_ok ?w c i s (Closing ns)" using ok(1,2) sh(2) ns own by (simp add: session_ok_def)
    show "may_hold m (Closing ns)" if "m \<noteq> n" "winner w m = Some i" for m
      using pub_invD(3) [OF inv that(2)] that(1) i by auto
  qed
qed

lemma pub_inv_cleanup:
  assumes inv: "pub_inv w ss c"
  shows "pub_inv (w\<lparr>shared := cleanup_winners cfg (shared w)\<rparr>) ss
    (case cleanup_before cfg (shared w) of None \<Rightarrow> c | Some b \<Rightarrow> max b c)"
proof (cases "cleanup_before cfg (shared w)")
  case None
  then have "pub_inv (w\<lparr>shared := cleanup_winners cfg (shared w)\<rparr>) ss c = pub_inv w ss c"
    by (intro pub_inv_shared) (simp add: cleanup_winners_def)
  then show ?thesis using None inv by simp
next
  case (Some b)
  define w' where "w' = w\<lparr>shared := cleanup_winners cfg (shared w)\<rparr>"
  have bw: "block_winners (shared w') = filter (\<lambda>e. b \<le> fst e) (block_winners (shared w))"
    "active_sessions (shared w') = active_sessions (shared w)"
    using Some by (simp_all add: w'_def cleanup_winners_def)
  have win: "winner w' n = Some i \<longleftrightarrow> winner w n = Some i \<and> b \<le> n" for n i
    using pub_invD(1) [OF inv] by (auto simp: bw map_of_eq_Some_iff distinct_map_filter)
  have "owns w' (max b c) i n" if "winner w n = Some i" for i n
    using that unfolding owns_def win less_max_iff_disj by (cases "b \<le> n") (simp_all add: not_le)
  then have "session_ok w' (max b c) i s ph" if "ss i = Some (s, ph)" for i s ph
    using session_ok_mono [OF pub_invD(2) [OF inv that], of "max b c" w'] bw(2) by simp
  moreover have "distinct (map fst (block_winners (shared w')))"
    using pub_invD(1) [OF inv] by (simp add: bw distinct_map_filter)
  ultimately have "pub_inv w' ss (max b c)"
    using pub_invD(3) [OF inv] win by (simp add: pub_inv_def)
  then show ?thesis by (simp add: w'_def Some)
qed

lemma pub_inv_task:
  assumes "pub_task C cfg P p p'" and inv: "pub_inv (pworld p) (sessions p) (cut p)"
  shows "pub_inv (pworld p') (sessions p') (cut p')"
  using assms(1)
proof cases
  case (connect i s w)
  then have "session_ok w (cut p) i s Reading"
    by (auto simp: open_session_def session_new_def session_ok_def)
  with connect show ?thesis
    by (auto simp: open_session_def intro!: pub_inv_same_winners [OF inv])
next
  case (request i s key old now req out s' w)
  then show ?thesis using pub_inv_request [OF inv] by simp
next
  case (disconnect i s)
  with session_okD(1,2) [OF pub_invD(2) [OF inv disconnect(2)]] show ?thesis
    by (auto intro!: pub_inv_same_winners [OF inv] session_ok_idle)
next
  case (subscribe i s key)
  then have "session_ok (pworld p) (cut p) i s (Waiting key (length (bus p)))"
    using pub_invD(2) [OF inv subscribe(2)] by (simp add: session_ok_def)
  with subscribe show ?thesis by (auto intro!: pub_inv_same_winners [OF inv])
next
  case (wake i s key pos es result)
  then show ?thesis using pub_inv_wake [OF inv] by simp
next
  case (settle i s result success w out s')
  then show ?thesis using pub_inv_settle [OF inv] by simp
next
  case (collect i s)
  then show ?thesis using pub_inv_collect [OF inv] by simp
next
  case (release i s n ns)
  then show ?thesis using pub_inv_release_step [OF inv] by simp
next
  case (close i s)
  let ?w = "unregister_session i (pworld p)"
  have "session_ok ?w (cut p) i s Closed"
    using session_okD(1) [OF pub_invD(2) [OF inv close(2)]] by (simp add: session_ok_def unregister_session_def)
  moreover have "may_hold n Closed" if "winner (pworld p) n = Some i" for n
    using pub_invD(3) [OF inv that] close(2) by auto
  ultimately have "pub_inv ?w ((sessions p)(i \<mapsto> (s, Closed))) (cut p)"
    by (intro pub_inv_same_winners [OF inv]) (auto simp: unregister_session_def)
  then show ?thesis using close(1) by simp
next
  case (cleanup sh)
  then show ?thesis using pub_inv_cleanup [OF inv] by simp
next
  case stop
  then show ?thesis using inv pub_inv_shared [of "publish_stop (pworld p)" "pworld p"]
    by (simp add: publish_stop_def Let_def)
qed

lemma pub_inv_step:
  assumes "pub_step C cfg P p p'" and inv: "pub_inv (pworld p) (sessions p) (cut p)"
  shows "pub_inv (pworld p') (sessions p') (cut p')"
  using assms(1)
proof cases
  case task
  then show ?thesis by (rule pub_inv_task [OF _ inv])
next
  case (node bc q b es)
  then have "shared (pworld p') = shared (pworld p)" "sessions p' = sessions p" "cut p' = cut p" by simp_all
  then show ?thesis using inv pub_inv_shared by metis
qed

lemma pub_inv_init: "pub_init cfg reader bc = Some p \<Longrightarrow> pub_inv (pworld p) (sessions p) (cut p)"
  by (auto simp: pub_init_def publish_initialize_def shared_new_def set_latest_persisted_block_def pub_inv_def
      split: if_splits)

lemma pub_inv_reach:
  "pub_reach C cfg P p0 p \<Longrightarrow> pub_inv (pworld p0) (sessions p0) (cut p0) \<Longrightarrow> pub_inv (pworld p) (sessions p) (cut p)"
  by (induction rule: pub_reach.induct) (use pub_inv_step in blast)+

section \<open>Acknowledgements\<close>

definition acks :: "world \<Rightarrow> u64 set" where
  "acks w = {n. \<exists>i. (i, Acknowledgement n) \<in> set (responses w)}"

definition confirmed :: "bus_event list \<Rightarrow> u64 set" where
  "confirmed es = {n. \<exists>e. PersistedEvent e \<in> set es \<and> block_number e = n}"

lemma await_result_confirmed:
  "await_result n key es = Some (Inr e) \<Longrightarrow> n \<in> confirmed es"
  by (induction n key es rule: await_result.induct) (auto simp: confirmed_def split: if_splits)

lemma acks_settle_first:
  "acks (settle_first n r s w) \<subseteq> acks w \<union> (case r of Some (Inr _) \<Rightarrow> {n} | _ \<Rightarrow> {})"
  by (auto simp: settle_first_def acks_def broadcast_def handle_end_error_def send_response_def release_winner_def
      Let_def split: option.splits sum.splits)

lemma acks_settle_second: "settle_second n r s w = (success, w') \<Longrightarrow> acks w' = acks w"
  by (auto simp: settle_second_def acks_def broadcast_def release_winner_def split: option.splits sum.splits)

lemma acks_request: "handle_request C old key now req s w = (out, s', w') \<Longrightarrow> acks w' = acks w"
  by (drule handle_request_cases(2)) (fastforce simp: own_responses_def acks_def)

lemma acks_task:
  assumes "pub_task C cfg P p p'"
  shows "acks (pworld p') \<subseteq> acks (pworld p) \<union> confirmed (bus p)" "bus p' = bus p"
proof -
  show "bus p' = bus p" using assms by cases auto
  show "acks (pworld p') \<subseteq> acks (pworld p) \<union> confirmed (bus p)"
    using assms
  proof cases
    case (wake i s key pos es result)
    then have "(case result of Some (Inr _) \<Rightarrow> {block_of s} | _ \<Rightarrow> {}) \<subseteq> confirmed es"
      using await_result_confirmed [of "block_of s" key es] by (auto split: option.splits sum.splits)
    moreover have "confirmed es \<subseteq> confirmed (bus p)"
      using wake(3) set_drop_subset [of pos "bus p"] by (auto simp: confirmed_def)
    ultimately show ?thesis
      using acks_settle_first [of "block_of s" result s "pworld p"] wake(1) by auto
  next
    case (request i s key old now req out s' w)
    then show ?thesis using acks_request by fastforce
  next
    case (settle i s result success w out s')
    then show ?thesis using acks_settle_second by fastforce
  qed (auto simp: acks_def open_session_def release_affected_def release_winner_def broadcast_def
      unregister_session_def publish_stop_def Let_def)
qed

lemma acks_step:
  assumes "pub_step C cfg P p p'"
  shows "acks (pworld p') \<subseteq> acks (pworld p) \<union> confirmed (bus p)" "set (bus p) \<subseteq> set (bus p')"
proof -
  have "acks (pworld p') \<subseteq> acks (pworld p) \<union> confirmed (bus p) \<and> set (bus p) \<subseteq> set (bus p')"
    using assms
  proof cases
    case task
    then show ?thesis using acks_task by simp
  qed (auto simp: acks_def)
  then show "acks (pworld p') \<subseteq> acks (pworld p) \<union> confirmed (bus p)" "set (bus p) \<subseteq> set (bus p')"
    by blast+
qed

lemma acks_reach:
  "pub_reach C cfg P p0 p \<Longrightarrow> acks (pworld p0) \<subseteq> confirmed (bus p0) \<Longrightarrow> acks (pworld p) \<subseteq> confirmed (bus p)"
proof (induction rule: pub_reach.induct)
  case (pub_next p p')
  then have "acks (pworld p) \<subseteq> confirmed (bus p)" by blast
  moreover have "confirmed (bus p) \<subseteq> confirmed (bus p')"
    using acks_step(2) [OF pub_next.hyps(2)] by (auto simp: confirmed_def)
  ultimately show ?case using acks_step(1) [OF pub_next.hyps(2)] by blast
qed simp

section \<open>Properties of the publisher sessions\<close>

text \<open>
  C8: Exclusive election. In every reachable state, a session that has been accepted for a block and has
  not settled it is the recorded winner of the block, and no other session is accepted for the same
  block, unless the cleanup task has dropped winners of blocks that old.
\<close>

theorem election_exclusive:
  assumes "pub_init cfg reader bc = Some p0" and "pub_reach C cfg P p0 p"
    and "sessions p i = Some (s, ph)" and "holding s ph" and "\<not> block_of s < cut p"
  shows "winner (pworld p) (block_of s) = Some i \<and>
    (\<forall>j t ph'. sessions p j = Some (t, ph') \<and> holding t ph' \<and> block_of t = block_of s \<longrightarrow> j = i)"
proof -
  have inv: "pub_inv (pworld p) (sessions p) (cut p)"
    using pub_inv_reach [OF assms(2) pub_inv_init [OF assms(1)]] .
  have own: "winner (pworld p) (block_of s) = Some j"
    if "sessions p j = Some (t, ph')" "holding t ph'" "block_of t = block_of s" for j t ph'
    using session_okD(3) [OF pub_invD(2) [OF inv that(1)] that(2)] assms(5) that(3) by (simp add: owns_def)
  from own [OF assms(3,4) refl] show ?thesis using own by fastforce
qed

abbreviation header_request :: "u64 \<Rightarrow> publish_request" where
  "header_request n \<equiv> BlockItemsRequest \<lparr>block_items = [Some (BlockHeader n [])]\<rparr>"

definition pub_example :: pub_system where
  "pub_example = the (pub_init default_publish_config None cache_new)"

text \<open>Two sessions compete for block 5: the first is accepted, the second is told to skip.\<close>

lemma pub_example_init: "pub_init default_publish_config None cache_new = Some pub_example"
  by (simp add: pub_example_def pub_init_def publish_initialize_def default_publish_config_def)

lemma pub_example_connect:
  "\<exists>p. pub_reach C default_publish_config polite pub_example p \<and> winner (pworld p) = Map.empty \<and> cut p = 0 \<and> used p = {} \<and>
     latest_persisted_block (shared (pworld p)) = - 1 \<and>
     sessions p = [1 \<mapsto> (session_new default_publish_config 1, Reading), 2 \<mapsto> (session_new default_publish_config 2, Reading)]"
proof -
  let ?cfg = default_publish_config
  let ?w1 = "snd (open_session ?cfg 1 (pworld pub_example))"
  let ?p1 = "pub_example\<lparr>pworld := ?w1, sessions := (sessions pub_example)(1 \<mapsto> (session_new ?cfg 1, Reading))\<rparr>"
  let ?w2 = "snd (open_session ?cfg 2 ?w1)"
  let ?p2 = "?p1\<lparr>pworld := ?w2, sessions := (sessions ?p1)(2 \<mapsto> (session_new ?cfg 2, Reading))\<rparr>"
  have 0: "sessions pub_example = Map.empty"
    by (simp add: pub_example_def pub_init_def publish_initialize_def default_publish_config_def)
  have "pub_step C ?cfg polite pub_example ?p1" by (rule task, rule connect) (simp_all add: 0 open_session_def)
  moreover have "pub_step C ?cfg polite ?p1 ?p2" by (rule task, rule connect) (simp_all add: 0 open_session_def)
  ultimately have "pub_reach C ?cfg polite pub_example ?p2" by (blast intro: pub_reach.intros)
  then show ?thesis
    by (rule exI [where x = ?p2, OF conjI])
      (simp add: 0 open_session_def pub_example_def pub_init_def publish_initialize_def default_publish_config_def
        shared_new_def set_latest_persisted_block_def)
qed

lemma header_request_accepted:
  assumes "as_i64 n > latest_persisted_block (shared w)" and "winner w n = None"
    and "s = session_new default_publish_config i"
  shows "\<exists>s' w'. handle_request C (shared w) key now (header_request n) s w = (Continue, s', w') \<and>
    current_block_action s' = Some Accept \<and> current_block_number s' = as_i64 n \<and>
    item_buffer s' = [Some (BlockHeader n [])] \<and> w' = w\<lparr>shared := shared w'\<rparr> \<and>
    shared w' = (shared w)\<lparr>block_winners := AList.update n i (block_winners (shared w))\<rparr>"
  using assms
  by (simp add: pub_defs validate_block_items_def session_new_def default_publish_config_def get_latest_persisted_block_def)

lemma header_request_skipped:
  assumes "as_i64 n > latest_persisted_block (shared w)" and "winner w n = Some j" and "j \<noteq> i"
    and "s = session_new default_publish_config i"
  shows "\<exists>s' w'. handle_request C (shared w) key now (header_request n) s w = (Continue, s', w') \<and>
    w' = w\<lparr>responses := responses w @ [(i, SkipBlock n)]\<rparr>"
  using assms
  by (simp add: pub_defs validate_block_items_def session_new_def default_publish_config_def get_latest_persisted_block_def)

lemma pub_example_elected:
  "\<exists>p s. pub_reach C default_publish_config polite pub_example p \<and> sessions p 1 = Some (s, Reading) \<and>
     current_block_action s = Some Accept \<and> current_block_number s = as_i64 5 \<and> item_buffer s = [Some (BlockHeader 5 [])] \<and> cut p = 0 \<and>
     used p = {8, 7} \<and> (2, SkipBlock 5) \<in> set (responses (pworld p))"
proof -
  let ?cfg = default_publish_config
  obtain p where p: "pub_reach C ?cfg polite pub_example p" "winner (pworld p) = Map.empty" "cut p = 0" "used p = {}"
    "latest_persisted_block (shared (pworld p)) = - 1"
    "sessions p = [1 \<mapsto> (session_new ?cfg 1, Reading), 2 \<mapsto> (session_new ?cfg 2, Reading)]"
    using pub_example_connect by blast
  obtain s1 w1 where r1: "handle_request C (shared (pworld p)) 7 0 (header_request 5) (session_new ?cfg 1) (pworld p) = (Continue, s1, w1)"
    and s1: "current_block_action s1 = Some Accept" "current_block_number s1 = as_i64 5" "item_buffer s1 = [Some (BlockHeader 5 [])]"
    and w1: "shared w1 = (shared (pworld p))\<lparr>block_winners := AList.update 5 1 (block_winners (shared (pworld p)))\<rparr>"
    using header_request_accepted [of "pworld p" 5 "session_new ?cfg 1" 1 C 7 0] p(2,5) by (auto simp: as_i64_def)
  obtain s2 w2 where r2: "handle_request C (shared w1) 8 0 (header_request 5) (session_new ?cfg 2) w1 = (Continue, s2, w2)"
    and w2: "w2 = w1\<lparr>responses := responses w1 @ [(2, SkipBlock 5)]\<rparr>"
    using header_request_skipped [of w1 5 1 2 "session_new ?cfg 2" C 8 0] p(5) w1 by (auto simp: as_i64_def update_conv')
  let ?p1 = "p\<lparr>pworld := w1, sessions := (sessions p)(1 \<mapsto> (s1, next_phase Continue)), used := insert 7 (used p)\<rparr>"
  let ?p2 = "?p1\<lparr>pworld := w2, sessions := (sessions ?p1)(2 \<mapsto> (s2, next_phase Continue)), used := insert 8 (used ?p1)\<rparr>"
  have "pub_step C ?cfg polite p ?p1" by (rule task, rule request [OF _ _ _ r1]) (simp_all add: p polite_def session_new_def)
  moreover have "pub_step C ?cfg polite ?p1 ?p2"
    by (rule task, rule request [where i = 2 and req = "header_request 5" and old = "shared w1" and now = 0]) (use r2 in \<open>simp_all add: p polite_def session_new_def\<close>)
  ultimately have "pub_reach C ?cfg polite pub_example ?p2" using p(1) by (blast intro: pub_reach.intros)
  moreover have "sessions ?p2 1 = Some (s1, Reading)" by simp
  moreover have "(2, SkipBlock 5) \<in> set (responses (pworld ?p2))" by (simp add: w2)
  ultimately show ?thesis using s1 p(3,4) by (intro exI [of _ ?p2] exI [of _ s1]) simp
qed

theorem election_exclusive_witness:
  "\<exists>p s. pub_reach ref_codec default_publish_config polite pub_example p \<and> sessions p 1 = Some (s, Reading) \<and>
     (2, SkipBlock 5) \<in> set (responses (pworld p)) \<and> winner (pworld p) 5 = Some 1 \<and>
     (\<forall>j t ph'. sessions p j = Some (t, ph') \<and> holding t ph' \<and> block_of t = 5 \<longrightarrow> j = 1)"
proof -
  obtain p s where p: "pub_reach ref_codec default_publish_config polite pub_example p" "sessions p 1 = Some (s, Reading)"
    "current_block_action s = Some Accept" "current_block_number s = as_i64 5" "cut p = 0" "(2, SkipBlock 5) \<in> set (responses (pworld p))"
    using pub_example_elected [of ref_codec] by blast
  have "holding s Reading" "\<not> block_of s < cut p" using p(3,5) by simp_all
  from election_exclusive [OF pub_example_init p(1,2) this] show ?thesis using p by auto
qed

text \<open>
  C15: No orphaned blocks. In every reachable state, the winner of a block is a registered session whose
  connection has not ended, or one that is about to release the block: when a publisher disappears,
  every block it was accepted for becomes free for the others.
\<close>

theorem winners_are_connected:
  assumes "pub_init cfg reader bc = Some p0" and "pub_reach C cfg P p0 p" and "winner (pworld p) n = Some i"
  shows "i \<in> set (active_sessions (shared (pworld p))) \<and>
    (\<exists>s ph. sessions p i = Some (s, ph) \<and> ph \<noteq> Closed \<and> (\<forall>ns. ph = Closing ns \<longrightarrow> n \<in> set ns))"
proof -
  have inv: "pub_inv (pworld p) (sessions p) (cut p)"
    using pub_inv_reach [OF assms(2) pub_inv_init [OF assms(1)]] .
  obtain s ph where i: "sessions p i = Some (s, ph)" "may_hold n ph" using pub_invD(3) [OF inv assms(3)] by blast
  moreover have "i \<in> set (active_sessions (shared (pworld p))) \<longleftrightarrow> ph \<noteq> Closed"
    using session_okD(2) [OF pub_invD(2) [OF inv i(1)]] .
  ultimately show ?thesis by (cases ph) auto
qed

theorem winners_are_connected_witness:
  "\<exists>p. pub_reach ref_codec default_publish_config polite pub_example p \<and> winner (pworld p) 5 = Some 1 \<and>
     1 \<in> set (active_sessions (shared (pworld p))) \<and>
     (\<exists>s ph. sessions p 1 = Some (s, ph) \<and> ph \<noteq> Closed \<and> (\<forall>ns. ph = Closing ns \<longrightarrow> 5 \<in> set ns))"
proof -
  obtain p s where p: "pub_reach ref_codec default_publish_config polite pub_example p" "sessions p 1 = Some (s, Reading)"
    "current_block_action s = Some Accept" "current_block_number s = as_i64 5" "cut p = 0"
    using pub_example_elected [of ref_codec] by blast
  have "session_ok (pworld p) (cut p) 1 s Reading"
    using pub_invD(2) [OF pub_inv_reach [OF p(1) pub_inv_init [OF pub_example_init]] p(2)] .
  then have win: "winner (pworld p) 5 = Some 1" using p(3-5) by (simp add: session_ok_def owns_def)
  from winners_are_connected [OF pub_example_init p(1) win] show ?thesis using p(1) win by blast
qed

text \<open>
  C16: Acknowledgements are truthful. A block is acknowledged to a publisher only after the persistence
  component has announced on the message bus that the block was persisted.
\<close>

theorem ack_after_persisted:
  assumes "pub_init cfg reader bc = Some p0" and "pub_reach C cfg P p0 p"
    and "(i, Acknowledgement n) \<in> set (responses (pworld p))"
  shows "\<exists>e. PersistedEvent e \<in> set (bus p) \<and> block_number e = n"
proof -
  have "acks (pworld p0) = {}"
    using assms(1) by (auto simp: pub_init_def acks_def)
  then have "acks (pworld p) \<subseteq> confirmed (bus p)" using acks_reach [OF assms(2)] by simp
  then show ?thesis using assms(3) by (auto simp: acks_def confirmed_def)
qed

text \<open>The winner ends block 5, and persistence confirms it after the session has subscribed.\<close>

lemma pub_example_acked:
  "\<exists>p. pub_reach ref_codec default_publish_config polite pub_example p \<and> (1, Acknowledgement 5) \<in> set (responses (pworld p))"
proof -
  let ?C = ref_codec and ?cfg = default_publish_config
  obtain p s where p: "pub_reach ?C ?cfg polite pub_example p" "sessions p 1 = Some (s, Reading)"
    "current_block_action s = Some Accept" "current_block_number s = as_i64 5" "used p = {8, 7}"
    using pub_example_elected [of ref_codec] by blast
  have ok: "session_ok (pworld p) (cut p) 1 s Reading"
    using pub_invD(2) [OF pub_inv_reach [OF p(1) pub_inv_init [OF pub_example_init]] p(2)] .
  let ?p1 = "p\<lparr>pworld := (pworld p)\<lparr>block_cache := cache_new, items_received := [], items_rx_open := True\<rparr>, bus := bus p @ []\<rparr>"
  have 1: "pub_step ?C ?cfg polite p ?p1" by (rule node)
  obtain s2 w2 where r: "complete_block ?C 9 0 s (pworld ?p1) = (AwaitPersistence 9, s2, w2)"
    and s2: "current_block_number s2 = current_block_number s" "active_sessions (shared w2) = active_sessions (shared (pworld p))"
    by (auto simp: complete_block_def cache_insert_def refc.encode_ok Let_def)
  have r': "handle_request ?C (shared (pworld p)) 9 0 (EndOfBlockRequest 5) s (pworld ?p1) = (AwaitPersistence 9, s2, w2)"
    using r p(3,4) by (simp add: handle_request_def handle_block_end_def)
  let ?p2 = "?p1\<lparr>pworld := w2, sessions := (sessions ?p1)(1 \<mapsto> (s2, next_phase (AwaitPersistence 9))), used := insert 9 (used ?p1)\<rparr>"
  have 2: "pub_step ?C ?cfg polite ?p1 ?p2" by (rule task, rule request [OF _ _ _ r']) (simp_all add: p polite_def)
  let ?p3 = "?p2\<lparr>sessions := (sessions ?p2)(1 \<mapsto> (s2, Waiting 9 (length (bus ?p2))))\<rparr>"
  have 3: "pub_step ?C ?cfg polite ?p2 ?p3" by (rule task, rule subscribe) simp
  let ?e = "PersistedEvent \<lparr>block_number = 5, cache_key = 9\<rparr>"
  let ?p4 = "?p3\<lparr>pworld := (pworld ?p3)\<lparr>block_cache := cache_new, items_received := [], items_rx_open := True\<rparr>, bus := bus ?p3 @ [?e]\<rparr>"
  have 4: "pub_step ?C ?cfg polite ?p3 ?p4" by (rule node)
  let ?r = "await_result (block_of s2) 9 [?e]"
  let ?p5 = "?p4\<lparr>pworld := settle_first (block_of s2) ?r s2 (pworld ?p4), sessions := (sessions ?p4)(1 \<mapsto> (s2, Settling ?r))\<rparr>"
  have 5: "pub_step ?C ?cfg polite ?p4 ?p5" by (rule task, rule wake [where es = "[?e]" and key = 9 and pos = "length (bus p)"]) simp_all
  have "(1, Acknowledgement 5) \<in> set (responses (pworld ?p5))"
    using s2 p(4) ok by (simp add: settle_first_def broadcast_def set_latest_persisted_block_def session_ok_def Let_def)
  moreover have "pub_reach ?C ?cfg polite pub_example ?p5"
    using pub_next [OF pub_next [OF pub_next [OF pub_next [OF pub_next [OF p(1) 1] 2] 3] 4] 5] .
  ultimately show ?thesis by blast
qed

theorem ack_after_persisted_witness:
  "\<exists>p. pub_reach ref_codec default_publish_config polite pub_example p \<and> (1, Acknowledgement 5) \<in> set (responses (pworld p)) \<and>
     (\<exists>e. PersistedEvent e \<in> set (bus p) \<and> block_number e = 5)"
proof -
  obtain p where p: "pub_reach ref_codec default_publish_config polite pub_example p" "(1, Acknowledgement 5) \<in> set (responses (pworld p))"
    using pub_example_acked by blast
  from ack_after_persisted [OF pub_example_init p] p show ?thesis by blast
qed

end
