(* ===== verification/Verifier.thy ===== *)
theory Verifier
  imports Block_Cache Ref_Codec "HOL-Library.Sublist" "HOL-Library.Multiset"
begin

text \<open>
  The verifier plugin (\<^verbatim>\<open>rock-node-verifier-plugin/src/lib.rs\<close>): it fetches the contents of a received
  block from the cache, checks that they decode, and either passes the event on to persistence or
  reports the failure and drops the contents. The text of a decoding error comes from the library and
  is the parameter \<open>display\<close>.
\<close>

definition verifier_initialize :: "capability_registry \<Rightarrow> capability_registry" where
  "verifier_initialize registry = register ProvidesVerifiedBlocks registry"

definition verification_result ::
    "codec \<Rightarrow> (error \<Rightarrow> string) \<Rightarrow> block_items_received \<Rightarrow> block_data_cache \<Rightarrow> (string, unit) result" where
  "verification_result C display event bc =
     (case cache_get (cache_key event) bc of
        Some data \<Rightarrow>
          (case decode_block C (bd_contents data) of
             Inr _ \<Rightarrow> Inr ()
           | Inl e \<Rightarrow> Inl (''Block decode failed: '' @ display e))
      | None \<Rightarrow> Inl ''Block data not found in cache'')"

text \<open>What handling an event sends on: a verified event, or a failure, and the cache after it.\<close>

definition verify_event ::
    "codec \<Rightarrow> (error \<Rightarrow> string) \<Rightarrow> block_items_received \<Rightarrow> block_data_cache \<Rightarrow>
     (block_verification_failed, block_verified) result \<times> block_data_cache" where
  "verify_event C display event bc =
     (case verification_result C display event bc of
        Inr _ \<Rightarrow> (Inr \<lparr>block_number = block_number event, cache_key = cache_key event\<rparr>, bc)
      | Inl reason \<Rightarrow>
          (Inl \<lparr>failed_block_number = block_number event, failed_cache_key = cache_key event, failed_reason = reason\<rparr>,
           mark_for_removal (cache_key event) bc))"

text \<open>
  The event loop, over what wakes it: the shutdown signal, an event, or the end of the channel. The
  result collects what it sends.
\<close>

datatype verifier_wakeup = VerifierShutdown | VerifierReceived block_items_received | VerifierChannelClosed

fun verifier_loop ::
    "codec \<Rightarrow> (error \<Rightarrow> string) \<Rightarrow> verifier_wakeup list \<Rightarrow> block_data_cache \<Rightarrow>
     block_verified list \<times> block_verification_failed list \<times> block_data_cache" where
  "verifier_loop C display [] bc = ([], [], bc)"
| "verifier_loop C display (VerifierShutdown # _) bc = ([], [], bc)"
| "verifier_loop C display (VerifierChannelClosed # _) bc = ([], [], bc)"
| "verifier_loop C display (VerifierReceived event # ws) bc =
     (case verify_event C display event bc of
        (Inr v, bc1) \<Rightarrow> (let (vs, fs, bc2) = verifier_loop C display ws bc1 in (v # vs, fs, bc2))
      | (Inl f, bc1) \<Rightarrow> (let (vs, fs, bc2) = verifier_loop C display ws bc1 in (vs, f # fs, bc2)))"

section \<open>Properties\<close>

definition received :: "verifier_wakeup list \<Rightarrow> block_items_received list" where
  "received ws = concat (map (\<lambda>w. case w of VerifierReceived e \<Rightarrow> [e] | _ \<Rightarrow> []) ws)"

definition running :: "verifier_wakeup list \<Rightarrow> bool" where
  "running ws \<longleftrightarrow> VerifierShutdown \<notin> set ws \<and> VerifierChannelClosed \<notin> set ws"

lemma verify_event_cases:
  assumes "verify_event C display event bc = (r, bc')"
  obtains (verified) data b where "cache_get (cache_key event) bc = Some data" "decode_block C (bd_contents data) = Inr b"
      "r = Inr event" "bc' = bc"
  | (failed) f where "r = Inl f" "failed_block_number f = block_number event" "failed_cache_key f = cache_key event"
      "bc' = mark_for_removal (cache_key event) bc"
      "\<And>data. cache_get (cache_key event) bc = Some data \<Longrightarrow> \<not> is_ok (decode_block C (bd_contents data))"
proof (cases "verification_result C display event bc")
  case (Inl reason)
  have "\<not> is_ok (decode_block C (bd_contents data))" if "cache_get (cache_key event) bc = Some data" for data
    using Inl that by (auto simp: verification_result_def is_ok_def split: sum.splits)
  moreover have "r = Inl \<lparr>failed_block_number = block_number event, failed_cache_key = cache_key event, failed_reason = reason\<rparr>"
    "bc' = mark_for_removal (cache_key event) bc" using Inl assms by (simp_all add: verify_event_def)
  ultimately show thesis using failed by simp
next
  case (Inr u)
  then obtain data b where "cache_get (cache_key event) bc = Some data" "decode_block C (bd_contents data) = Inr b"
    by (auto simp: verification_result_def split: option.splits sum.splits)
  moreover have "r = Inr event" "bc' = bc" using Inr assms by (auto simp: verify_event_def)
  ultimately show thesis by (rule verified)
qed

lemma mark_for_removal_get:
  "cache_get k (mark_for_removal key bc) = (if k = key then None else cache_get k bc)"
  by (auto simp: mark_for_removal_def cache_get_def split: option.splits)

definition failed_event :: "block_verification_failed \<Rightarrow> block_items_received" where
  "failed_event f = \<lparr>block_number = failed_block_number f, cache_key = failed_cache_key f\<rparr>"

text \<open>
  C18: The verifier decides every block. While it runs, each received event leads to exactly one verified
  event or one failure for the same block and key; verified events keep the order in which the blocks
  were received, and every verified block is in the cache with contents that decode.
\<close>

theorem verifier_decides_each:
  assumes "running ws" and "verifier_loop C display ws bc = (vs, fs, bc')"
  shows "mset vs + image_mset failed_event (mset fs) = mset (received ws) \<and> subseq vs (received ws) \<and>
    (\<forall>v \<in> set vs. \<exists>data b. cache_get (cache_key v) bc = Some data \<and> decode_block C (bd_contents data) = Inr b)"
  using assms
proof (induction ws arbitrary: bc vs fs bc')
  case Nil
  then show ?case by (simp add: received_def)
next
  case (Cons x ws)
  then obtain e where x: "x = VerifierReceived e" by (cases x) (auto simp: running_def)
  obtain r bc1 where ev: "verify_event C display e bc = (r, bc1)" by (cases "verify_event C display e bc")
  obtain vs1 fs1 bc2 where rest: "verifier_loop C display ws bc1 = (vs1, fs1, bc2)" by (rule prod_cases3)
  have IH: "mset vs1 + image_mset failed_event (mset fs1) = mset (received ws)" "subseq vs1 (received ws)"
    "\<And>v. v \<in> set vs1 \<Longrightarrow> \<exists>data b. cache_get (cache_key v) bc1 = Some data \<and> decode_block C (bd_contents data) = Inr b"
    using Cons.IH [OF _ rest] Cons.prems(1) by (simp_all add: running_def)
  have rec: "received (x # ws) = e # received ws" by (simp add: received_def x)
  from ev show ?case
  proof (cases rule: verify_event_cases)
    case (verified data b)
    then have "vs = e # vs1" "fs = fs1" using Cons.prems(2) ev rest by (simp_all add: x)
    then show ?thesis using IH verified by (auto simp: rec)
  next
    case (failed f)
    then have out: "vs = vs1" "fs = f # fs1" using Cons.prems(2) ev rest by (simp_all add: x)
    have "failed_event f = e" using failed(2,3) by (simp add: failed_event_def)
    moreover have "\<exists>data b. cache_get (cache_key v) bc = Some data \<and> decode_block C (bd_contents data) = Inr b" if "v \<in> set vs1" for v
      using IH(3) [OF that] unfolding failed(4) mark_for_removal_get by (auto split: if_splits)
    ultimately show ?thesis using IH(1,2) by (auto simp: rec out)
  qed
qed

abbreviation verifier_example_cache :: block_data_cache where
  "verifier_example_cache \<equiv> fst (cache_insert 1 0
     \<lparr>bd_block_number = 4, bd_contents = encode_to_vec ref_codec \<lparr>items = []\<rparr>\<rparr> cache_new)"

abbreviation verifier_example_wakeups :: "verifier_wakeup list" where
  "verifier_example_wakeups \<equiv>
     [VerifierReceived \<lparr>block_number = 4, cache_key = 1\<rparr>, VerifierReceived \<lparr>block_number = 5, cache_key = 2\<rparr>]"

theorem verifier_decides_each_witness:
  "\<exists>vs fs bc'. verifier_loop ref_codec (\<lambda>_. ''error'') verifier_example_wakeups verifier_example_cache = (vs, fs, bc') \<and>
    mset vs + image_mset failed_event (mset fs) = mset (received verifier_example_wakeups) \<and>
    subseq vs (received verifier_example_wakeups) \<and>
    (\<forall>v \<in> set vs. \<exists>data b. cache_get (cache_key v) verifier_example_cache = Some data \<and>
       decode_block ref_codec (bd_contents data) = Inr b)"
proof -
  obtain vs fs bc' where run: "verifier_loop ref_codec (\<lambda>_. ''error'') verifier_example_wakeups verifier_example_cache = (vs, fs, bc')"
    by (rule prod_cases3)
  have "running verifier_example_wakeups" by (simp add: running_def)
  from verifier_decides_each [OF this run] run show ?thesis by blast
qed

end
