(* ===== verification/Disk.thy ===== *)
theory Disk
  imports Core_Types
begin

text \<open>
  The part of the standard library's file system the cold tier uses, as a state that is passed on:
  the contents of the files, the directories, and the input and output faults still to come. A
  fault makes the next operation fail without effect, so that every prefix of a sequence of
  operations is a possible outcome. Paths are pairs of a directory and a file name. The theory also
  has the standard library's decimal formatting and parsing of numbers.
\<close>

section \<open>Files\<close>

type_synonym path = "string \<times> string"

record disk =
  files :: "path \<rightharpoonup> bytes"
  dirs :: "string set"
  faults :: "bool list"

type_synonym 'a io = "disk \<Rightarrow> 'a res \<times> disk"

definition io_res :: "'a res \<Rightarrow> 'a io" where
  "io_res r d = (r, d)"

definition io_return :: "'a \<Rightarrow> 'a io" where
  "io_return x = io_res (Inr x)"

definition io_bind :: "'a io \<Rightarrow> ('a \<Rightarrow> 'b io) \<Rightarrow> 'b io" where
  "io_bind m k d = (case m d of (Inl e, d') \<Rightarrow> (Inl e, d') | (Inr x, d') \<Rightarrow> k x d')"

definition io_try :: "string \<Rightarrow> (disk \<Rightarrow> disk) \<Rightarrow> unit io" where
  "io_try what f d =
     (case faults d of
        [] \<Rightarrow> (Inr (), f d)
      | failing # rest \<Rightarrow>
          if failing then (Inl (IoError what), d\<lparr>faults := rest\<rparr>)
          else (Inr (), f (d\<lparr>faults := rest\<rparr>)))"

definition create_dir_all :: "string \<Rightarrow> unit io" where
  "create_dir_all dir = io_try ''create_dir_all'' (dirs_update (insert dir))"

text \<open>Opening a file for writing with \<^verbatim>\<open>create\<close> and \<^verbatim>\<open>truncate\<close>.\<close>

definition open_truncate :: "path \<Rightarrow> unit io" where
  "open_truncate p = io_try ''open'' (files_update (\<lambda>fs. fs(p \<mapsto> [])))"

definition append_file :: "path \<Rightarrow> bytes \<Rightarrow> unit io" where
  "append_file p bs =
     io_try ''write'' (files_update (\<lambda>fs. fs(p \<mapsto> (case fs p of None \<Rightarrow> bs | Some old \<Rightarrow> old @ bs))))"

definition sync_file :: "path \<Rightarrow> unit io" where
  "sync_file p = io_try ''sync'' id"

definition rename_file :: "path \<Rightarrow> path \<Rightarrow> unit io" where
  "rename_file p q d =
     (case files d p of
        None \<Rightarrow> (Inl (IoError ''rename''), d)
      | Some bs \<Rightarrow> io_try ''rename'' (files_update (\<lambda>fs. fs(p := None, q \<mapsto> bs))) d)"

definition file_exists :: "disk \<Rightarrow> path \<Rightarrow> bool" where
  "file_exists d p \<longleftrightarrow> files d p \<noteq> None"

definition read_file :: "path \<Rightarrow> bytes io" where
  "read_file p d =
     (case files d p of
        None \<Rightarrow> (Inl (IoError ''open''), d)
      | Some bs \<Rightarrow> io_bind (io_try ''open'' id) (\<lambda>_. io_return bs) d)"

definition read_exact_at :: "path \<Rightarrow> nat \<Rightarrow> nat \<Rightarrow> bytes io" where
  "read_exact_at p off len =
     io_bind (read_file p) (\<lambda>bs.
     if length bs < off + len then io_res (Inl (IoError ''read_exact_at''))
     else io_return (take len (drop off bs)))"

section \<open>File names\<close>

text \<open>The part of a file name from its last dot on, dot included.\<close>

definition dot_suffix :: "string \<Rightarrow> string" where
  "dot_suffix s =
     (let r = rev s; ext = takeWhile (\<lambda>c. c \<noteq> CHR ''.'') r
      in if ext = r then [] else CHR ''.'' # rev ext)"

definition extension :: "path \<Rightarrow> string option" where
  "extension p =
     (let suf = dot_suffix (snd p)
      in if suf = [] \<or> suf = snd p then None else Some (tl suf))"

definition with_extension :: "path \<Rightarrow> string \<Rightarrow> path" where
  "with_extension p ext =
     (let suf = dot_suffix (snd p);
          stem = (if suf = snd p then snd p else take (length (snd p) - length suf) (snd p))
      in (fst p, stem @ ''.'' @ ext))"

section \<open>Decimal numbers\<close>

definition digit :: "nat \<Rightarrow> char" where
  "digit d = ascii_digits ! d"

definition digit_val :: "char \<Rightarrow> nat" where
  "digit_val c = length (takeWhile (\<lambda>x. x \<noteq> c) ascii_digits)"

fun show_dec :: "nat \<Rightarrow> string" where
  "show_dec n = (if n < 10 then [digit n] else show_dec (n div 10) @ [digit (n mod 10)])"

declare show_dec.simps [simp del]

text \<open>The format \<^verbatim>\<open>{:010}\<close> and \<^verbatim>\<open>str::parse::<u64>\<close> on digits.\<close>

definition pad10 :: "u64 \<Rightarrow> string" where
  "pad10 n = (let s = show_dec (unat n) in replicate (10 - length s) CHR ''0'' @ s)"

definition dec_value :: "string \<Rightarrow> nat" where
  "dec_value s = foldl (\<lambda>a c. a * 10 + digit_val c) 0 s"

definition parse_dec :: "string \<Rightarrow> u64 option" where
  "parse_dec s =
     (if s = [] \<or> \<not> set s \<subseteq> set ascii_digits \<or> \<not> dec_value s < 2 ^ 64 then None
      else Some (of_nat (dec_value s)))"

section \<open>Facts\<close>

lemma less_10_cases: "(d::nat) < 10 \<Longrightarrow> d \<in> {0, 1, 2, 3, 4, 5, 6, 7, 8, 9}"
  by auto

lemma digit_val_digit: "d < 10 \<Longrightarrow> digit_val (digit d) = d" and digit_mem: "d < 10 \<Longrightarrow> digit d \<in> set ascii_digits"
  by (drule less_10_cases; auto simp: digit_def digit_val_def ascii_digits_def)+

lemma show_dec_digits: "set (show_dec n) \<subseteq> set ascii_digits"
  by (induction n rule: show_dec.induct) (subst show_dec.simps, auto simp: digit_mem)

lemma show_dec_nonempty [simp]: "show_dec n \<noteq> []"
  by (subst show_dec.simps) simp

lemma show_dec_value: "dec_value (show_dec n) = n"
proof (induction n rule: show_dec.induct)
  case (1 n)
  then show ?case
    by (subst show_dec.simps) (auto simp: dec_value_def digit_val_digit)
qed

lemma show_dec_length: "n < 10 ^ Suc k \<Longrightarrow> length (show_dec n) \<le> Suc k"
proof (induction k arbitrary: n)
  case 0
  then show ?case by (subst show_dec.simps) simp
next
  case (Suc k)
  have "n div 10 < 10 ^ Suc k" using Suc.prems by (simp add: less_mult_imp_div_less)
  from Suc.IH [OF this] show ?case by (subst show_dec.simps) simp
qed

lemma dec_value_zeros: "dec_value (replicate k CHR ''0'' @ s) = dec_value s"
proof -
  have "foldl (\<lambda>a c. a * 10 + digit_val c) 0 (replicate k CHR ''0'') = 0"
    by (induction k) (simp_all add: digit_val_def ascii_digits_def)
  then show ?thesis by (simp add: dec_value_def)
qed

lemma parse_dec_pad10: "parse_dec (pad10 n) = Some n"
proof -
  have "set (pad10 n) \<subseteq> set ascii_digits"
    using show_dec_digits [of "unat n"] by (auto simp: pad10_def Let_def ascii_digits_def)
  moreover have "dec_value (pad10 n) = unat n"
    by (simp add: pad10_def Let_def dec_value_zeros show_dec_value)
  moreover have "pad10 n \<noteq> []" by (simp add: pad10_def Let_def)
  ultimately show ?thesis using u64_bound [of n] by (simp add: parse_dec_def)
qed

lemma ten_digits_pad10: "unat n < 10 ^ 10 \<Longrightarrow> ten_digits (pad10 n)"
  using show_dec_digits [of "unat n"] show_dec_length [of "unat n" 9]
  by (auto simp: ten_digits_def pad10_def Let_def ascii_digits_def)

lemma io_simps [simp]:
  "io_bind (io_res (Inl e)) k d = (Inl e, d)"
  "io_bind (io_res (Inr x)) k d = k x d"
  "io_bind (io_return x) k d = k x d"
  "io_return x d = (Inr x, d)"
  "io_res r d = (r, d)"
  by (simp_all add: io_bind_def io_res_def io_return_def)

text \<open>Without faults the operations succeed.\<close>

lemma io_no_faults:
  assumes "faults d = []"
  shows "io_try what f d = (Inr (), f d)" and "io_bind (io_try what f) k d = k () (f d)"
  using assms by (simp_all add: io_try_def io_bind_def)

text \<open>What a successful sequence has done.\<close>

lemma io_bind_Inr:
  "io_bind m k d = (Inr y, d') \<longleftrightarrow> (\<exists>x d1. m d = (Inr x, d1) \<and> k x d1 = (Inr y, d'))"
  by (auto simp: io_bind_def split: prod.splits sum.splits)

lemma io_try_Inr:
  "io_try what f d = (Inr u, d') \<longleftrightarrow>
     faults d = [] \<and> d' = f d \<or> (\<exists>r. faults d = False # r \<and> d' = f (d\<lparr>faults := r\<rparr>))"
  by (auto simp: io_try_def split: list.splits)

lemma io_files:
  "create_dir_all dir d = (Inr u, d') \<Longrightarrow> files d' = files d"
  "open_truncate p d = (Inr u, d') \<Longrightarrow> files d' = (files d)(p \<mapsto> [])"
  "append_file p bs d = (Inr u, d') \<Longrightarrow> files d' = (files d)(p \<mapsto> (case files d p of None \<Rightarrow> bs | Some old \<Rightarrow> old @ bs))"
  "sync_file p d = (Inr u, d') \<Longrightarrow> files d' = files d"
  "rename_file p q d = (Inr u, d') \<Longrightarrow> \<exists>bs. files d p = Some bs \<and> files d' = (files d)(p := None, q \<mapsto> bs)"
  by (auto simp: create_dir_all_def open_truncate_def append_file_def sync_file_def rename_file_def io_try_Inr
      split: option.splits)

text \<open>Operations that leave all files but some alone, whatever fails.\<close>

definition touches_only :: "path set \<Rightarrow> 'a io \<Rightarrow> bool" where
  "touches_only ps m \<longleftrightarrow> (\<forall>d p. p \<notin> ps \<longrightarrow> files (snd (m d)) p = files d p)"

lemma touches_onlyD: "touches_only ps m \<Longrightarrow> p \<notin> ps \<Longrightarrow> files (snd (m d)) p = files d p"
  unfolding touches_only_def by blast

lemma touches_only_bind:
  assumes m: "touches_only ps m" and k: "\<And>x. touches_only ps (k x)"
  shows "touches_only ps (io_bind m k)"
  unfolding touches_only_def
proof (intro allI impI)
  fix d p
  assume p: "p \<notin> ps"
  obtain r d' where md: "m d = (r, d')" by fastforce
  have "files d' p = files d p" using m p md by (metis touches_only_def snd_conv)
  moreover have "files (snd (k x d')) p = files d' p" for x using k p unfolding touches_only_def by blast
  ultimately show "files (snd (io_bind m k d)) p = files d p"
    by (cases r) (simp_all add: io_bind_def md)
qed

lemma touches_only_basic [intro, simp]:
  "touches_only ps (io_res r)" "touches_only ps (io_return x)" "touches_only ps (create_dir_all dir)"
  "touches_only ps (sync_file p)"
  by (auto simp: touches_only_def create_dir_all_def sync_file_def io_try_def split: list.splits)

lemma touches_only_write [intro, simp]:
  "p \<in> ps \<Longrightarrow> touches_only ps (open_truncate p)"
  "p \<in> ps \<Longrightarrow> touches_only ps (append_file p bs)"
  "p \<in> ps \<Longrightarrow> q \<in> ps \<Longrightarrow> touches_only ps (rename_file p q)"
  by (auto simp: touches_only_def open_truncate_def append_file_def rename_file_def io_try_def
      split: list.splits option.splits)

text \<open>Operations that always succeed when no fault is to come.\<close>

definition fault_free :: "'a io \<Rightarrow> disk \<Rightarrow> bool" where
  "fault_free m d \<longleftrightarrow> (\<exists>x. fst (m d) = Inr x) \<and> faults (snd (m d)) = [] \<and> dirs (snd (m d)) \<supseteq> dirs d"

lemma fault_freeE:
  assumes "fault_free m d"
  obtains x d' where "m d = (Inr x, d')" "faults d' = []"
  using assms by (cases "m d") (auto simp: fault_free_def)

lemma fault_free_bind:
  "fault_free m d \<Longrightarrow> (\<And>x d'. m d = (Inr x, d') \<Longrightarrow> faults d' = [] \<Longrightarrow> fault_free (k x) d') \<Longrightarrow> fault_free (io_bind m k) d"
  unfolding fault_free_def io_bind_def
  by (cases "m d") (auto split: sum.splits)

lemma fault_free_basic [intro, simp]:
  "faults d = [] \<Longrightarrow> fault_free (io_return x) d"
  "faults d = [] \<Longrightarrow> fault_free (io_res (Inr x)) d"
  "faults d = [] \<Longrightarrow> fault_free (create_dir_all dir) d"
  "faults d = [] \<Longrightarrow> fault_free (open_truncate p) d"
  "faults d = [] \<Longrightarrow> fault_free (append_file p bs) d"
  "faults d = [] \<Longrightarrow> fault_free (sync_file p) d"
  "faults d = [] \<Longrightarrow> files d p \<noteq> None \<Longrightarrow> fault_free (rename_file p q) d"
  by (auto simp: fault_free_def create_dir_all_def open_truncate_def append_file_def sync_file_def
      rename_file_def io_no_faults)

lemma read_file_ok: "faults d = [] \<Longrightarrow> files d p = Some bs \<Longrightarrow> read_file p d = (Inr bs, d)"
  by (simp add: read_file_def io_no_faults)

lemma read_exact_at_ok:
  "faults d = [] \<Longrightarrow> files d p = Some bs \<Longrightarrow> off + len \<le> length bs \<Longrightarrow>
     read_exact_at p off len d = (Inr (take len (drop off bs)), d)"
  by (simp add: read_exact_at_def io_bind_def read_file_ok)

lemma dot_suffix_append: "CHR ''.'' \<notin> set ext \<Longrightarrow> dot_suffix (s @ ''.'' @ ext) = CHR ''.'' # ext"
proof -
  assume "CHR ''.'' \<notin> set ext"
  then have "\<And>c. c \<in> set (rev ext) \<Longrightarrow> c \<noteq> CHR ''.''" by auto
  then have "takeWhile (\<lambda>c. c \<noteq> CHR ''.'') (rev ext @ CHR ''.'' # rev s) = rev ext"
    by (subst takeWhile_append2) simp_all
  then show ?thesis by (simp add: dot_suffix_def)
qed

lemma with_extension_append:
  "s \<noteq> [] \<Longrightarrow> CHR ''.'' \<notin> set ext \<Longrightarrow> with_extension (dir, s @ ''.'' @ ext) new = (dir, s @ ''.'' @ new)"
  using dot_suffix_append [of ext s] by (simp add: with_extension_def)

lemma extension_append: "s \<noteq> [] \<Longrightarrow> CHR ''.'' \<notin> set ext \<Longrightarrow> extension (dir, s @ ''.'' @ ext) = Some ext"
  using dot_suffix_append [of ext s] by (simp add: extension_def)

end
