(* ===== verification/Gap_Map.thy ===== *)
theory Gap_Map
  imports Prelude
begin

text \<open>
  The abstract reading of the gaps column family: a finite family of closed intervals of block
  numbers, each stored under its first block. This theory says which sets of blocks such a map
  covers, when it is well formed (intervals are not empty and no two of them touch), and what
  adding a range and filling a block mean. It is the specification \<open>Persist_State\<close> refines.
\<close>

section \<open>Gap maps\<close>

type_synonym gap_map = "u64 \<rightharpoonup> u64"

definition gap_set :: "gap_map \<Rightarrow> u64 set" where
  "gap_set g = {n. \<exists>s e. g s = Some e \<and> s \<le> n \<and> n \<le> e}"

definition gaps_wf :: "gap_map \<Rightarrow> bool" where
  "gaps_wf g \<longleftrightarrow>
     (\<forall>s e. g s = Some e \<longrightarrow> s \<le> e) \<and>
     (\<forall>s e s' e'. g s = Some e \<longrightarrow> g s' = Some e' \<longrightarrow> s < s' \<longrightarrow> saturating_add e 1 < s')"

text \<open>The gap with the greatest start up to \<open>n\<close>, as a reverse iterator finds it.\<close>

definition is_pred_gap :: "gap_map \<Rightarrow> u64 \<Rightarrow> (u64 \<times> u64) option \<Rightarrow> bool" where
  "is_pred_gap g n p \<longleftrightarrow>
     (case p of
        None \<Rightarrow> (\<forall>s e. g s = Some e \<longrightarrow> n < s)
      | Some (s, e) \<Rightarrow> g s = Some e \<and> s \<le> n \<and> (\<forall>s' e'. g s' = Some e' \<longrightarrow> s' \<le> n \<longrightarrow> s' \<le> s))"

text \<open>The range a new gap grows to on its left.\<close>

definition merge_left :: "(u64 \<times> u64) option \<Rightarrow> u64 \<Rightarrow> u64 \<Rightarrow> u64 \<times> u64" where
  "merge_left p start end =
     (case p of
        None \<Rightarrow> (start, end)
      | Some (k, v) \<Rightarrow>
          if start \<le> saturating_add v 1
          then (if k < start then k else start, if end < v then v else end)
          else (start, end))"

text \<open>The gaps swallowed on the right, and the end the range grows to.\<close>

fun sweep_gaps :: "(u64 \<times> u64) list \<Rightarrow> u64 \<Rightarrow> u64 \<times> u64 list" where
  "sweep_gaps [] fe = (fe, [])"
| "sweep_gaps ((s, e) # ps) fe =
     (if saturating_add fe 1 < s then (fe, [])
      else let (fe', ds) = sweep_gaps ps (if fe < e then e else fe) in (fe', s # ds))"

definition split_gap :: "gap_map \<Rightarrow> u64 \<times> u64 \<Rightarrow> u64 \<Rightarrow> gap_map" where
  "split_gap g p n =
     (let (s, e) = p;
          g1 = g(s := None);
          g2 = (if s < n then g1(s \<mapsto> n - 1) else g1)
      in if n < e then g2(n + 1 \<mapsto> e) else g2)"

section \<open>Finding a gap\<close>

lemma gap_setI: "g s = Some e \<Longrightarrow> s \<le> n \<Longrightarrow> n \<le> e \<Longrightarrow> n \<in> gap_set g"
  by (auto simp: gap_set_def)

lemma gap_setE:
  assumes "n \<in> gap_set g"
  obtains s e where "g s = Some e" "s \<le> n" "n \<le> e"
  using assms by (auto simp: gap_set_def)

lemma gaps_wf_le: "gaps_wf g \<Longrightarrow> g s = Some e \<Longrightarrow> s \<le> e"
  by (auto simp: gaps_wf_def)

lemma gaps_wf_sep: "gaps_wf g \<Longrightarrow> g s = Some e \<Longrightarrow> g s' = Some e' \<Longrightarrow> s < s' \<Longrightarrow> saturating_add e 1 < s'"
  by (auto simp: gaps_wf_def)

lemma le_saturating_succ: "a \<le> saturating_add a 1"
  by (simp add: saturating_add_1 less_imp_le u64_less_Suc_le)

lemma saturating_succ_mono: "saturating_add e 1 < a \<Longrightarrow> b \<le> e \<Longrightarrow> saturating_add b 1 < a"
  by (rule le_less_trans [of _ "saturating_add e 1"])
    (auto simp: saturating_add_1 word_le_nat_alt u64_succ_unat)

lemma gaps_wf_less: "gaps_wf g \<Longrightarrow> g s = Some e \<Longrightarrow> g s' = Some e' \<Longrightarrow> s < s' \<Longrightarrow> e < s'"
  using gaps_wf_sep [of g s e s' e'] le_saturating_succ [of e] by auto

lemma gaps_wf_unique:
  assumes wf: "gaps_wf g" and "g s = Some e" "s \<le> n" "n \<le> e" "g s' = Some e'" "s' \<le> n" "n \<le> e'"
  shows "s' = s \<and> e' = e"
proof -
  have "\<not> s < s'" using gaps_wf_less [OF wf assms(2,5)] assms by auto
  moreover have "\<not> s' < s" using gaps_wf_less [OF wf assms(5,2)] assms by auto
  ultimately show ?thesis using assms by force
qed

text \<open>Testing the predecessor gap alone decides membership.\<close>

lemma pred_gap_decides:
  assumes wf: "gaps_wf g" and p: "is_pred_gap g n p"
  shows "n \<in> gap_set g \<longleftrightarrow> (\<exists>s e. p = Some (s, e) \<and> n \<le> e)"
proof
  assume "n \<in> gap_set g"
  then obtain s e where g: "g s = Some e" "s \<le> n" "n \<le> e" by (rule gap_setE)
  with p obtain s' e' where p': "p = Some (s', e')" "g s' = Some e'" "s' \<le> n" "s \<le> s'"
    by (fastforce simp: is_pred_gap_def split: option.splits)
  have "s' = s" using gaps_wf_less [OF wf g(1) p'(2)] g p' by fastforce
  with g p' show "\<exists>s e. p = Some (s, e) \<and> n \<le> e" by auto
next
  assume "\<exists>s e. p = Some (s, e) \<and> n \<le> e"
  with p show "n \<in> gap_set g" by (auto simp: is_pred_gap_def intro: gap_setI)
qed

section \<open>Adding a range\<close>

lemma interval_join:
  assumes "fs \<le> fe" and "fs \<le> s" and "s \<le> e" and "\<not> saturating_add fe 1 < s"
  shows "{fs..(if fe < e then e else fe)} = {fs..fe} \<union> {s..e}"
proof -
  have "x \<le> fe \<or> s \<le> x" for x :: u64
  proof (rule ccontr)
    assume x: "\<not> (x \<le> fe \<or> s \<le> x)"
    then have "fe \<noteq> u64_MAX" by (auto dest: u64_less_imp_not_max simp: not_le)
    moreover from this x have "fe + 1 \<le> x" by (simp add: word_order not_le)
    moreover have "x < s" using x by (simp add: not_le)
    ultimately show False using assms(4) by (simp add: saturating_succ_le le_less_trans)
  qed
  then have "x \<le> fe \<or> x \<le> e \<and> s \<le> x \<or> \<not> x \<le> (if fe < e then e else fe)" for x
    by auto
  moreover have "s \<le> x \<Longrightarrow> fs \<le> x" for x using assms(2) by (rule order_trans)
  moreover have "x \<le> e \<or> x \<le> fe \<Longrightarrow> x \<le> (if fe < e then e else fe)" for x by auto
  ultimately show ?thesis by (auto simp only: set_eq_iff atLeastAtMost_iff Un_iff)
qed

definition swept_union :: "(u64 \<times> u64) list \<Rightarrow> u64 list \<Rightarrow> u64 set" where
  "swept_union ps ds = (\<Union>(s, e) \<in> {q \<in> set ps. fst q \<in> set ds}. {s..e})"

lemma swept_union_Cons:
  assumes "\<forall>q \<in> set ps. fst q \<noteq> s"
  shows "swept_union ((s, e) # ps) (s # ds) = {s..e} \<union> swept_union ps ds"
proof -
  have "{q \<in> set ((s, e) # ps). fst q \<in> set (s # ds)} = insert (s, e) {q \<in> set ps. fst q \<in> set ds}"
    using assms by auto
  then show ?thesis by (simp add: swept_union_def)
qed

lemma sweep_gaps_spec:
  assumes "sorted_wrt (\<lambda>p q. fst p < fst q) ps" and "\<forall>q \<in> set ps. fst q \<le> snd q \<and> fs \<le> fst q"
    and "fs \<le> fe" and "sweep_gaps ps fe = (fe', ds)"
  shows "fe \<le> fe' \<and> {fs..fe'} = {fs..fe} \<union> swept_union ps ds
    \<and> set ds \<subseteq> fst ` set ps \<and> (\<forall>q \<in> set ps. fst q \<in> set ds \<or> saturating_add fe' 1 < fst q)"
  using assms
proof (induction ps arbitrary: fe ds)
  case Nil
  then show ?case by (simp add: swept_union_def)
next
  case (Cons p ps)
  obtain s e where p: "p = (s, e)" by (cases p)
  have above: "\<forall>q \<in> set ps. s < fst q" using Cons.prems(1) p by simp
  show ?case
  proof (cases "saturating_add fe 1 < s")
    case True
    then have "ds = []" "fe' = fe" using Cons.prems(4) p by auto
    then show ?thesis using above True p by (auto simp: swept_union_def intro: less_trans)
  next
    case False
    let ?fe = "if fe < e then e else fe"
    from False Cons.prems(4) p obtain ds' where ds: "ds = s # ds'" and sw: "sweep_gaps ps ?fe = (fe', ds')"
      by (simp split: prod.splits)
    have se: "s \<le> e" "fs \<le> s" using Cons.prems(2) p by simp_all
    have fe: "fs \<le> ?fe" "fe \<le> ?fe" using Cons.prems(3) by auto
    have IH: "?fe \<le> fe' \<and> {fs..fe'} = {fs..?fe} \<union> swept_union ps ds'
        \<and> set ds' \<subseteq> fst ` set ps \<and> (\<forall>q \<in> set ps. fst q \<in> set ds' \<or> saturating_add fe' 1 < fst q)"
      by (rule Cons.IH [OF _ _ fe(1) sw]) (use Cons.prems(1,2) in simp_all)
    have un: "swept_union (p # ps) ds = {s..e} \<union> swept_union ps ds'"
      using above by (simp add: p ds swept_union_Cons less_imp_neq [symmetric])
    have "{fs..?fe} = {fs..fe} \<union> {s..e}"
      by (rule interval_join [OF Cons.prems(3) se(2,1) False])
    with IH un have "{fs..fe'} = {fs..fe} \<union> swept_union (p # ps) ds" by (simp only: Un_assoc)
    moreover have "fe \<le> fe'" using IH fe(2) order_trans by blast
    ultimately show ?thesis using IH by (auto simp: p ds)
  qed
qed

lemma gap_set_upd: "gap_set (g(s \<mapsto> e)) = gap_set (g(s := None)) \<union> {s..e}"
  by (fastforce simp: gap_set_def split: if_splits)

lemma gap_set_upd_free: "g s = None \<Longrightarrow> gap_set (g(s \<mapsto> e)) = gap_set g \<union> {s..e}"
  by (simp only: gap_set_upd fun_upd_idem)

lemma gap_set_restrict: "gap_set (g |` A) = {n. \<exists>s e. s \<in> A \<and> g s = Some e \<and> s \<le> n \<and> n \<le> e}"
  by (auto simp: gap_set_def restrict_map_def split: if_splits)

lemma gap_set_restrict_Un: "gap_set g = gap_set (g |` A) \<union> gap_set (g |` (- A))"
  by (auto simp: gap_set_restrict gap_set_def [of g])

text \<open>
  One run of the insertion: the range grows left over the predecessor gap, then swallows the gaps
  \<open>ds\<close> of the ascending list \<open>ps\<close> on its right, and ends as the interval from \<open>fs\<close> to \<open>fe'\<close>.
\<close>

definition add_run ::
    "gap_map \<Rightarrow> u64 \<Rightarrow> u64 \<Rightarrow> (u64 \<times> u64) option \<Rightarrow> u64 \<Rightarrow> u64 \<Rightarrow> (u64 \<times> u64) list \<Rightarrow> u64 \<Rightarrow> u64 list \<Rightarrow> bool" where
  "add_run g start end p fs fe ps fe' ds \<longleftrightarrow>
     gaps_wf g \<and> start \<le> end \<and> is_pred_gap g start p \<and> merge_left p start end = (fs, fe) \<and>
     sorted_wrt (\<lambda>p q. fst p < fst q) ps \<and> set ps = {q. g (fst q) = Some (snd q) \<and> fs \<le> fst q} \<and>
     sweep_gaps ps fe = (fe', ds)"

lemma left_cases:
  assumes run: "add_run g start end p fs fe ps fe' ds"
  obtains (fresh) "fs = start" "fe = end" "\<And>s e. g s = Some e \<Longrightarrow> s \<le> start \<Longrightarrow> saturating_add e 1 < start"
  | (merged) v where "g fs = Some v" "fs \<le> start" "start \<le> saturating_add v 1"
      "fe = (if end < v then v else end)"
proof (cases p)
  case None
  with run have "\<And>s e. g s = Some e \<Longrightarrow> start < s" "fs = start" "fe = end"
    by (auto simp: add_run_def is_pred_gap_def merge_left_def)
  then show ?thesis by (intro fresh) (auto simp: not_less [symmetric])
next
  case (Some kv)
  obtain k v where kv: "kv = (k, v)" by (cases kv)
  have k: "g k = Some v" "k \<le> start" and max: "\<And>s e. g s = Some e \<Longrightarrow> s \<le> start \<Longrightarrow> s \<le> k"
    using run Some kv by (auto simp: add_run_def is_pred_gap_def)
  have left: "merge_left p start end = (fs, fe)" and wf: "gaps_wf g" using run by (auto simp: add_run_def)
  show ?thesis
  proof (cases "start \<le> saturating_add v 1")
    case True
    have "fs = k" using left k(2) by (cases "k = start") (auto simp: merge_left_def Some kv True)
    moreover have "fe = (if end < v then v else end)"
      using left by (simp add: merge_left_def Some kv True)
    ultimately show ?thesis using k True by (intro merged [of v]) simp_all
  next
    case False
    have "saturating_add e 1 < start" if s: "g s = Some e" "s \<le> start" for s e
    proof (cases "s = k")
      case True
      with s k False show ?thesis by simp
    next
      case ne: False
      then have "s < k" using max [OF s] by simp
      then show ?thesis using gaps_wf_sep [OF wf s(1) k(1)] k(2) by (simp add: less_le_trans)
    qed
    then show ?thesis
      using left by (intro fresh) (simp_all add: merge_left_def Some kv False)
  qed
qed

lemma add_run_left:
  assumes run: "add_run g start end p fs fe ps fe' ds"
  shows "fs \<le> start" "fs \<le> fe" "end \<le> fe" "g s = Some e \<Longrightarrow> s < fs \<Longrightarrow> saturating_add e 1 < fs"
    and "{fs..fe} \<union> gap_set g = {start..end} \<union> gap_set g"
proof -
  have le: "start \<le> end" and wf: "gaps_wf g" using run by (auto simp: add_run_def)
  show start: "fs \<le> start" by (rule left_cases [OF run]) auto
  show "end \<le> fe" by (rule left_cases [OF run]) auto
  with start le show "fs \<le> fe" by (meson order_trans)
  show "saturating_add e 1 < fs" if "g s = Some e" "s < fs"
    by (rule left_cases [OF run]) (use that in \<open>auto intro: gaps_wf_sep [OF wf]\<close>)
  show "{fs..fe} \<union> gap_set g = {start..end} \<union> gap_set g"
  proof (rule left_cases [OF run])
    fix v
    assume m: "g fs = Some v" "fs \<le> start" "start \<le> saturating_add v 1" "fe = (if end < v then v else end)"
    have "{fs..(if v < end then end else v)} = {fs..v} \<union> {start..end}"
      by (rule interval_join) (use m le gaps_wf_le [OF wf m(1)] in \<open>simp_all add: not_less\<close>)
    moreover have "{fs..v} \<subseteq> gap_set g" using m(1) by (auto intro: gap_setI)
    moreover have "fe = (if v < end then end else v)" using m(4) by auto
    ultimately show ?thesis by auto
  qed auto
qed

lemma add_run_right:
  assumes run: "add_run g start end p fs fe ps fe' ds"
  shows "fe \<le> fe'" "{fs..fe'} = {fs..fe} \<union> gap_set (g |` set ds)"
    and "g s = Some e \<Longrightarrow> fs \<le> s \<Longrightarrow> s \<notin> set ds \<Longrightarrow> saturating_add fe' 1 < s"
proof -
  have ps: "set ps = {q. g (fst q) = Some (snd q) \<and> fs \<le> fst q}" and wf: "gaps_wf g"
    and sorted: "sorted_wrt (\<lambda>p q. fst p < fst q) ps" and sw: "sweep_gaps ps fe = (fe', ds)"
    using run by (auto simp: add_run_def)
  have ps_ok: "\<forall>q \<in> set ps. fst q \<le> snd q \<and> fs \<le> fst q" using ps gaps_wf_le [OF wf] by auto
  note facts = sweep_gaps_spec [OF sorted ps_ok add_run_left(2) [OF run] sw]
  show "fe \<le> fe'" using facts by blast
  show "saturating_add fe' 1 < s" if "g s = Some e" "fs \<le> s" "s \<notin> set ds"
    using facts that ps by fastforce
  have "fs \<le> s \<and> (\<exists>e. g s = Some e)" if "s \<in> set ds" for s using facts that ps by auto
  then have "{q \<in> set ps. fst q \<in> set ds} = {(s, e). s \<in> set ds \<and> g s = Some e}"
    using ps by auto
  then have "swept_union ps ds = gap_set (g |` set ds)"
    by (auto simp: swept_union_def gap_set_restrict)
  then show "{fs..fe'} = {fs..fe} \<union> gap_set (g |` set ds)" using facts by simp
qed

text \<open>The new map covers exactly the old blocks and the new range, and is again well formed.\<close>

lemma add_run_set:
  assumes run: "add_run g start end p fs fe ps fe' ds"
  shows "gap_set ((g |` (- set ds))(fs \<mapsto> fe')) = gap_set g \<union> {start..end}"
proof -
  have "(g |` (- set ds)) fs = None"
  proof (rule ccontr)
    assume "(g |` (- set ds)) fs \<noteq> None"
    then obtain e where "g fs = Some e" "fs \<notin> set ds"
      by (auto simp: restrict_map_def split: if_splits)
    then have "saturating_add fe' 1 < fs" by (intro add_run_right(3) [OF run]) auto
    moreover have "fs \<le> saturating_add fe' 1"
      using add_run_left(2) [OF run] add_run_right(1) [OF run] le_saturating_succ [of fe']
      by (meson order_trans)
    ultimately show False by simp
  qed
  then have "gap_set ((g |` (- set ds))(fs \<mapsto> fe')) = gap_set (g |` (- set ds)) \<union> {fs..fe'}"
    by (rule gap_set_upd_free)
  also have "\<dots> = gap_set g \<union> {fs..fe}"
    using add_run_right(2) [OF run] gap_set_restrict_Un [of g "set ds"] by auto
  finally show ?thesis using add_run_left(5) [OF run] by auto
qed

lemma add_run_wf:
  assumes run: "add_run g start end p fs fe ps fe' ds"
  shows "gaps_wf ((g |` (- set ds))(fs \<mapsto> fe'))"
proof -
  have wf: "gaps_wf g" using run by (simp add: add_run_def)
  have "fs \<le> fe'" using add_run_left(2) [OF run] add_run_right(1) [OF run] by (rule order_trans)
  moreover have "saturating_add e 1 < s'"
    if "((g |` (- set ds))(fs \<mapsto> fe')) s = Some e" "((g |` (- set ds))(fs \<mapsto> fe')) s' = Some e'" "s < s'"
    for s e s' e'
  proof (cases "s = fs"; cases "s' = fs")
    assume "s = fs" "s' \<noteq> fs"
    with that add_run_right(3) [OF run, of s' e'] show ?thesis
      by (auto simp: restrict_map_def split: if_splits)
  next
    assume "s \<noteq> fs" "s' = fs"
    with that add_run_left(4) [OF run, of s e] show ?thesis
      by (auto simp: restrict_map_def split: if_splits)
  next
    assume "s \<noteq> fs" "s' \<noteq> fs"
    with that gaps_wf_sep [OF wf, of s e s' e'] show ?thesis
      by (auto simp: restrict_map_def split: if_splits)
  next
    assume "s = fs" "s' = fs"
    with that(3) show ?thesis by simp
  qed
  ultimately show ?thesis
    using gaps_wf_le [OF wf] unfolding gaps_wf_def by (auto simp: restrict_map_def split: if_splits)
qed

section \<open>Filling a block\<close>

lemma interval_minus:
  fixes s e n :: u64
  assumes "s \<le> n" "n \<le> e"
  shows "{s..e} - {n} = (if s < n then {s..n - 1} else {}) \<union> (if n < e then {n + 1..e} else {})"
proof -
  have below: "{s..n - 1} = {s..<n}" if "s < n"
  proof -
    have "n \<noteq> 0" using that by auto
    then show ?thesis by (auto simp: u64_le_pred)
  qed
  have above: "{n + 1..e} = {n<..e}" if "n < e"
    by (simp add: set_eq_iff u64_Suc_le [OF u64_less_imp_not_max [OF that]])
  have "{s..e} - {n} = {s..<n} \<union> {n<..e}" using assms by auto
  then show ?thesis
    using assms by (cases "s < n"; cases "n < e") (simp_all only: below above if_True if_False, simp_all)
qed

lemma split_gap_fresh:
  assumes wf: "gaps_wf g" and g: "g s = Some e" and n: "s \<le> n" "n < e"
  shows "g (n + 1) = None" "s \<noteq> n + 1"
proof -
  have succ: "n + 1 \<le> e" "n < n + 1"
    using u64_less_imp_not_max [OF n(2)] n(2) by (simp_all add: u64_Suc_le u64_less_Suc_le)
  show "s \<noteq> n + 1" using succ(2) n(1) by (auto simp: not_less [symmetric])
  show "g (n + 1) = None"
  proof (cases "g (n + 1)")
    case (Some e')
    have "s < n + 1" using n(1) succ(2) by (rule le_less_trans)
    with gaps_wf_less [OF wf g Some] succ(1) show ?thesis by simp
  qed
qed

lemma split_gap_set:
  assumes wf: "gaps_wf g" and g: "g s = Some e" and n: "s \<le> n" "n \<le> e"
  shows "gap_set (split_gap g (s, e) n) = gap_set g - {n}"
proof -
  let ?r = "gap_set (g(s := None))"
  have other: "n \<notin> ?r"
    using gaps_wf_unique [OF wf g n] by (auto simp: gap_set_def split: if_splits)
  have "gap_set (split_gap g (s, e) n) =
      ?r \<union> ((if s < n then {s..n - 1} else {}) \<union> (if n < e then {n + 1..e} else {}))"
    using split_gap_fresh [OF wf g n(1)]
    by (cases "s < n"; cases "n < e") (simp_all add: split_gap_def gap_set_upd_free gap_set_upd [of g s "n - 1"] Un_assoc)
  also have "\<dots> = ?r \<union> ({s..e} - {n})" by (simp only: interval_minus [OF n])
  also have "\<dots> = gap_set (g(s \<mapsto> e)) - {n}" using other by (auto simp: gap_set_upd)
  finally show ?thesis using g by (simp add: fun_upd_idem)
qed

lemma split_gap_wf:
  assumes wf: "gaps_wf g" and g: "g s = Some e" and n: "s \<le> n" "n \<le> e"
  shows "gaps_wf (split_gap g (s, e) n)"
proof -
  let ?g = "split_gap g (s, e) n"
  define inside where "inside a b \<longleftrightarrow>
    (a = s \<and> s < n \<and> b = n - 1) \<or> (a = n + 1 \<and> n < e \<and> b = e)" for a b
  have lookup: "?g a = Some b \<Longrightarrow> inside a b \<or> a \<noteq> s \<and> g a = Some b" for a b
    using split_gap_fresh [OF wf g n(1)]
    by (auto simp: split_gap_def inside_def Let_def split: if_splits)
  have inside: "s \<le> a \<and> a \<le> b \<and> b \<le> e" if i: "inside a b" for a b
  proof (cases "a = s \<and> s < n \<and> b = n - 1")
    case True
    then have "n \<noteq> 0" by auto
    then have "b < n" "s \<le> b" using True by (simp_all add: u64_pred_less u64_le_pred)
    with True n(2) show ?thesis by auto
  next
    case False
    then have ne: "a = n + 1" "n < e" "b = e" using i by (auto simp: inside_def)
    then have "n < a" "a \<le> e"
      using u64_less_imp_not_max [of n e] by (simp_all add: u64_Suc_le u64_less_Suc_le)
    with ne n(1) show ?thesis by auto
  qed
  have sep: "saturating_add b 1 < a'" if "inside a b" "inside a' b'" "a < a'" for a b a' b'
  proof -
    have i: "s < n" "b = n - 1" "a' = n + 1" "n < e"
      using that n(1) u64_less_imp_not_max [of n e] u64_less_Suc_le [of n s]
      unfolding inside_def by auto
    then have "n \<noteq> 0" "n \<noteq> u64_MAX" by (auto dest: u64_less_imp_not_max)
    then show ?thesis by (simp add: i saturating_add_1 u64_less_Suc_le)
  qed
  have "saturating_add b 1 < a'"
    if a: "?g a = Some b" and a': "?g a' = Some b'" and less: "a < a'" for a b a' b'
  proof (cases "inside a b"; cases "inside a' b'")
    assume i: "inside a b" and o: "\<not> inside a' b'"
    then have ga: "g a' = Some b'" "a' \<noteq> s" using lookup [OF a'] by auto
    have "s < a'" using inside [OF i] less by auto
    then have "saturating_add e 1 < a'" by (rule gaps_wf_sep [OF wf g ga(1)])
    then show ?thesis using inside [OF i] by (auto intro: saturating_succ_mono)
  next
    assume o: "\<not> inside a b" and i: "inside a' b'"
    then have ga: "g a = Some b" "a \<noteq> s" using lookup [OF a] by auto
    have "\<not> s < a"
    proof
      assume "s < a"
      with gaps_wf_less [OF wf g ga(1)] inside [OF i] less show False by auto
    qed
    then have "saturating_add b 1 < s" using gaps_wf_sep [OF wf ga(1) g] ga(2) by auto
    with inside [OF i] show ?thesis by auto
  next
    assume "\<not> inside a b" "\<not> inside a' b'"
    then show ?thesis using lookup [OF a] lookup [OF a'] gaps_wf_sep [OF wf _ _ less] by blast
  next
    assume "inside a b" "inside a' b'"
    then show ?thesis using less by (rule sep)
  qed
  moreover have "a \<le> b" if "?g a = Some b" for a b
    using lookup [OF that] inside [of a b] gaps_wf_le [OF wf] by blast
  ultimately show ?thesis unfolding gaps_wf_def by blast
qed

end
