(* ===== verification/Persist_State.thy ===== *)
theory Persist_State
  imports Core_Types Gap_Map
begin

text \<open>
  The persistence plugin's \<^verbatim>\<open>StateManager\<close> (\<^verbatim>\<open>persistence-plugin/src/state.rs\<close>): the watermarks in
  the metadata column family, the gap ranges, and the skipped archive batches. The definitions work
  on the bytes the store holds, through the store interface of \<open>Store\<close>. The second half gives the
  typed reading of these bytes, the gap map, states what each operation does to it, and proves
  that the byte-level code does exactly that.
\<close>

section \<open>Watermarks\<close>

definition ascii :: "string \<Rightarrow> bytes" where
  "ascii s = map of_char s"

definition LATEST_PERSISTED_KEY :: bytes where
  "LATEST_PERSISTED_KEY = ascii ''latest_persisted''"

definition EARLIEST_HOT_KEY :: bytes where
  "EARLIEST_HOT_KEY = ascii ''earliest_hot''"

definition HIGHEST_CONTIGUOUS_KEY :: bytes where
  "HIGHEST_CONTIGUOUS_KEY = ascii ''highest_contiguous''"

definition TRUE_EARLIEST_PERSISTED_KEY :: bytes where
  "TRUE_EARLIEST_PERSISTED_KEY = ascii ''true_earliest_persisted''"

text \<open>Every operation first asks for the column family handle and fails without it.\<close>

definition require_cf :: "'db rocksdb \<Rightarrow> 'db \<Rightarrow> cf_name \<Rightarrow> unit res" where
  "require_cf R db c = (if cf_handle R db c then Inr () else Inl (NoColumnFamily c))"

definition parse_u64 :: "bytes \<Rightarrow> u64 res" where
  "parse_u64 bs = (case u64_from_be bs of None \<Rightarrow> Inl InvalidByteLength | Some n \<Rightarrow> Inr n)"

definition get_u64_opt :: "'db rocksdb \<Rightarrow> 'db \<Rightarrow> bytes \<Rightarrow> u64 option res" where
  "get_u64_opt R db key =
     and_then (require_cf R db CF_METADATA) (\<lambda>_.
     and_then (get_cf R db CF_METADATA key) (\<lambda>v.
     case v of
       None \<Rightarrow> Inr None
     | Some bs \<Rightarrow> and_then (parse_u64 bs) (\<lambda>n. Inr (Some n))))"

definition set_u64 :: "'db rocksdb \<Rightarrow> 'db \<Rightarrow> bytes \<Rightarrow> u64 \<Rightarrow> write_batch \<Rightarrow> write_batch res" where
  "set_u64 R db key n batch =
     and_then (require_cf R db CF_METADATA) (\<lambda>_.
     Inr (batch @ [PutCf CF_METADATA key (u64_to_be n)]))"

definition put_u64_direct :: "'db rocksdb \<Rightarrow> 'db \<Rightarrow> bytes \<Rightarrow> u64 \<Rightarrow> 'db res" where
  "put_u64_direct R db key n =
     and_then (require_cf R db CF_METADATA) (\<lambda>_. put_cf R db CF_METADATA key (u64_to_be n))"

definition get_latest_persisted :: "'db rocksdb \<Rightarrow> 'db \<Rightarrow> u64 option res" where
  "get_latest_persisted R db = get_u64_opt R db LATEST_PERSISTED_KEY"

definition get_earliest_hot :: "'db rocksdb \<Rightarrow> 'db \<Rightarrow> u64 option res" where
  "get_earliest_hot R db = get_u64_opt R db EARLIEST_HOT_KEY"

definition get_highest_contiguous :: "'db rocksdb \<Rightarrow> 'db \<Rightarrow> u64 res" where
  "get_highest_contiguous R db =
     and_then (get_u64_opt R db HIGHEST_CONTIGUOUS_KEY) (\<lambda>v.
     Inr (case v of None \<Rightarrow> 0 | Some n \<Rightarrow> n))"

definition get_true_earliest_persisted :: "'db rocksdb \<Rightarrow> 'db \<Rightarrow> u64 option res" where
  "get_true_earliest_persisted R db = get_u64_opt R db TRUE_EARLIEST_PERSISTED_KEY"

definition update_true_earliest_if_less :: "'db rocksdb \<Rightarrow> 'db \<Rightarrow> u64 \<Rightarrow> 'db res" where
  "update_true_earliest_if_less R db new_earliest =
     and_then (get_true_earliest_persisted R db) (\<lambda>cur.
     case cur of
       Some current_earliest \<Rightarrow>
         if new_earliest < current_earliest
         then put_u64_direct R db TRUE_EARLIEST_PERSISTED_KEY new_earliest
         else Inr db
     | None \<Rightarrow> put_u64_direct R db TRUE_EARLIEST_PERSISTED_KEY new_earliest)"

definition set_latest_persisted :: "'db rocksdb \<Rightarrow> 'db \<Rightarrow> u64 \<Rightarrow> write_batch \<Rightarrow> write_batch res" where
  "set_latest_persisted R db n batch = set_u64 R db LATEST_PERSISTED_KEY n batch"

definition set_earliest_hot :: "'db rocksdb \<Rightarrow> 'db \<Rightarrow> u64 \<Rightarrow> write_batch \<Rightarrow> write_batch res" where
  "set_earliest_hot R db n batch = set_u64 R db EARLIEST_HOT_KEY n batch"

definition set_highest_contiguous :: "'db rocksdb \<Rightarrow> 'db \<Rightarrow> u64 \<Rightarrow> write_batch \<Rightarrow> write_batch res" where
  "set_highest_contiguous R db n batch = set_u64 R db HIGHEST_CONTIGUOUS_KEY n batch"

definition set_true_earliest_persisted :: "'db rocksdb \<Rightarrow> 'db \<Rightarrow> u64 \<Rightarrow> write_batch \<Rightarrow> write_batch res" where
  "set_true_earliest_persisted R db n batch = set_u64 R db TRUE_EARLIEST_PERSISTED_KEY n batch"

definition initialize_true_earliest_persisted :: "'db rocksdb \<Rightarrow> 'db \<Rightarrow> u64 \<Rightarrow> 'db res" where
  "initialize_true_earliest_persisted R db n =
     and_then (get_true_earliest_persisted R db) (\<lambda>cur.
     if cur = None then put_u64_direct R db TRUE_EARLIEST_PERSISTED_KEY n else Inr db)"

definition initialize_earliest_hot :: "'db rocksdb \<Rightarrow> 'db \<Rightarrow> u64 \<Rightarrow> write_batch \<Rightarrow> write_batch res" where
  "initialize_earliest_hot R db n batch =
     and_then (get_earliest_hot R db) (\<lambda>cur.
     if cur = None then set_earliest_hot R db n batch else Inr batch)"

definition initialize_highest_contiguous :: "'db rocksdb \<Rightarrow> 'db \<Rightarrow> u64 \<Rightarrow> 'db res" where
  "initialize_highest_contiguous R db n =
     and_then (get_u64_opt R db HIGHEST_CONTIGUOUS_KEY) (\<lambda>cur.
     if cur = None then put_u64_direct R db HIGHEST_CONTIGUOUS_KEY n else Inr db)"

section \<open>Gap ranges\<close>

text \<open>
  A gap is one entry of the gaps column family: its first block is the key, its last block the
  value. The first step of a reverse iterator from \<open>n\<close> is the gap with the greatest start up to
  \<open>n\<close>; an iterator error reads as the end of the iteration.
\<close>

definition find_containing_gap :: "'db rocksdb \<Rightarrow> 'db \<Rightarrow> u64 \<Rightarrow> (u64 \<times> u64) option res" where
  "find_containing_gap R db n =
     and_then (require_cf R db CF_GAPS) (\<lambda>_.
     case iterator_cf R db CF_GAPS (IterFrom (u64_to_be n) Reverse) of
       Inr (k, v) # _ \<Rightarrow>
         and_then (parse_u64 k) (\<lambda>start.
         and_then (parse_u64 v) (\<lambda>end.
         Inr (if start \<le> n \<and> n \<le> end then Some (start, end) else None)))
     | _ \<Rightarrow> Inr None)"

definition left_merge :: "'db rocksdb \<Rightarrow> 'db \<Rightarrow> u64 \<Rightarrow> u64 \<Rightarrow> (u64 \<times> u64) res" where
  "left_merge R db start end =
     (case iterator_cf R db CF_GAPS (IterFrom (u64_to_be start) Reverse) of
        Inr (k, v) # _ \<Rightarrow>
          and_then (parse_u64 k) (\<lambda>k_start.
          and_then (parse_u64 v) (\<lambda>v_end.
          Inr (if start \<le> saturating_add v_end 1
               then (if k_start < start then k_start else start, if end < v_end then v_end else end)
               else (start, end))))
      | _ \<Rightarrow> Inr (start, end))"

fun sweep :: "(bytes \<times> bytes) res list \<Rightarrow> u64 \<Rightarrow> write_batch \<Rightarrow> (u64 \<times> write_batch) res" where
  "sweep (Inr (k, v) # xs) final_end batch =
     and_then (parse_u64 k) (\<lambda>k_start.
     if saturating_add final_end 1 < k_start then Inr (final_end, batch)
     else and_then (parse_u64 v) (\<lambda>v_end.
       sweep xs (if final_end < v_end then v_end else final_end) (batch @ [DeleteCf CF_GAPS k])))"
| "sweep _ final_end batch = Inr (final_end, batch)"

definition add_gap_range :: "'db rocksdb \<Rightarrow> 'db \<Rightarrow> u64 \<Rightarrow> u64 \<Rightarrow> write_batch \<Rightarrow> write_batch res" where
  "add_gap_range R db start end batch =
     and_then (require_cf R db CF_GAPS) (\<lambda>_.
     if end < start then Inr batch
     else and_then (left_merge R db start end) (\<lambda>(final_start, final_end).
       and_then (sweep (iterator_cf R db CF_GAPS (IterFrom (u64_to_be final_start) Forward))
                  final_end batch) (\<lambda>(final_end', batch').
       Inr (batch' @ [PutCf CF_GAPS (u64_to_be final_start) (u64_to_be final_end')]))))"

definition fill_gap_block :: "'db rocksdb \<Rightarrow> 'db \<Rightarrow> u64 \<Rightarrow> write_batch \<Rightarrow> write_batch res" where
  "fill_gap_block R db n batch =
     and_then (require_cf R db CF_GAPS) (\<lambda>_.
     and_then (find_containing_gap R db n) (\<lambda>g.
     case g of
       None \<Rightarrow> Inr batch
     | Some (start, end) \<Rightarrow>
         Inr (batch @ [DeleteCf CF_GAPS (u64_to_be start)]
              @ (if start < n then [PutCf CF_GAPS (u64_to_be start) (u64_to_be (n - 1))] else [])
              @ (if n < end then [PutCf CF_GAPS (u64_to_be (n + 1)) (u64_to_be end)] else []))))"

section \<open>Skipped archive batches\<close>

definition add_skipped_batch :: "'db rocksdb \<Rightarrow> 'db \<Rightarrow> u64 \<Rightarrow> write_batch \<Rightarrow> write_batch res" where
  "add_skipped_batch R db n batch =
     and_then (require_cf R db CF_SKIPPED_BATCHES) (\<lambda>_.
     Inr (batch @ [PutCf CF_SKIPPED_BATCHES (u64_to_be n) []]))"

definition remove_skipped_batch :: "'db rocksdb \<Rightarrow> 'db \<Rightarrow> u64 \<Rightarrow> write_batch \<Rightarrow> write_batch res" where
  "remove_skipped_batch R db n batch =
     and_then (require_cf R db CF_SKIPPED_BATCHES) (\<lambda>_.
     Inr (batch @ [DeleteCf CF_SKIPPED_BATCHES (u64_to_be n)]))"

definition is_batch_skipped :: "'db rocksdb \<Rightarrow> 'db \<Rightarrow> u64 \<Rightarrow> bool res" where
  "is_batch_skipped R db n =
     and_then (require_cf R db CF_SKIPPED_BATCHES) (\<lambda>_.
     and_then (get_cf R db CF_SKIPPED_BATCHES (u64_to_be n)) (\<lambda>v. Inr (v \<noteq> None)))"

section \<open>The typed reading of a table\<close>

definition u64_pair :: "u64 \<times> u64 \<Rightarrow> bytes \<times> bytes" where
  "u64_pair p = (u64_to_be (fst p), u64_to_be (snd p))"

definition u64_table :: "table \<Rightarrow> bool" where
  "u64_table t \<longleftrightarrow> (\<forall>k v. t k = Some v \<longrightarrow> (\<exists>s e. k = u64_to_be s \<and> v = u64_to_be e))"

definition gap_map_of :: "table \<Rightarrow> gap_map" where
  "gap_map_of t s = Option.bind (t (u64_to_be s)) u64_from_be"

lemma parse_u64_to_be [simp]: "parse_u64 (u64_to_be n) = Inr n"
  by (simp add: parse_u64_def)

lemma u64_table_upd [simp]:
  "u64_table t \<Longrightarrow> u64_table (t(u64_to_be s \<mapsto> u64_to_be e))"
  "u64_table t \<Longrightarrow> u64_table (t(k := None))"
  by (auto simp: u64_table_def)

lemma gap_map_of_upd [simp]:
  "gap_map_of (t(u64_to_be s \<mapsto> u64_to_be e)) = (gap_map_of t)(s \<mapsto> e)"
  "gap_map_of (t(u64_to_be s := None)) = (gap_map_of t)(s := None)"
  by (auto simp: gap_map_of_def fun_eq_iff)

lemma gap_map_of_empty [simp]: "u64_table Map.empty" "gap_map_of Map.empty = Map.empty"
  by (auto simp: u64_table_def gap_map_of_def)

lemma u64_table_lookup: "u64_table t \<Longrightarrow> t (u64_to_be s) = map_option u64_to_be (gap_map_of t s)"
  by (cases "t (u64_to_be s)") (fastforce simp: gap_map_of_def u64_table_def)+

lemma iter_spec_u64:
  assumes t: "u64_table t" and it: "iter_spec t m xs"
  obtains ps where "xs = map u64_pair ps"
    "sorted_wrt (\<lambda>p q. iter_before m (u64_to_be (fst p)) (u64_to_be (fst q))) ps"
    "set ps = {q. gap_map_of t (fst q) = Some (snd q) \<and> iter_in_range m (u64_to_be (fst q))}"
proof -
  have xs: "set xs = {(k, v). t k = Some v \<and> iter_in_range m k}" using it by (simp add: iter_spec_def)
  have "\<forall>x \<in> set xs. \<exists>q. x = u64_pair q" using xs t by (fastforce simp: u64_table_def u64_pair_def)
  then obtain ps where ps: "xs = map u64_pair ps" by (metis ex_map_conv)
  have "q \<in> set ps \<longleftrightarrow> gap_map_of t (fst q) = Some (snd q) \<and> iter_in_range m (u64_to_be (fst q))" for q
  proof -
    have "inj u64_pair" by (auto simp: inj_on_def u64_pair_def prod_eq_iff)
    then have "q \<in> set ps \<longleftrightarrow> u64_pair q \<in> set xs" by (simp add: ps inj_image_mem_iff)
    then show ?thesis by (auto simp: xs u64_pair_def u64_table_lookup [OF t])
  qed
  then show ?thesis
    using it by (intro that [OF ps]) (auto simp: iter_spec_def ps sorted_wrt_map u64_pair_def)
qed

section \<open>Refinement of the gap operations\<close>

lemma sweep_typed:
  "sweep (map (Inr \<circ> u64_pair) ps) fe batch =
     Inr (fst (sweep_gaps ps fe), batch @ map (\<lambda>s. DeleteCf CF_GAPS (u64_to_be s)) (snd (sweep_gaps ps fe)))"
  by (induction ps arbitrary: fe batch) (auto simp: u64_pair_def res_simps split: prod.splits)

lemma delete_gaps:
  "u64_table t \<Longrightarrow> u64_table (fold table_op (map (\<lambda>s. DeleteCf c (u64_to_be s)) ds) t) \<and>
     gap_map_of (fold table_op (map (\<lambda>s. DeleteCf c (u64_to_be s)) ds) t) = gap_map_of t |` (- set ds)"
proof (induction ds arbitrary: t)
  case (Cons d ds)
  have "(gap_map_of t)(d := None) |` (- set ds) = gap_map_of t |` (- set (d # ds))"
    by (auto simp: fun_eq_iff restrict_map_def)
  with Cons.IH [OF u64_table_upd(2) [OF Cons.prems, of "u64_to_be d"]] show ?case
    by (simp only: list.map fold_simps table_op.simps gap_map_of_upd simp_thms)
qed (simp add: fun_eq_iff restrict_map_def)

definition gaps_of :: "tables \<Rightarrow> gap_map" where
  "gaps_of t = gap_map_of (t CF_GAPS)"

definition gaps_ok :: "tables \<Rightarrow> bool" where
  "gaps_ok t \<longleftrightarrow> u64_table (t CF_GAPS) \<and> gaps_wf (gaps_of t)"

text \<open>The blocks recorded as missing.\<close>

definition missing :: "tables \<Rightarrow> u64 set" where
  "missing t = gap_set (gaps_of t)"

text \<open>A batch suffix that only rewrites the gaps, and what it makes of them.\<close>

definition gap_update :: "tables \<Rightarrow> write_batch \<Rightarrow> u64 set \<Rightarrow> bool" where
  "gap_update t ops M \<longleftrightarrow>
     (\<forall>b \<in> set ops. op_cf b = CF_GAPS) \<and>
     (let t' = fold table_op ops (t CF_GAPS)
      in u64_table t' \<and> gaps_wf (gap_map_of t') \<and> gap_set (gap_map_of t') = M)"

lemma gap_update_apply:
  assumes "gap_update t ops M" and "cf_ops CF_GAPS b = []"
  shows "gaps_ok (apply_batch (b @ ops) t)" and "missing (apply_batch (b @ ops) t) = M"
    and "c \<noteq> CF_GAPS \<Longrightarrow> apply_batch (b @ ops) t c = apply_batch b t c"
proof -
  have "cf_ops CF_GAPS ops = ops" "\<And>c. c \<noteq> CF_GAPS \<Longrightarrow> cf_ops c ops = []"
    using assms(1) by (auto simp: gap_update_def cf_ops_only [where d = CF_GAPS])
  with assms show "gaps_ok (apply_batch (b @ ops) t)" "missing (apply_batch (b @ ops) t) = M"
    "c \<noteq> CF_GAPS \<Longrightarrow> apply_batch (b @ ops) t c = apply_batch b t c"
    by (simp_all add: gaps_ok_def missing_def gaps_of_def apply_batch_cf gap_update_def Let_def)
qed

text \<open>The watermark of a key, and the well-formedness of the metadata family.\<close>

definition watermark_keys :: "bytes set" where
  "watermark_keys = {LATEST_PERSISTED_KEY, EARLIEST_HOT_KEY, HIGHEST_CONTIGUOUS_KEY, TRUE_EARLIEST_PERSISTED_KEY}"

definition meta :: "tables \<Rightarrow> bytes \<Rightarrow> u64 option" where
  "meta t key = Option.bind (t CF_METADATA key) u64_from_be"

definition meta_ok :: "tables \<Rightarrow> bool" where
  "meta_ok t \<longleftrightarrow> (\<forall>key \<in> watermark_keys. \<forall>v. t CF_METADATA key = Some v \<longrightarrow> (\<exists>n. v = u64_to_be n))"

lemma watermark_keys_mem [simp]:
  "LATEST_PERSISTED_KEY \<in> watermark_keys" "EARLIEST_HOT_KEY \<in> watermark_keys"
  "HIGHEST_CONTIGUOUS_KEY \<in> watermark_keys" "TRUE_EARLIEST_PERSISTED_KEY \<in> watermark_keys"
  by (simp_all add: watermark_keys_def)

lemma watermark_keys_length:
  "length LATEST_PERSISTED_KEY = 16" "length EARLIEST_HOT_KEY = 12"
  "length HIGHEST_CONTIGUOUS_KEY = 18" "length TRUE_EARLIEST_PERSISTED_KEY = 23"
  by (simp_all add: LATEST_PERSISTED_KEY_def EARLIEST_HOT_KEY_def HIGHEST_CONTIGUOUS_KEY_def
      TRUE_EARLIEST_PERSISTED_KEY_def ascii_def)

lemma watermark_keys_distinct [simp]:
  "LATEST_PERSISTED_KEY \<noteq> EARLIEST_HOT_KEY" "LATEST_PERSISTED_KEY \<noteq> HIGHEST_CONTIGUOUS_KEY"
  "LATEST_PERSISTED_KEY \<noteq> TRUE_EARLIEST_PERSISTED_KEY" "EARLIEST_HOT_KEY \<noteq> LATEST_PERSISTED_KEY"
  "EARLIEST_HOT_KEY \<noteq> HIGHEST_CONTIGUOUS_KEY" "EARLIEST_HOT_KEY \<noteq> TRUE_EARLIEST_PERSISTED_KEY"
  "HIGHEST_CONTIGUOUS_KEY \<noteq> LATEST_PERSISTED_KEY" "HIGHEST_CONTIGUOUS_KEY \<noteq> EARLIEST_HOT_KEY"
  "HIGHEST_CONTIGUOUS_KEY \<noteq> TRUE_EARLIEST_PERSISTED_KEY" "TRUE_EARLIEST_PERSISTED_KEY \<noteq> LATEST_PERSISTED_KEY"
  "TRUE_EARLIEST_PERSISTED_KEY \<noteq> EARLIEST_HOT_KEY" "TRUE_EARLIEST_PERSISTED_KEY \<noteq> HIGHEST_CONTIGUOUS_KEY"
  by (rule notI, drule arg_cong [where f = length], simp add: watermark_keys_length)+

lemma meta_put [simp]:
  "meta (t(CF_METADATA := (t CF_METADATA)(key \<mapsto> u64_to_be n))) k = (if k = key then Some n else meta t k)"
  "meta_ok t \<Longrightarrow> meta_ok (t(CF_METADATA := (t CF_METADATA)(key \<mapsto> u64_to_be n)))"
  by (auto simp: meta_def meta_ok_def)

context rocksdb_laws
begin

lemma require_cf_ok [simp]: "invar db \<Longrightarrow> require_cf R db c = Inr ()"
  by (simp add: require_cf_def cf_ok)

lemma iter_fwd:
  assumes "invar db" "u64_table (view db c)"
  obtains ps where "iterator_cf R db c (IterFrom (u64_to_be n) Forward) = map (Inr \<circ> u64_pair) ps"
    "sorted_wrt (\<lambda>p q. fst p < fst q) ps"
    "set ps = {q. gap_map_of (view db c) (fst q) = Some (snd q) \<and> n \<le> fst q}"
proof -
  obtain xs where xs: "iterator_cf R db c (IterFrom (u64_to_be n) Forward) = map Inr xs"
    "iter_spec (view db c) (IterFrom (u64_to_be n) Forward) xs"
    using iter_ok [OF assms(1)] by blast
  show ?thesis
    by (rule iter_spec_u64 [OF assms(2) xs(2)], rule that) (simp_all add: xs(1))
qed

lemma iter_rev:
  assumes "invar db" "u64_table (view db c)"
  obtains ps where "iterator_cf R db c (IterFrom (u64_to_be n) Reverse) = map (Inr \<circ> u64_pair) ps"
    "sorted_wrt (\<lambda>p q. fst q < fst p) ps"
    "set ps = {q. gap_map_of (view db c) (fst q) = Some (snd q) \<and> fst q \<le> n}"
proof -
  obtain xs where xs: "iterator_cf R db c (IterFrom (u64_to_be n) Reverse) = map Inr xs"
    "iter_spec (view db c) (IterFrom (u64_to_be n) Reverse) xs"
    using iter_ok [OF assms(1)] by blast
  show ?thesis
    by (rule iter_spec_u64 [OF assms(2) xs(2)], rule that) (simp_all add: xs(1))
qed

text \<open>The first step of the reverse iterator is the predecessor gap.\<close>

lemma iter_rev_pred:
  assumes "invar db" "u64_table (view db CF_GAPS)"
  obtains p ps where "is_pred_gap (gaps_of (view db)) n p"
    "iterator_cf R db CF_GAPS (IterFrom (u64_to_be n) Reverse) =
       (case p of None \<Rightarrow> [] | Some q \<Rightarrow> Inr (u64_pair q) # ps)"
proof -
  obtain ps where it: "iterator_cf R db CF_GAPS (IterFrom (u64_to_be n) Reverse) = map (Inr \<circ> u64_pair) ps"
    and srt: "sorted_wrt (\<lambda>p q. fst q < fst p) ps"
    and ps: "set ps = {q. gaps_of (view db) (fst q) = Some (snd q) \<and> fst q \<le> n}"
    using iter_rev [OF assms, of n] unfolding gaps_of_def by blast
  have mem: "gaps_of (view db) s = Some e \<and> s \<le> n \<longleftrightarrow> (s, e) \<in> set ps" for s e
    by (simp add: ps)
  show ?thesis
  proof (cases ps)
    case Nil
    then have "is_pred_gap (gaps_of (view db)) n None"
      using mem by (auto simp: is_pred_gap_def not_le [symmetric])
    then show ?thesis by (rule that [of None "[]"]) (simp add: it Nil)
  next
    case (Cons q qs)
    have "s \<le> fst q" if "gaps_of (view db) s = Some e" "s \<le> n" for s e
    proof -
      have "(s, e) = q \<or> (s, e) \<in> set qs" using that mem [of s e] Cons by simp
      then show ?thesis using srt Cons by (auto dest: less_imp_le)
    qed
    moreover have "gaps_of (view db) (fst q) = Some (snd q) \<and> fst q \<le> n"
      by (simp add: mem Cons)
    ultimately have "is_pred_gap (gaps_of (view db)) n (Some q)"
      unfolding is_pred_gap_def option.case split_beta by blast
    then show ?thesis by (rule that) (simp add: it Cons)
  qed
qed

lemma find_containing_gap_pred:
  assumes "invar db" "gaps_ok (view db)"
  obtains p where "is_pred_gap (gaps_of (view db)) n p"
    "find_containing_gap R db n =
       Inr (case p of None \<Rightarrow> None | Some (s, e) \<Rightarrow> if n \<le> e then Some (s, e) else None)"
proof -
  have "u64_table (view db CF_GAPS)" using assms(2) by (simp add: gaps_ok_def)
  from iter_rev_pred [OF assms(1) this, of n] obtain p ps
    where p: "is_pred_gap (gaps_of (view db)) n p"
      "iterator_cf R db CF_GAPS (IterFrom (u64_to_be n) Reverse) =
         (case p of None \<Rightarrow> [] | Some q \<Rightarrow> Inr (u64_pair q) # ps)" by blast
  show ?thesis
    by (rule that [OF p(1)], cases p)
      (use p assms(1) in \<open>auto simp: find_containing_gap_def u64_pair_def is_pred_gap_def res_simps split: prod.splits\<close>)
qed

lemma find_containing_gap_eq:
  assumes "invar db" "gaps_ok (view db)"
  shows "\<exists>g. find_containing_gap R db n = Inr g \<and>
    (case g of None \<Rightarrow> n \<notin> missing (view db)
     | Some (s, e) \<Rightarrow> gaps_of (view db) s = Some e \<and> s \<le> n \<and> n \<le> e)"
proof -
  obtain p where p: "is_pred_gap (gaps_of (view db)) n p"
    "find_containing_gap R db n =
       Inr (case p of None \<Rightarrow> None | Some (s, e) \<Rightarrow> if n \<le> e then Some (s, e) else None)"
    by (rule find_containing_gap_pred [OF assms])
  have "gaps_wf (gaps_of (view db))" using assms(2) by (simp add: gaps_ok_def)
  from pred_gap_decides [OF this p(1)] p show ?thesis
    by (auto simp: missing_def is_pred_gap_def split: option.splits)
qed

lemma add_gap_range_eq:
  assumes "invar db" "gaps_ok (view db)"
  shows "\<exists>ops. add_gap_range R db start end batch = Inr (batch @ ops) \<and>
    gap_update (view db) ops (missing (view db) \<union> {start..end})"
proof (cases "end < start")
  case True
  then have "gap_update (view db) [] (missing (view db) \<union> {start..end})"
    using assms(2) by (simp add: gap_update_def gaps_ok_def missing_def gaps_of_def)
  with True assms(1) show ?thesis by (auto simp: add_gap_range_def res_simps)
next
  case False
  have wf: "gaps_wf (gaps_of (view db))" and ty: "u64_table (view db CF_GAPS)"
    using assms(2) by (simp_all add: gaps_ok_def)
  obtain p qs where p: "is_pred_gap (gaps_of (view db)) start p"
    "iterator_cf R db CF_GAPS (IterFrom (u64_to_be start) Reverse) =
       (case p of None \<Rightarrow> [] | Some q \<Rightarrow> Inr (u64_pair q) # qs)"
    by (rule iter_rev_pred [OF assms(1) ty])
  obtain fs fe where left: "merge_left p start end = (fs, fe)" by fastforce
  have "left_merge R db start end = Inr (merge_left p start end)"
    by (cases p) (simp_all add: left_merge_def p(2) merge_left_def u64_pair_def res_simps split_beta)
  then have lm: "left_merge R db start end = Inr (fs, fe)" by (simp only: left)
  obtain ps where it: "iterator_cf R db CF_GAPS (IterFrom (u64_to_be fs) Forward) = map (Inr \<circ> u64_pair) ps"
    and ps: "sorted_wrt (\<lambda>p q. fst p < fst q) ps"
      "set ps = {q. gap_map_of (view db CF_GAPS) (fst q) = Some (snd q) \<and> fs \<le> fst q}"
    by (rule iter_fwd [OF assms(1) ty])
  obtain fe' ds where sw: "sweep_gaps ps fe = (fe', ds)" by fastforce
  have run: "add_run (gaps_of (view db)) start end p fs fe ps fe' ds"
    using wf False p(1) left ps sw by (simp add: add_run_def gaps_of_def)
  let ?ops = "map (\<lambda>s. DeleteCf CF_GAPS (u64_to_be s)) ds @ [PutCf CF_GAPS (u64_to_be fs) (u64_to_be fe')]"
  have "add_gap_range R db start end batch = Inr (batch @ ?ops)"
    using False assms(1) by (simp add: add_gap_range_def lm it sweep_typed sw res_simps)
  moreover have "gap_update (view db) ?ops (missing (view db) \<union> {start..end})"
  proof -
    have ops: "fold table_op ?ops (view db CF_GAPS) =
        (fold table_op (map (\<lambda>s. DeleteCf CF_GAPS (u64_to_be s)) ds) (view db CF_GAPS))(u64_to_be fs \<mapsto> u64_to_be fe')"
      by simp
    have "gap_map_of (fold table_op ?ops (view db CF_GAPS)) = (gaps_of (view db) |` (- set ds))(fs \<mapsto> fe')"
      unfolding ops gap_map_of_upd gaps_of_def using delete_gaps [OF ty] by simp
    moreover have "u64_table (fold table_op ?ops (view db CF_GAPS))"
      unfolding ops using delete_gaps [OF ty] by simp
    ultimately show ?thesis
      unfolding gap_update_def Let_def missing_def
      using add_run_wf [OF run] add_run_set [OF run] by (simp only:) auto
  qed
  ultimately show ?thesis by blast
qed

lemma fill_gap_block_eq:
  assumes "invar db" "gaps_ok (view db)"
  shows "\<exists>ops. fill_gap_block R db n batch = Inr (batch @ ops) \<and>
    gap_update (view db) ops (missing (view db) - {n})"
proof -
  obtain g where f: "find_containing_gap R db n = Inr g"
    and g: "case g of None \<Rightarrow> n \<notin> missing (view db)
      | Some (s, e) \<Rightarrow> gaps_of (view db) s = Some e \<and> s \<le> n \<and> n \<le> e"
    using find_containing_gap_eq [OF assms] by blast
  have wf: "gaps_wf (gaps_of (view db))" and ty: "u64_table (view db CF_GAPS)"
    using assms(2) by (simp_all add: gaps_ok_def)
  show ?thesis
  proof (cases g)
    case None
    then have "gap_update (view db) [] (missing (view db) - {n})"
      using g wf ty by (simp add: gap_update_def missing_def gaps_of_def)
    with None assms(1) f show ?thesis by (auto simp: fill_gap_block_def res_simps)
  next
    case (Some p)
    obtain s e where p: "p = (s, e)" by (cases p)
    have se: "gaps_of (view db) s = Some e" "s \<le> n" "n \<le> e" using g Some p by simp_all
    let ?ops = "[DeleteCf CF_GAPS (u64_to_be s)]
      @ (if s < n then [PutCf CF_GAPS (u64_to_be s) (u64_to_be (n - 1))] else [])
      @ (if n < e then [PutCf CF_GAPS (u64_to_be (n + 1)) (u64_to_be e)] else [])"
    have "gap_map_of (fold table_op ?ops (view db CF_GAPS)) = split_gap (gaps_of (view db)) (s, e) n"
      by (simp add: split_gap_def gaps_of_def)
    moreover have "u64_table (fold table_op ?ops (view db CF_GAPS))" using ty by simp
    moreover have "\<forall>b \<in> set ?ops. op_cf b = CF_GAPS"
      by (cases "s < n"; cases "n < e") simp_all
    ultimately have "gap_update (view db) ?ops (missing (view db) - {n})"
      unfolding gap_update_def Let_def missing_def
      using split_gap_wf [OF wf se] split_gap_set [OF wf se] by (simp only: simp_thms)
    moreover have "fill_gap_block R db n batch = Inr (batch @ ?ops)"
      using assms(1) f by (simp add: fill_gap_block_def Some p res_simps)
    ultimately show ?thesis by blast
  qed
qed

text \<open>Watermarks.\<close>

lemma get_u64_opt_eq:
  assumes "invar db" "meta_ok (view db)" "key \<in> watermark_keys"
  shows "get_u64_opt R db key = Inr (meta (view db) key)"
proof (cases "view db CF_METADATA key")
  case (Some v)
  with assms(2,3) obtain n where "v = u64_to_be n" by (auto simp: meta_ok_def)
  with Some assms(1) show ?thesis by (simp add: get_u64_opt_def get_ok meta_def res_simps)
qed (use assms(1) in \<open>simp add: get_u64_opt_def get_ok meta_def res_simps\<close>)

lemma set_u64_eq: "invar db \<Longrightarrow> set_u64 R db key n b = Inr (b @ [PutCf CF_METADATA key (u64_to_be n)])"
  by (simp add: set_u64_def res_simps)

lemma put_u64_direct_eq:
  assumes "invar db"
  obtains db' where "put_u64_direct R db key n = Inr db'" "invar db'"
    "view db' = apply_op (PutCf CF_METADATA key (u64_to_be n)) (view db)"
  using put_ok [OF assms, of CF_METADATA key "u64_to_be n"] assms
  by (auto simp: put_u64_direct_def res_simps)

lemmas watermark_eqs =
  get_latest_persisted_def get_earliest_hot_def get_highest_contiguous_def get_true_earliest_persisted_def
  set_latest_persisted_def set_earliest_hot_def set_highest_contiguous_def set_true_earliest_persisted_def
  get_u64_opt_eq set_u64_eq

lemma update_true_earliest_eq:
  assumes "invar db" "meta_ok (view db)"
  shows "\<exists>db'. update_true_earliest_if_less R db n = Inr db' \<and> invar db' \<and> meta_ok (view db') \<and>
    (\<forall>c. c \<noteq> CF_METADATA \<longrightarrow> view db' c = view db c) \<and>
    (\<forall>k. meta (view db') k =
       (if k = TRUE_EARLIEST_PERSISTED_KEY
        then Some (case meta (view db) k of None \<Rightarrow> n | Some m \<Rightarrow> min n m) else meta (view db) k))"
proof -
  have cur: "get_true_earliest_persisted R db = Inr (meta (view db) TRUE_EARLIEST_PERSISTED_KEY)"
    using assms by (simp add: watermark_eqs)
  obtain db' where db': "put_u64_direct R db TRUE_EARLIEST_PERSISTED_KEY n = Inr db'" "invar db'"
    "view db' = apply_op (PutCf CF_METADATA TRUE_EARLIEST_PERSISTED_KEY (u64_to_be n)) (view db)"
    by (rule put_u64_direct_eq [OF assms(1)])
  show ?thesis
  proof (cases "meta (view db) TRUE_EARLIEST_PERSISTED_KEY")
    case None
    with cur db' assms(2) show ?thesis
      by (auto simp: update_true_earliest_if_less_def res_simps)
  next
    case (Some m)
    then have "update_true_earliest_if_less R db n = Inr (if n < m then db' else db)"
      by (simp add: update_true_earliest_if_less_def cur db' res_simps)
    then show ?thesis using db' assms Some by (cases "n < m") (auto simp: min_def)
  qed
qed

end

context rocksdb_laws
begin

lemma gap_update_commit:
  assumes "invar db" and "gap_update (view db) ops M"
  shows "\<exists>db'. write_db R db ops = Inr db' \<and> invar db' \<and> gaps_ok (view db') \<and>
    missing (view db') = M \<and> (\<forall>c. c \<noteq> CF_GAPS \<longrightarrow> view db' c = view db c)"
  using write_ok [OF assms(1), of ops] gap_update_apply [OF assms(2), of "[]"]
  by (auto simp: apply_batch_cf)

end

section \<open>A reference store for the gaps\<close>

definition ref_gaps :: "(u64 \<times> u64) list \<Rightarrow> ref_db" where
  "ref_gaps ps = ref_empty(CF_GAPS := map u64_pair ps)"

lemma u64_pairs_table:
  "u64_table (map_of (map u64_pair ps))" "gap_map_of (map_of (map u64_pair ps)) = map_of ps"
proof (induction ps)
  case (Cons p ps)
  have "map_of (map u64_pair (p # ps)) = (map_of (map u64_pair ps))(u64_to_be (fst p) \<mapsto> u64_to_be (snd p))"
    by (simp add: u64_pair_def)
  with Cons show "u64_table (map_of (map u64_pair (p # ps)))"
    "gap_map_of (map_of (map u64_pair (p # ps))) = map_of (p # ps)"
    by (simp_all only: u64_table_upd gap_map_of_upd map_of.simps)
qed simp_all

lemma ref_gaps_of: "gaps_of (ref_view (ref_gaps ps)) = map_of ps"
  by (simp add: gaps_of_def ref_view_def ref_gaps_def u64_pairs_table)

lemma ref_gaps_ok: "gaps_wf (map_of ps) \<Longrightarrow> gaps_ok (ref_view (ref_gaps ps))"
  by (simp add: gaps_ok_def ref_gaps_of) (simp add: ref_view_def ref_gaps_def u64_pairs_table)

lemma ref_gaps_invar: "sorted_wrt (<) (map fst ps) \<Longrightarrow> ref_invar (ref_gaps ps)"
  by (auto simp: ref_invar_def ref_gaps_def ref_empty_def sorted_wrt_map u64_pair_def)

abbreviation example_db :: ref_db where
  "example_db \<equiv> ref_gaps [(5, 7), (20, 30)]"

lemma example_gaps:
  "ref_invar example_db" "gaps_ok (ref_view example_db)"
proof -
  show "ref_invar example_db" by (rule ref_gaps_invar) simp
  have "gaps_wf (map_of [(5, 7), (20, 30)])"
    by (auto simp: gaps_wf_def saturating_add_1 split: if_splits)
  then show "gaps_ok (ref_view example_db)" by (rule ref_gaps_ok)
qed

section \<open>Properties\<close>

text \<open>
  \<open>find_containing_gap\<close> answers exactly whether a block is recorded as missing, and names the gap
  that contains it.
\<close>

lemma find_containing_gap_correct:
  assumes "rocksdb_laws R view invar" and "invar db" and "gaps_ok (view db)"
  shows "\<exists>g. find_containing_gap R db n = Inr g \<and> (g = None \<longleftrightarrow> n \<notin> missing (view db)) \<and>
    (\<forall>s e. g = Some (s, e) \<longrightarrow> gaps_of (view db) s = Some e \<and> s \<le> n \<and> n \<le> e)"
proof -
  obtain g where "find_containing_gap R db n = Inr g"
    and "case g of None \<Rightarrow> n \<notin> missing (view db)
      | Some (s, e) \<Rightarrow> gaps_of (view db) s = Some e \<and> s \<le> n \<and> n \<le> e"
    using rocksdb_laws.find_containing_gap_eq [OF assms] by blast
  then show ?thesis by (cases g) (auto simp: missing_def intro: gap_setI)
qed

text \<open>
  C28: committing \<open>add_gap_range\<close> records exactly the new range as missing besides what was missing
  before, merges it with every gap it overlaps or touches so that the stored gaps stay disjoint and
  apart, and changes no other column family.
\<close>

theorem add_gap_range_correct:
  assumes "rocksdb_laws R view invar" and "invar db" and "gaps_ok (view db)"
  shows "\<exists>db'. and_then (add_gap_range R db start end []) (write_db R db) = Inr db' \<and> invar db' \<and>
    gaps_ok (view db') \<and> missing (view db') = missing (view db) \<union> {start..end} \<and>
    (\<forall>c. c \<noteq> CF_GAPS \<longrightarrow> view db' c = view db c)"
  using rocksdb_laws.add_gap_range_eq [OF assms, of start "end" "[]"]
    rocksdb_laws.gap_update_commit [OF assms(1,2)] by (auto simp: res_simps)

theorem add_gap_range_correct_witness:
  "\<exists>db'. and_then (add_gap_range ref_rocksdb example_db 8 21 [])
      (write_db ref_rocksdb example_db) = Inr db' \<and> ref_invar db' \<and>
    gaps_ok (ref_view db') \<and>
    missing (ref_view db') = missing (ref_view example_db) \<union> {8..21} \<and>
    (\<forall>c. c \<noteq> CF_GAPS \<longrightarrow> ref_view db' c = ref_view example_db c)"
  by (rule add_gap_range_correct [of ref_rocksdb ref_view ref_invar, OF ref.rocksdb_laws_axioms example_gaps])

text \<open>
  C29: committing \<open>fill_gap_block\<close> removes exactly the block from the missing ones, splitting its gap
  where needed, and changes no other column family.
\<close>

theorem fill_gap_block_correct:
  assumes "rocksdb_laws R view invar" and "invar db" and "gaps_ok (view db)"
  shows "\<exists>db'. and_then (fill_gap_block R db n []) (write_db R db) = Inr db' \<and> invar db' \<and>
    gaps_ok (view db') \<and> missing (view db') = missing (view db) - {n} \<and>
    (\<forall>c. c \<noteq> CF_GAPS \<longrightarrow> view db' c = view db c)"
  using rocksdb_laws.fill_gap_block_eq [OF assms, of n "[]"]
    rocksdb_laws.gap_update_commit [OF assms(1,2)] by (auto simp: res_simps)

theorem fill_gap_block_correct_witness:
  "\<exists>db'. and_then (fill_gap_block ref_rocksdb example_db 6 [])
      (write_db ref_rocksdb example_db) = Inr db' \<and> ref_invar db' \<and>
    gaps_ok (ref_view db') \<and> missing (ref_view db') = missing (ref_view example_db) - {6} \<and>
    (\<forall>c. c \<noteq> CF_GAPS \<longrightarrow> ref_view db' c = ref_view example_db c)"
  by (rule fill_gap_block_correct [of ref_rocksdb ref_view ref_invar, OF ref.rocksdb_laws_axioms example_gaps])

text \<open>
  \<open>update_true_earliest_if_less\<close> keeps the minimum of the blocks it is given, and touches no
  other watermark.
\<close>

lemma update_true_earliest_min:
  assumes "rocksdb_laws R view invar" and "invar db" and "meta_ok (view db)"
  shows "\<exists>db'. update_true_earliest_if_less R db n = Inr db' \<and> invar db' \<and> meta_ok (view db') \<and>
    get_true_earliest_persisted R db' =
      Inr (Some (case meta (view db) TRUE_EARLIEST_PERSISTED_KEY of None \<Rightarrow> n | Some m \<Rightarrow> min n m)) \<and>
    get_latest_persisted R db' = get_latest_persisted R db \<and>
    get_earliest_hot R db' = get_earliest_hot R db \<and>
    get_highest_contiguous R db' = get_highest_contiguous R db"
  using rocksdb_laws.update_true_earliest_eq [OF assms, of n] assms
  by (auto simp: rocksdb_laws.watermark_eqs [OF assms(1)])

end
