(* ===== verification/Hot_Tier.thy ===== *)
theory Hot_Tier
  imports Persist_State Ref_Codec
begin

text \<open>
  The hot tier (\<^verbatim>\<open>persistence-plugin/src/hot_tier.rs\<close>): recent blocks in a column family of the
  store, one entry per block number, each the wrapped encoding of the block. The second half gives
  its abstract reading, a partial map from block numbers to blocks, and what each operation does to
  it.
\<close>

section \<open>Operations\<close>

record stored_block =
  contents :: bytes

definition hot_read_block :: "'db rocksdb \<Rightarrow> codec \<Rightarrow> 'db \<Rightarrow> u64 \<Rightarrow> bytes option res" where
  "hot_read_block R C db n =
     and_then (require_cf R db CF_HOT_BLOCKS) (\<lambda>_.
     and_then (get_cf R db CF_HOT_BLOCKS (u64_to_be n)) (\<lambda>v.
     case v of
       None \<Rightarrow> Inr None
     | Some db_vec \<Rightarrow>
         and_then (bincode_deserialize C db_vec) (\<lambda>bs.
         let stored = \<lparr>contents = bs\<rparr> in Inr (Some (contents stored)))))"

definition get_earliest_block_number :: "'db rocksdb \<Rightarrow> 'db \<Rightarrow> u64 option res" where
  "get_earliest_block_number R db =
     and_then (require_cf R db CF_HOT_BLOCKS) (\<lambda>_.
     case iterator_cf R db CF_HOT_BLOCKS IterStart of
       Inr (k, _) # _ \<Rightarrow> and_then (parse_u64 k) (\<lambda>n. Inr (Some n))
     | _ \<Rightarrow> Inr None)"

text \<open>The block numbers of the loop \<^verbatim>\<open>for i in 0..count\<close> from \<open>start\<close>.\<close>

definition block_range :: "u64 \<Rightarrow> u64 \<Rightarrow> u64 list" where
  "block_range start count = map (\<lambda>i. start + of_nat i) [0..<unat count]"

fun all_present :: "'db rocksdb \<Rightarrow> 'db \<Rightarrow> u64 list \<Rightarrow> bool res" where
  "all_present R db [] = Inr True"
| "all_present R db (n # ns) =
     and_then (get_cf R db CF_HOT_BLOCKS (u64_to_be n)) (\<lambda>v.
     if v = None then Inr False else all_present R db ns)"

definition is_batch_complete :: "'db rocksdb \<Rightarrow> 'db \<Rightarrow> u64 \<Rightarrow> u64 \<Rightarrow> bool res" where
  "is_batch_complete R db start batch_size =
     and_then (require_cf R db CF_HOT_BLOCKS) (\<lambda>_. all_present R db (block_range start batch_size))"

fun read_blocks :: "'db rocksdb \<Rightarrow> codec \<Rightarrow> 'db \<Rightarrow> u64 list \<Rightarrow> block list res" where
  "read_blocks R C db [] = Inr []"
| "read_blocks R C db (n # ns) =
     and_then (hot_read_block R C db n) (\<lambda>v.
     case v of
       None \<Rightarrow> Inl (MissingHotBlock n)
     | Some bs \<Rightarrow>
         and_then (decode_block C bs) (\<lambda>b.
         and_then (read_blocks R C db ns) (\<lambda>rest. Inr (b # rest))))"

definition read_block_batch :: "'db rocksdb \<Rightarrow> codec \<Rightarrow> 'db \<Rightarrow> u64 \<Rightarrow> u64 \<Rightarrow> block list res" where
  "read_block_batch R C db start count = read_blocks R C db (block_range start count)"

definition add_block_to_batch ::
    "'db rocksdb \<Rightarrow> codec \<Rightarrow> 'db \<Rightarrow> block \<Rightarrow> u64 \<Rightarrow> write_batch \<Rightarrow> write_batch res" where
  "add_block_to_batch R C db b n batch =
     and_then (require_cf R db CF_HOT_BLOCKS) (\<lambda>_.
     and_then (encode_block C b) (\<lambda>block_bytes.
     let stored = \<lparr>contents = block_bytes\<rparr> in
     and_then (bincode_serialize C (contents stored)) (\<lambda>v.
     Inr (batch @ [PutCf CF_HOT_BLOCKS (u64_to_be n) v]))))"

definition add_delete_to_batch :: "'db rocksdb \<Rightarrow> 'db \<Rightarrow> u64 \<Rightarrow> write_batch \<Rightarrow> write_batch res" where
  "add_delete_to_batch R db n batch =
     and_then (require_cf R db CF_HOT_BLOCKS) (\<lambda>_.
     Inr (batch @ [DeleteCf CF_HOT_BLOCKS (u64_to_be n)]))"

definition commit_batch :: "'db rocksdb \<Rightarrow> 'db \<Rightarrow> write_batch \<Rightarrow> 'db res" where
  "commit_batch R db batch = write_db R db batch"

section \<open>Block ranges\<close>

lemma length_block_range [simp]: "length (block_range start count) = unat count"
  by (simp add: block_range_def)

lemma nth_block_range [simp]: "i < unat count \<Longrightarrow> block_range start count ! i = start + of_nat i"
  by (simp add: block_range_def)

lemma block_range_empty_iff [simp]: "block_range start count = [] \<longleftrightarrow> count = 0"
  by (simp add: block_range_def unat_eq_0)

lemma set_block_range: "set (block_range start count) = {start + of_nat i | i. i < unat count}"
  by (auto simp: block_range_def)

lemma distinct_block_range: "distinct (block_range start count)"
proof -
  have "(of_nat i :: u64) = of_nat j \<longleftrightarrow> i = j" if "i < unat count" "j < unat count" for i j
  proof -
    have "i < 2 ^ 64" "j < 2 ^ 64" using that u64_bound [of count] by auto
    then show ?thesis by (simp add: word_unat_eq_iff unsigned_of_nat take_bit_nat_eq_self)
  qed
  then show ?thesis by (auto simp: block_range_def distinct_map inj_on_def)
qed

section \<open>The abstract hot tier\<close>

text \<open>
  Every entry is the stored form of a block whose header has the number it is filed under.
\<close>

definition hot_ok :: "codec \<Rightarrow> tables \<Rightarrow> bool" where
  "hot_ok C t \<longleftrightarrow> (\<forall>k v. t CF_HOT_BLOCKS k = Some v \<longrightarrow>
     (\<exists>n b. k = u64_to_be n \<and> bincode_serialize C (encode_to_vec C b) = Inr v \<and> get_block_number b = Inr n))"

text \<open>The bytes of the blocks in the hot tier, and the numbers it holds.\<close>

definition hot_bytes :: "codec \<Rightarrow> tables \<Rightarrow> u64 \<Rightarrow> bytes option" where
  "hot_bytes C t n =
     Option.bind (t CF_HOT_BLOCKS (u64_to_be n)) (\<lambda>v. case bincode_deserialize C v of Inl _ \<Rightarrow> None | Inr bs \<Rightarrow> Some bs)"

definition hot_numbers :: "tables \<Rightarrow> u64 set" where
  "hot_numbers t = {n. t CF_HOT_BLOCKS (u64_to_be n) \<noteq> None}"

locale persist_laws = rocksdb_laws R view invar + codec_laws C
  for R :: "'db rocksdb" and view invar and C :: codec
begin

lemma hot_entry:
  assumes "hot_ok C t" and "n \<in> hot_numbers t"
  obtains b where "hot_bytes C t n = Some (encode_to_vec C b)" "get_block_number b = Inr n"
    "\<exists>v. t CF_HOT_BLOCKS (u64_to_be n) = Some v \<and> bincode_deserialize C v = Inr (encode_to_vec C b)"
proof -
  obtain v where v: "t CF_HOT_BLOCKS (u64_to_be n) = Some v" using assms(2) by (auto simp: hot_numbers_def)
  with assms(1) obtain b where b: "bincode_serialize C (encode_to_vec C b) = Inr v" "get_block_number b = Inr n"
    by (fastforce simp: hot_ok_def)
  then have "bincode_deserialize C v = Inr (encode_to_vec C b)" by (rule_tac deserialize_serialize)
  with v b show ?thesis by (intro that [of b]) (simp_all add: hot_bytes_def)
qed

lemma hot_bytes_None: "hot_ok C t \<Longrightarrow> hot_bytes C t n = None \<longleftrightarrow> n \<notin> hot_numbers t"
  by (cases "n \<in> hot_numbers t") (auto elim!: hot_entry simp: hot_bytes_def hot_numbers_def)

lemma hot_read_block_eq:
  assumes "invar db" "hot_ok C (view db)"
  shows "hot_read_block R C db n = Inr (hot_bytes C (view db) n)"
proof (cases "n \<in> hot_numbers (view db)")
  case True
  then show ?thesis
    using assms by (auto elim!: hot_entry simp: hot_read_block_def get_ok res_simps)
next
  case False
  then show ?thesis
    using assms by (simp add: hot_read_block_def get_ok res_simps hot_numbers_def hot_bytes_def)
qed

lemma all_present_eq:
  "invar db \<Longrightarrow> all_present R db ns = Inr (set ns \<subseteq> hot_numbers (view db))"
  by (induction ns) (auto simp: get_ok res_simps hot_numbers_def)

lemma is_batch_complete_eq:
  "invar db \<Longrightarrow> is_batch_complete R db start count = Inr (set (block_range start count) \<subseteq> hot_numbers (view db))"
  by (simp add: is_batch_complete_def all_present_eq res_simps)

lemma read_blocks_eq:
  assumes "invar db" "hot_ok C (view db)" "set ns \<subseteq> hot_numbers (view db)"
  shows "\<exists>bs. read_blocks R C db ns = Inr bs \<and>
    list_all2 (\<lambda>n b. hot_bytes C (view db) n = Some (encode_to_vec C b) \<and> get_block_number b = Inr n) ns bs"
  using assms(3)
proof (induction ns)
  case (Cons n ns)
  then obtain bs where bs: "read_blocks R C db ns = Inr bs"
    "list_all2 (\<lambda>n b. hot_bytes C (view db) n = Some (encode_to_vec C b) \<and> get_block_number b = Inr n) ns bs"
    by auto
  obtain b where b: "hot_bytes C (view db) n = Some (encode_to_vec C b)" "get_block_number b = Inr n"
    using Cons.prems hot_entry [OF assms(2), of n] by (metis list.set_intros(1) subsetD)
  show ?case
    using bs b assms by (intro exI [of _ "b # bs"]) (simp add: hot_read_block_eq decode_encode res_simps)
qed simp

lemma add_block_to_batch_eq:
  assumes "invar db"
  obtains v where "add_block_to_batch R C db b n batch = Inr (batch @ [PutCf CF_HOT_BLOCKS (u64_to_be n) v])"
    "bincode_serialize C (encode_to_vec C b) = Inr v"
proof -
  obtain v where "bincode_serialize C (encode_to_vec C b) = Inr v" using serialize_ok by blast
  then show ?thesis
    using assms by (intro that) (simp_all add: add_block_to_batch_def encode_ok res_simps)
qed

end

interpretation refp: persist_laws ref_rocksdb ref_view ref_invar ref_codec
  by unfold_locales

lemma hot_table_cong:
  assumes "t CF_HOT_BLOCKS = t' CF_HOT_BLOCKS"
  shows "hot_ok C t = hot_ok C t'" "hot_bytes C t = hot_bytes C t'" "hot_numbers t = hot_numbers t'"
  using assms by (simp_all add: hot_ok_def hot_bytes_def hot_numbers_def fun_eq_iff)

lemma hot_put:
  assumes "t' CF_HOT_BLOCKS = (t CF_HOT_BLOCKS)(u64_to_be n \<mapsto> v)"
  shows "hot_numbers t' = insert n (hot_numbers t)"
    and "m \<noteq> n \<Longrightarrow> hot_bytes C t' m = hot_bytes C t m"
    and "bincode_deserialize C v = Inr bs \<Longrightarrow> hot_bytes C t' n = Some bs"
    and "hot_ok C t \<Longrightarrow> bincode_serialize C (encode_to_vec C b) = Inr v \<Longrightarrow> get_block_number b = Inr n \<Longrightarrow> hot_ok C t'"
  using assms by (auto simp: hot_numbers_def hot_bytes_def hot_ok_def)

lemma fold_table_delete:
  "fold table_op (map (\<lambda>n. DeleteCf c (u64_to_be n)) ns) t k =
     (if k \<in> u64_to_be ` set ns then None else t k)"
  by (induction ns arbitrary: t) auto

lemma hot_delete:
  assumes "t' CF_HOT_BLOCKS = fold table_op (map (\<lambda>n. DeleteCf c (u64_to_be n)) ns) (t CF_HOT_BLOCKS)"
  shows "hot_numbers t' = hot_numbers t - set ns"
    and "hot_bytes C t' m = (if m \<in> set ns then None else hot_bytes C t m)"
    and "hot_ok C t \<Longrightarrow> hot_ok C t'"
  using assms by (auto simp: hot_numbers_def hot_bytes_def hot_ok_def fold_table_delete image_iff split: if_splits)

end
