(* ===== verification/Cold_Storage.thy ===== *)
theory Cold_Storage
  imports Disk Hot_Tier
begin

text \<open>
  The cold tier: the archive writer (\<^verbatim>\<open>persistence-plugin/src/cold_storage/writer.rs\<close>) and the
  indexed reader (\<^verbatim>\<open>cold_storage/reader.rs\<close>). An archive is a data file of compressed blocks and an
  index file of fixed-size records; the reader keeps the contents of the index files it has mapped,
  one per first block. The second half shows that what the writer writes is what the reader reads,
  and that an archive becomes visible only when it is complete.
\<close>

section \<open>Writer\<close>

record index_record =
  ir_block_number :: u64
  ir_offset :: u64
  ir_length :: u32

text \<open>A record in the packed layout of the file, all fields big-endian.\<close>

definition record_bytes :: "index_record \<Rightarrow> bytes" where
  "record_bytes r = u64_to_be (ir_block_number r) @ u64_to_be (ir_offset r) @ u32_to_be (ir_length r)"

text \<open>
  The files are written through a buffer, which may pass on several records at once or part of one. Here
  every record is passed on by itself; the files are temporary until they are renamed.
\<close>

fun write_records :: "codec \<Rightarrow> path \<Rightarrow> path \<Rightarrow> block list \<Rightarrow> u64 \<Rightarrow> unit io" where
  "write_records C data_file index_file [] current_offset = io_return ()"
| "write_records C data_file index_file (b # bs) current_offset =
     io_bind (io_res (get_block_number b)) (\<lambda>n.
     io_bind (io_res (zstd_encode_all C (encode_to_vec C b))) (\<lambda>compressed_bytes.
     let len = of_nat (length compressed_bytes) :: u32 in
     io_bind (append_file data_file compressed_bytes) (\<lambda>_.
     io_bind (append_file index_file
       (record_bytes \<lparr>ir_block_number = n, ir_offset = current_offset, ir_length = len\<rparr>)) (\<lambda>_.
     write_records C data_file index_file bs (current_offset + ucast len)))))"

definition write_temp_files :: "codec \<Rightarrow> block list \<Rightarrow> path \<Rightarrow> path \<Rightarrow> unit io" where
  "write_temp_files C blocks temp_data_path temp_index_path =
     io_bind (open_truncate temp_data_path) (\<lambda>_.
     io_bind (open_truncate temp_index_path) (\<lambda>_.
     io_bind (write_records C temp_data_path temp_index_path blocks 0) (\<lambda>_.
     io_bind (sync_file temp_data_path) (\<lambda>_.
     sync_file temp_index_path))))"

definition archive_stem :: "u64 \<Rightarrow> u64 \<Rightarrow> string" where
  "archive_stem first_num last_num = ''blocks-'' @ pad10 first_num @ ''-'' @ pad10 last_num"

definition write_archive :: "codec \<Rightarrow> persistence_config \<Rightarrow> block list \<Rightarrow> path io" where
  "write_archive C cfg blocks =
     (if blocks = [] then io_res (Inl EmptyArchive)
      else
       io_bind (io_res (get_block_number (hd blocks))) (\<lambda>first_num.
       io_bind (io_res (get_block_number (last blocks))) (\<lambda>last_num.
       let base = cold_storage_path cfg;
           data_filename = archive_stem first_num last_num @ ''.rba'';
           index_filename = archive_stem first_num last_num @ ''.rbi'';
           temp_data_path = (base, data_filename @ ''.tmp'');
           temp_index_path = (base, index_filename @ ''.tmp'')
       in
       io_bind (create_dir_all base) (\<lambda>_.
       io_bind (write_temp_files C blocks temp_data_path temp_index_path) (\<lambda>_.
       io_bind (rename_file temp_data_path (base, data_filename)) (\<lambda>_.
       io_bind (rename_file temp_index_path (base, index_filename)) (\<lambda>_.
       io_return (base, index_filename))))))))"

section \<open>Reader\<close>

record mapped_index =
  mmap :: bytes
  start_block :: u64
  end_block :: u64
  data_path :: path

text \<open>The concurrent map from the first block of an archive to its mapped index.\<close>

type_synonym indices = "(u64 \<times> mapped_index) list"

definition index_insert :: "u64 \<Rightarrow> mapped_index \<Rightarrow> indices \<Rightarrow> indices" where
  "index_insert k m idx = (k, m) # filter (\<lambda>p. fst p \<noteq> k) idx"

abbreviation RECORD_SIZE :: nat where
  "RECORD_SIZE \<equiv> 20"

definition parse_record :: "bytes \<Rightarrow> index_record" where
  "parse_record bs = \<lparr>
     ir_block_number = the (u64_from_be (take 8 bs)),
     ir_offset = the (u64_from_be (take 8 (drop 8 bs))),
     ir_length = the (u32_from_be (drop 16 bs))\<rparr>"

text \<open>
  The record of a block, found by its position. Both bounds of a mapped index come from ten-digit
  numbers, so the \<^verbatim>\<open>usize\<close> arithmetic does not overflow.
\<close>

definition get_record :: "mapped_index \<Rightarrow> u64 \<Rightarrow> index_record option" where
  "get_record m n =
     (if \<not> (start_block m \<le> n \<and> n \<le> end_block m) then None
      else
        let offset = unat (n - start_block m) * RECORD_SIZE
        in if length (mmap m) < offset + RECORD_SIZE then None
           else Some (parse_record (take RECORD_SIZE (drop offset (mmap m)))))"

definition parse_block_range :: "codec \<Rightarrow> path \<Rightarrow> (u64 \<times> u64) option" where
  "parse_block_range C p =
     (case filename_re C (snd p) of
        None \<Rightarrow> None
      | Some (a, b) \<Rightarrow>
          (case parse_dec a of
             None \<Rightarrow> None
           | Some start \<Rightarrow> map_option (\<lambda>end. (start, end)) (parse_dec b)))"

definition load_index_file :: "codec \<Rightarrow> path \<Rightarrow> indices \<Rightarrow> indices io" where
  "load_index_file C index_path idx d =
     (case parse_block_range C index_path of
        None \<Rightarrow> (Inl BadIndexName, d)
      | Some (start, end) \<Rightarrow>
          let data = with_extension index_path ''rba''
          in if \<not> file_exists d data then (Inl DataFileMissing, d)
             else io_bind (read_file index_path) (\<lambda>bs.
               io_return (index_insert start
                 \<lparr>mmap = bs, start_block = start, end_block = end, data_path = data\<rparr> idx)) d)"

text \<open>
  The scan visits the directory entries in the order the system lists them; an index file that
  cannot be loaded is skipped.
\<close>

fun load_all :: "codec \<Rightarrow> path list \<Rightarrow> indices \<Rightarrow> indices io" where
  "load_all C [] idx d = (Inr idx, d)"
| "load_all C (p # ps) idx d =
     (if file_exists d p \<and> extension p = Some ''rbi''
      then (case load_index_file C p idx d of
              (Inl e, d') \<Rightarrow> load_all C ps idx d'
            | (Inr idx', d') \<Rightarrow> load_all C ps idx' d')
      else load_all C ps idx d)"

definition scan_and_build_index ::
    "codec \<Rightarrow> persistence_config \<Rightarrow> path list res \<Rightarrow> indices \<Rightarrow> indices io" where
  "scan_and_build_index C cfg read_dir idx d =
     (if cold_storage_path cfg \<notin> dirs d then (Inr idx, d)
      else (case read_dir of Inl e \<Rightarrow> (Inl e, d) | Inr entries \<Rightarrow> load_all C entries idx d))"

definition get_earliest_indexed_block :: "indices \<Rightarrow> u64 option res" where
  "get_earliest_indexed_block idx = Inr (if idx = [] then None else Some (Min (set (map fst idx))))"

text \<open>The chunk with the greatest first block up to \<open>n\<close>.\<close>

definition find_chunk :: "indices \<Rightarrow> u64 \<Rightarrow> mapped_index option" where
  "find_chunk idx n =
     (let ks = filter (\<lambda>k. k \<le> n) (map fst idx)
      in if ks = [] then None else map_of idx (Max (set ks)))"

definition cold_read_block :: "codec \<Rightarrow> indices \<Rightarrow> u64 \<Rightarrow> bytes option io" where
  "cold_read_block C idx n =
     (case find_chunk idx n of
        None \<Rightarrow> io_return None
      | Some m \<Rightarrow>
          (case get_record m n of
             None \<Rightarrow> io_return None
           | Some r \<Rightarrow>
               io_bind (read_exact_at (data_path m) (unat (ir_offset r)) (unat (ir_length r))) (\<lambda>compressed_bytes.
               io_bind (io_res (zstd_decode_all C compressed_bytes)) (\<lambda>decompressed.
               io_return (Some decompressed)))))"

section \<open>The layout of an archive\<close>

text \<open>The compressed form of a block, and the index of a list of numbered compressed blocks.\<close>

definition compressed :: "codec \<Rightarrow> block \<Rightarrow> bytes" where
  "compressed C b = (case zstd_encode_all C (encode_to_vec C b) of Inl _ \<Rightarrow> [] | Inr bs \<Rightarrow> bs)"

definition entry :: "codec \<Rightarrow> block \<Rightarrow> u64 \<times> bytes" where
  "entry C b = (case get_block_number b of Inl _ \<Rightarrow> 0 | Inr n \<Rightarrow> n, compressed C b)"

fun index_bytes :: "(u64 \<times> bytes) list \<Rightarrow> u64 \<Rightarrow> bytes" where
  "index_bytes [] off = []"
| "index_bytes ((n, c) # xs) off =
     record_bytes \<lparr>ir_block_number = n, ir_offset = off, ir_length = of_nat (length c)\<rparr> @
     index_bytes xs (off + ucast (of_nat (length c) :: u32))"

lemma snd_entry [simp]: "snd (entry C b) = compressed C b" "snd \<circ> entry C = compressed C"
  by (simp_all add: entry_def fun_eq_iff)

lemma length_record_bytes [simp]: "length (record_bytes r) = 20"
  by (simp add: record_bytes_def)

lemma parse_record_bytes [simp]: "parse_record (record_bytes r) = r"
  by (cases r) (simp add: parse_record_def record_bytes_def)

lemma length_index_bytes: "length (index_bytes xs off) = 20 * length xs"
  by (induction xs off rule: index_bytes.induct) simp_all

definition fits :: "(u64 \<times> bytes) list \<Rightarrow> bool" where
  "fits xs \<longleftrightarrow> (\<forall>x \<in> set xs. length (snd x) < 2 ^ 32) \<and> length (concat (map snd xs)) < 2 ^ 64"

lemma ucast_length: "n < 2 ^ 32 \<Longrightarrow> ucast (of_nat n :: u32) = (of_nat n :: u64)"
  by (simp add: word_unat_eq_iff unsigned_ucast_eq unsigned_of_nat take_bit_nat_eq_self)

text \<open>The record at a position tells where the block starts in the data file.\<close>

lemma index_bytes_nth:
  assumes "\<forall>x \<in> set xs. length (snd x) < 2 ^ 32" and "i < length xs"
  shows "take 20 (drop (20 * i) (index_bytes xs off)) =
    record_bytes \<lparr>ir_block_number = fst (xs ! i),
      ir_offset = off + of_nat (length (concat (map snd (take i xs)))),
      ir_length = of_nat (length (snd (xs ! i)))\<rparr>"
  using assms
proof (induction xs off arbitrary: i rule: index_bytes.induct)
  case (2 n c xs off)
  show ?case
  proof (cases i)
    case 0
    then show ?thesis by simp
  next
    case (Suc j)
    have c: "ucast (of_nat (length c) :: u32) = (of_nat (length c) :: u64)"
      using 2(2) by (intro ucast_length) simp
    have "take 20 (drop (20 * j) (index_bytes xs (off + ucast (of_nat (length c) :: u32)))) =
      record_bytes \<lparr>ir_block_number = fst (xs ! j),
        ir_offset = off + ucast (of_nat (length c) :: u32) + of_nat (length (concat (map snd (take j xs)))),
        ir_length = of_nat (length (snd (xs ! j)))\<rparr>"
      by (rule 2(1)) (use 2(2,3) Suc in auto)
    then show ?thesis by (simp add: Suc c add.assoc)
  qed
qed simp

lemma concat_slice:
  assumes "i < length xs"
  shows "take (length (xs ! i)) (drop (length (concat (take i xs))) (concat xs)) = xs ! i"
    and "length (concat (take i xs)) + length (xs ! i) \<le> length (concat xs)"
proof -
  have "concat xs = concat (take i xs) @ xs ! i @ concat (drop (Suc i) xs)"
    using assms by (metis concat.simps(2) concat_append id_take_nth_drop)
  then show "take (length (xs ! i)) (drop (length (concat (take i xs))) (concat xs)) = xs ! i"
    and "length (concat (take i xs)) + length (xs ! i) \<le> length (concat xs)" by simp_all
qed

section \<open>Reading an archive\<close>

definition consecutive :: "u64 \<Rightarrow> block list \<Rightarrow> bool" where
  "consecutive first bs \<longleftrightarrow> (\<forall>i < length bs. get_block_number (bs ! i) = Inr (first + of_nat i))"

text \<open>A mapped index describes the archive of the consecutive blocks \<open>bs\<close>.\<close>

definition archived :: "codec \<Rightarrow> disk \<Rightarrow> mapped_index \<Rightarrow> block list \<Rightarrow> bool" where
  "archived C d m bs \<longleftrightarrow>
     start_block m \<le> end_block m \<and> length bs = unat (end_block m - start_block m) + 1 \<and>
     consecutive (start_block m) bs \<and>
     fits (map (entry C) bs) \<and> mmap m = index_bytes (map (entry C) bs) 0 \<and>
     files d (data_path m) = Some (concat (map (compressed C) bs))"

lemma get_record_archived:
  assumes ar: "archived C d m bs" and n: "start_block m \<le> n" "n \<le> end_block m"
  defines "i \<equiv> unat (n - start_block m)"
  shows "i < length bs" and "get_record m n = Some \<lparr>ir_block_number = fst (entry C (bs ! i)),
      ir_offset = of_nat (length (concat (map (compressed C) (take i bs)))),
      ir_length = of_nat (length (compressed C (bs ! i)))\<rparr>"
proof -
  have "start_block m \<le> end_block m" using n by (rule order_trans)
  then show i: "i < length bs" using ar n by (simp add: archived_def i_def unat_sub word_le_nat_alt)
  have "take 20 (drop (20 * i) (mmap m)) = record_bytes \<lparr>ir_block_number = fst (entry C (bs ! i)),
      ir_offset = of_nat (length (concat (map (compressed C) (take i bs)))),
      ir_length = of_nat (length (compressed C (bs ! i)))\<rparr>"
    using index_bytes_nth [of "map (entry C) bs" i 0] ar i
    by (simp add: archived_def fits_def take_map)
  moreover have "length (mmap m) = 20 * length bs" using ar by (simp add: archived_def length_index_bytes)
  ultimately show "get_record m n = Some \<lparr>ir_block_number = fst (entry C (bs ! i)),
      ir_offset = of_nat (length (concat (map (compressed C) (take i bs)))),
      ir_length = of_nat (length (compressed C (bs ! i)))\<rparr>"
    using n i by (simp add: get_record_def Let_def i_def mult.commute)
qed

context codec_laws
begin

lemma zstd_compressed: "zstd_encode_all C (encode_to_vec C b) = Inr (compressed C b)"
  using compress_ok [of "encode_to_vec C b"] by (auto simp: compressed_def)

lemma zstd_decompressed: "zstd_decode_all C (compressed C b) = Inr (encode_to_vec C b)"
  by (rule decompress_compress [OF zstd_compressed])

lemma cold_read_archived:
  assumes ar: "archived C d m bs" and n: "start_block m \<le> n" "n \<le> end_block m"
    and chunk: "find_chunk idx n = Some m" and d: "faults d = []"
  shows "cold_read_block C idx n d = (Inr (Some (encode_to_vec C (bs ! unat (n - start_block m)))), d)"
proof -
  let ?i = "unat (n - start_block m)"
  let ?cs = "map (compressed C) bs"
  note rec = get_record_archived [OF ar n]
  have fits: "length (?cs ! ?i) < 2 ^ 32" "length (concat ?cs) < 2 ^ 64"
    using ar rec(1) by (auto simp: archived_def fits_def)
  have slice: "length (concat (take ?i ?cs)) + length (?cs ! ?i) \<le> length (concat ?cs)"
    using concat_slice(2) [of ?i ?cs] rec(1) by simp
  have off: "unat (of_nat (length (concat (take ?i ?cs))) :: u64) = length (concat (take ?i ?cs))"
    using fits(2) slice by (simp add: unsigned_of_nat take_bit_nat_eq_self)
  have len: "unat (of_nat (length (?cs ! ?i)) :: u32) = length (?cs ! ?i)"
    using fits(1) by (simp add: unsigned_of_nat take_bit_nat_eq_self)
  have data: "files d (data_path m) = Some (concat ?cs)" using ar by (simp add: archived_def)
  have "read_exact_at (data_path m) (length (concat (take ?i ?cs))) (length (?cs ! ?i)) d = (Inr (?cs ! ?i), d)"
    using read_exact_at_ok [OF d data slice] concat_slice(1) [of ?i ?cs] rec(1) by simp
  then show ?thesis
    using off len rec by (simp add: cold_read_block_def chunk io_bind_def take_map zstd_decompressed)
qed

lemma write_records_Inr:
  assumes "write_records C dp ip bs off d = (Inr u, d')" and "dp \<noteq> ip"
    and "files d dp = Some D" and "files d ip = Some I"
  shows "files d' = (files d)(dp \<mapsto> D @ concat (map (compressed C) bs),
      ip \<mapsto> I @ index_bytes (map (entry C) bs) off)"
  using assms
proof (induction bs arbitrary: off d D I)
  case Nil
  then show ?case by (auto simp: fun_eq_iff)
next
  case (Cons b bs)
  let ?len = "of_nat (length (compressed C b)) :: u32"
  from Cons.prems(1) obtain n d1 d2 where n: "get_block_number b = Inr n"
    and d1: "append_file dp (compressed C b) d = (Inr (), d1)"
    and d2: "append_file ip (record_bytes \<lparr>ir_block_number = n, ir_offset = off, ir_length = ?len\<rparr>) d1 = (Inr (), d2)"
    and rest: "write_records C dp ip bs (off + ucast ?len) d2 = (Inr u, d')"
    by (auto simp: io_bind_Inr Let_def zstd_compressed)
  have d2': "files d2 = (files d)(dp \<mapsto> D @ compressed C b,
      ip \<mapsto> I @ record_bytes \<lparr>ir_block_number = n, ir_offset = off, ir_length = ?len\<rparr>)"
    using io_files(3) [OF d1] io_files(3) [OF d2] Cons.prems by simp
  then have f: "files d2 dp = Some (D @ compressed C b)" "files d2 ip =
      Some (I @ record_bytes \<lparr>ir_block_number = n, ir_offset = off, ir_length = ?len\<rparr>)"
    using Cons.prems(2) by simp_all
  show ?case
    unfolding Cons.IH [OF rest Cons.prems(2) f] d2'
    using Cons.prems(2) by (simp add: entry_def [of C b] n fun_eq_iff)
qed

lemma write_records_fault_free:
  "faults d = [] \<Longrightarrow> \<forall>b \<in> set bs. \<exists>n. get_block_number b = Inr n \<Longrightarrow> fault_free (write_records C dp ip bs off) d"
proof (induction bs arbitrary: off d)
  case (Cons b bs)
  then obtain n where n: "get_block_number b = Inr n" by auto
  show ?case
    using Cons by (auto simp: n zstd_compressed Let_def intro!: fault_free_bind)
qed simp

end

definition data_path_of :: "persistence_config \<Rightarrow> u64 \<Rightarrow> u64 \<Rightarrow> path" where
  "data_path_of cfg a b = (cold_storage_path cfg, archive_stem a b @ ''.rba'')"

definition index_path_of :: "persistence_config \<Rightarrow> u64 \<Rightarrow> u64 \<Rightarrow> path" where
  "index_path_of cfg a b = (cold_storage_path cfg, archive_stem a b @ ''.rbi'')"

definition temp_path :: "path \<Rightarrow> path" where
  "temp_path p = (fst p, snd p @ ''.tmp'')"

lemma archive_paths_distinct [simp]:
  "data_path_of cfg a b \<noteq> index_path_of cfg a b" "index_path_of cfg a b \<noteq> data_path_of cfg a b"
  "temp_path (data_path_of cfg a b) \<noteq> data_path_of cfg a b" "data_path_of cfg a b \<noteq> temp_path (data_path_of cfg a b)"
  "temp_path (data_path_of cfg a b) \<noteq> index_path_of cfg a b" "index_path_of cfg a b \<noteq> temp_path (data_path_of cfg a b)"
  "temp_path (index_path_of cfg a b) \<noteq> data_path_of cfg a b" "data_path_of cfg a b \<noteq> temp_path (index_path_of cfg a b)"
  "temp_path (index_path_of cfg a b) \<noteq> index_path_of cfg a b" "index_path_of cfg a b \<noteq> temp_path (index_path_of cfg a b)"
  "temp_path (index_path_of cfg a b) \<noteq> temp_path (data_path_of cfg a b)"
  "temp_path (data_path_of cfg a b) \<noteq> temp_path (index_path_of cfg a b)"
  by (simp_all add: data_path_of_def index_path_of_def temp_path_def)

lemma write_archive_eq:
  assumes "blocks \<noteq> []" and "get_block_number (hd blocks) = Inr a" and "get_block_number (last blocks) = Inr b"
  shows "write_archive C cfg blocks =
    io_bind (create_dir_all (cold_storage_path cfg)) (\<lambda>_.
    io_bind (write_temp_files C blocks (temp_path (data_path_of cfg a b)) (temp_path (index_path_of cfg a b))) (\<lambda>_.
    io_bind (rename_file (temp_path (data_path_of cfg a b)) (data_path_of cfg a b)) (\<lambda>_.
    io_bind (rename_file (temp_path (index_path_of cfg a b)) (index_path_of cfg a b)) (\<lambda>_.
    io_return (index_path_of cfg a b)))))"
  using assms
  by (simp add: write_archive_def Let_def data_path_of_def index_path_of_def temp_path_def fun_eq_iff)

context codec_laws
begin

lemma write_temp_files_Inr:
  assumes "write_temp_files C bs dp ip d = (Inr u, d')" and "dp \<noteq> ip"
  shows "files d' = (files d)(dp \<mapsto> concat (map (compressed C) bs), ip \<mapsto> index_bytes (map (entry C) bs) 0)"
proof -
  from assms(1) obtain d1 d2 d3 d4 where s: "open_truncate dp d = (Inr (), d1)" "open_truncate ip d1 = (Inr (), d2)"
    "write_records C dp ip bs 0 d2 = (Inr (), d3)" "sync_file dp d3 = (Inr (), d4)" "sync_file ip d4 = (Inr u, d')"
    by (auto simp: write_temp_files_def io_bind_Inr)
  have d2: "files d2 = (files d)(dp \<mapsto> [], ip \<mapsto> [])" using io_files(2) [OF s(1)] io_files(2) [OF s(2)] by simp
  have "files d' = files d3" using io_files(4) [OF s(4)] io_files(4) [OF s(5)] by simp
  also have "\<dots> = (files d2)(dp \<mapsto> concat (map (compressed C) bs), ip \<mapsto> index_bytes (map (entry C) bs) 0)"
    using write_records_Inr [OF s(3) assms(2), of "[]" "[]"] d2 assms(2) by simp
  finally show ?thesis using assms(2) by (simp add: d2 fun_upd_twist)
qed

text \<open>What a successful write leaves on disk.\<close>

lemma write_archive_Inr:
  assumes w: "write_archive C cfg bs d = (Inr p, d')"
    and bs: "bs \<noteq> []" "get_block_number (hd bs) = Inr a" "get_block_number (last bs) = Inr b"
  shows "p = index_path_of cfg a b"
    and "files d' = (files d)(temp_path (data_path_of cfg a b) := None, temp_path (index_path_of cfg a b) := None,
      data_path_of cfg a b \<mapsto> concat (map (compressed C) bs),
      index_path_of cfg a b \<mapsto> index_bytes (map (entry C) bs) 0)"
proof -
  let ?dp = "data_path_of cfg a b" and ?ip = "index_path_of cfg a b"
  from w obtain d1 d2 d3 d4 where s: "create_dir_all (cold_storage_path cfg) d = (Inr (), d1)"
    "write_temp_files C bs (temp_path ?dp) (temp_path ?ip) d1 = (Inr (), d2)"
    "rename_file (temp_path ?dp) ?dp d2 = (Inr (), d3)" "rename_file (temp_path ?ip) ?ip d3 = (Inr (), d4)"
    "p = ?ip" "d' = d4"
    by (auto simp: write_archive_eq [OF bs] io_bind_Inr)
  have d2: "files d2 = (files d)(temp_path ?dp \<mapsto> concat (map (compressed C) bs),
      temp_path ?ip \<mapsto> index_bytes (map (entry C) bs) 0)"
    using write_temp_files_Inr [OF s(2)] io_files(1) [OF s(1)] by simp
  have d3: "files d3 = (files d2)(temp_path ?dp := None, ?dp \<mapsto> concat (map (compressed C) bs))"
    using io_files(5) [OF s(3)] d2 by simp
  have d4: "files d4 = (files d3)(temp_path ?ip := None, ?ip \<mapsto> index_bytes (map (entry C) bs) 0)"
    using io_files(5) [OF s(4)] d2 d3 by simp
  show "files d' = (files d)(temp_path ?dp := None, temp_path ?ip := None,
      ?dp \<mapsto> concat (map (compressed C) bs), ?ip \<mapsto> index_bytes (map (entry C) bs) 0)"
    unfolding s(6) d4 d3 d2 by (rule ext) simp
qed (use w in \<open>auto simp: write_archive_eq [OF bs] io_bind_Inr\<close>)

lemma write_archive_fault_free:
  assumes "faults d = []" and "bs \<noteq> []" and "\<forall>b \<in> set bs. \<exists>n. get_block_number b = Inr n"
  shows "fault_free (write_archive C cfg bs) d"
proof -
  obtain a b where n: "get_block_number (hd bs) = Inr a" "get_block_number (last bs) = Inr b"
    using assms by (meson hd_in_set last_in_set)
  have temp: "fault_free (write_temp_files C bs dp ip) d'" if "faults d' = []" for dp ip d'
    using that assms(3) unfolding write_temp_files_def by (auto intro!: fault_free_bind write_records_fault_free)
  show ?thesis
    unfolding write_archive_eq [OF assms(2) n]
    by (intro fault_free_bind temp fault_free_basic assms(1); (assumption | drule write_temp_files_Inr | drule io_files(5))?)
      (auto dest!: write_temp_files_Inr io_files(5))
qed

end

section \<open>The set of archives\<close>

lemma pad10_no_dash: "CHR ''-'' \<notin> set (pad10 n)"
proof
  assume "CHR ''-'' \<in> set (pad10 n)"
  moreover have "set (pad10 n) \<subseteq> set ascii_digits"
    using show_dec_digits [of "unat n"] by (auto simp: pad10_def Let_def ascii_digits_def)
  ultimately show False by (auto simp: ascii_digits_def)
qed

lemma archive_stem_inject: "archive_stem a b @ ext = archive_stem a' b' @ ext' \<Longrightarrow> a = a'"
proof -
  assume eq: "archive_stem a b @ ext = archive_stem a' b' @ ext'"
  have first: "takeWhile (\<lambda>c. c \<noteq> CHR ''-'') (drop 7 (archive_stem a b @ ext)) = pad10 a" for a b ext
    using pad10_no_dash [of a] by (auto simp: archive_stem_def takeWhile_append)
  have "pad10 a = pad10 a'" using eq first by metis
  then show ?thesis using parse_dec_pad10 by (metis option.inject)
qed

lemma archive_path_other:
  assumes "a \<noteq> a'"
  shows "data_path_of cfg a b \<noteq> data_path_of cfg' a' b'" "data_path_of cfg a b \<noteq> index_path_of cfg' a' b'"
    "data_path_of cfg a b \<noteq> temp_path (data_path_of cfg' a' b')" "data_path_of cfg a b \<noteq> temp_path (index_path_of cfg' a' b')"
  using assms archive_stem_inject [of a b "[]" a' b' "[]"]
  by (auto simp: data_path_of_def index_path_of_def temp_path_def dest: archive_stem_inject)

definition cold_ok :: "codec \<Rightarrow> persistence_config \<Rightarrow> disk \<Rightarrow> indices \<Rightarrow> bool" where
  "cold_ok C cfg d idx \<longleftrightarrow>
     distinct (map fst idx) \<and>
     (\<forall>(k, m) \<in> set idx. k = start_block m \<and> data_path m = data_path_of cfg (start_block m) (end_block m) \<and>
        (\<exists>bs. archived C d m bs)) \<and>
     (\<forall>(k, m) \<in> set idx. \<forall>(k', m') \<in> set idx. k < k' \<longrightarrow> end_block m < k')"

definition cold_numbers :: "indices \<Rightarrow> u64 set" where
  "cold_numbers idx = (\<Union>(k, m) \<in> set idx. {start_block m..end_block m})"

text \<open>What reading without faults returns.\<close>

definition cold_bytes :: "codec \<Rightarrow> disk \<Rightarrow> indices \<Rightarrow> u64 \<Rightarrow> bytes option" where
  "cold_bytes C d idx n =
     (case cold_read_block C idx n (d\<lparr>faults := []\<rparr>) of (Inl _, _) \<Rightarrow> None | (Inr v, _) \<Rightarrow> v)"

lemma cold_okD:
  assumes "cold_ok C cfg d idx" and "(k, m) \<in> set idx"
  shows "k = start_block m" "data_path m = data_path_of cfg (start_block m) (end_block m)"
    "\<exists>bs. archived C d m bs" "(k', m') \<in> set idx \<Longrightarrow> k < k' \<Longrightarrow> end_block m < k'"
  using assms by (fastforce simp: cold_ok_def)+

lemma cold_ok_Cons:
  assumes "cold_ok C cfg d idx" and "k \<notin> fst ` set idx" and "k = start_block m"
    and "data_path m = data_path_of cfg (start_block m) (end_block m)" and "archived C d m bs"
    and "\<And>k' m'. (k', m') \<in> set idx \<Longrightarrow> k' < k \<Longrightarrow> end_block m' < k"
    and "\<And>k' m'. (k', m') \<in> set idx \<Longrightarrow> k < k' \<Longrightarrow> end_block m < k'"
  shows "cold_ok C cfg d ((k, m) # idx)"
proof -
  have "\<forall>(i, x) \<in> set ((k, m) # idx). \<forall>(j, y) \<in> set ((k, m) # idx). i < j \<longrightarrow> end_block x < j"
    using assms(6,7) cold_okD(4) [OF assms(1)] by (simp split: prod.splits) blast
  moreover have "\<forall>(i, x) \<in> set ((k, m) # idx). i = start_block x \<and>
      data_path x = data_path_of cfg (start_block x) (end_block x) \<and> (\<exists>bs. archived C d x bs)"
    using assms(3-5) cold_okD(1-3) [OF assms(1)] by auto
  ultimately show ?thesis using assms(1,2) unfolding cold_ok_def by (simp only: distinct.simps list.map fst_conv set_map) simp
qed

lemma find_chunk_mem: "find_chunk idx n = Some m \<Longrightarrow> \<exists>k. (k, m) \<in> set idx \<and> k \<le> n"
proof -
  assume f: "find_chunk idx n = Some m"
  let ?ks = "filter (\<lambda>k. k \<le> n) (map fst idx)"
  have ne: "?ks \<noteq> []" and m: "map_of idx (Max (set ?ks)) = Some m"
    using f by (auto simp: find_chunk_def Let_def split: if_splits)
  have "Max (set ?ks) \<in> set ?ks" using ne by (intro Max_in) (simp_all only: finite_set set_empty not_False_eq_True)
  with map_of_SomeD [OF m] show ?thesis by (auto intro: exI [of _ "Max (set ?ks)"])
qed

lemma find_chunk_hit:
  assumes ok: "cold_ok C cfg d idx" and m: "(k, m) \<in> set idx" and n: "start_block m \<le> n" "n \<le> end_block m"
  shows "find_chunk idx n = Some m"
proof -
  let ?ks = "filter (\<lambda>k. k \<le> n) (map fst idx)"
  note km = cold_okD [OF ok m]
  have "\<not> k < k'" if "k' \<in> set ?ks" for k'
  proof
    assume "k < k'"
    have "k' \<in> fst ` set idx" "k' \<le> n" using that by simp_all
    then obtain m' where "(k', m') \<in> set idx" by (auto simp: image_iff)
    with km(4) \<open>k < k'\<close> \<open>k' \<le> n\<close> n show False by (meson less_le_trans less_irrefl order_trans)
  qed
  moreover have k: "k \<in> set ?ks" using m n km(1) by force
  ultimately have "Max (set ?ks) = k" by (intro Max_eqI) (auto simp: not_less)
  moreover have "map_of idx k = Some m" using ok m by (simp add: cold_ok_def)
  moreover have "?ks \<noteq> []" using k by (metis empty_iff list.set(1))
  ultimately show ?thesis by (simp only: find_chunk_def Let_def if_False)
qed

context codec_laws
begin

lemma archived_faults [simp]: "archived C (d\<lparr>faults := r\<rparr>) m bs = archived C d m bs"
  by (simp add: archived_def)

lemma cold_read_hit:
  assumes "cold_ok C cfg d idx" and "(k, m) \<in> set idx" and "archived C d m bs"
    and "start_block m \<le> n" "n \<le> end_block m"
  shows "cold_bytes C d idx n = Some (encode_to_vec C (bs ! unat (n - start_block m)))"
    and "faults d = [] \<Longrightarrow> cold_read_block C idx n d = (Inr (cold_bytes C d idx n), d)"
proof -
  note hit = cold_read_archived [OF _ assms(4,5) find_chunk_hit [OF assms(1,2,4,5)]]
  show *: "cold_bytes C d idx n = Some (encode_to_vec C (bs ! unat (n - start_block m)))"
    using hit [of "d\<lparr>faults := []\<rparr>" bs] assms(3) by (simp add: cold_bytes_def)
  show "faults d = [] \<Longrightarrow> cold_read_block C idx n d = (Inr (cold_bytes C d idx n), d)"
    using hit [of d bs] assms(3) by (simp add: *)
qed

lemma cold_read_miss:
  assumes "cold_ok C cfg d idx" and "n \<notin> cold_numbers idx"
  shows "cold_read_block C idx n d' = (Inr None, d')" and "cold_bytes C d idx n = None"
proof -
  show *: "cold_read_block C idx n d' = (Inr None, d')" for d'
  proof (cases "find_chunk idx n")
    case (Some m)
    then obtain k where "(k, m) \<in> set idx" using find_chunk_mem by blast
    then have "\<not> (start_block m \<le> n \<and> n \<le> end_block m)" using assms(2) by (auto simp: cold_numbers_def)
    then show ?thesis by (auto simp: cold_read_block_def Some get_record_def)
  qed (simp add: cold_read_block_def)
  show "cold_bytes C d idx n = None" by (simp add: cold_bytes_def *)
qed

lemma cold_read_eq:
  assumes "cold_ok C cfg d idx" and "faults d = []"
  shows "cold_read_block C idx n d = (Inr (cold_bytes C d idx n), d)"
proof (cases "n \<in> cold_numbers idx")
  case True
  then obtain k m where m: "(k, m) \<in> set idx" "start_block m \<le> n" "n \<le> end_block m"
    by (auto simp: cold_numbers_def)
  obtain bs where "archived C d m bs" using cold_okD(3) [OF assms(1) m(1)] by blast
  from cold_read_hit(2) [OF assms(1) m(1) this m(2,3) assms(2)] show ?thesis .
next
  case False
  with cold_read_miss [OF assms(1)] show ?thesis by simp
qed

lemma cold_bytes_None: "cold_ok C cfg d idx \<Longrightarrow> cold_bytes C d idx n = None \<longleftrightarrow> n \<notin> cold_numbers idx"
proof (cases "n \<in> cold_numbers idx")
  case True
  assume ok: "cold_ok C cfg d idx"
  from True obtain k m where m: "(k, m) \<in> set idx" "start_block m \<le> n" "n \<le> end_block m"
    by (auto simp: cold_numbers_def)
  obtain bs where "archived C d m bs" using cold_okD(3) [OF ok m(1)] by blast
  from cold_read_hit(1) [OF ok m(1) this m(2,3)] True show ?thesis by simp
qed (simp add: cold_read_miss)

end

section \<open>Adding an archive\<close>

definition last_block :: "u64 \<Rightarrow> block list \<Rightarrow> u64" where
  "last_block first bs = first + of_nat (length bs - 1)"

text \<open>The blocks of an archive: consecutive, numbered with at most ten digits, small enough for its fields.\<close>

definition archivable :: "codec \<Rightarrow> u64 \<Rightarrow> block list \<Rightarrow> bool" where
  "archivable C first bs \<longleftrightarrow>
     bs \<noteq> [] \<and> consecutive first bs \<and> unat first + length bs \<le> 10 ^ 10 \<and> fits (map (entry C) bs)"

lemma last_block_unat:
  assumes "archivable C first bs"
  shows "unat (last_block first bs) = unat first + (length bs - 1)"
proof -
  have "length bs > 0" "unat first + length bs \<le> 10 ^ 10" using assms by (auto simp: archivable_def)
  then show ?thesis by (simp add: last_block_def unat_add_lem [THEN iffD1] unsigned_of_nat take_bit_nat_eq_self)
qed

lemma archivable_facts:
  assumes "archivable C first bs"
  shows "first \<le> last_block first bs" "length bs = unat (last_block first bs - first) + 1"
    "unat first < 10 ^ 10" "unat (last_block first bs) < 10 ^ 10"
    "get_block_number (hd bs) = Inr first" "get_block_number (last bs) = Inr (last_block first bs)"
    "\<forall>b \<in> set bs. \<exists>n. get_block_number b = Inr n"
proof -
  have bs: "bs \<noteq> []" "length bs > 0" and b: "unat first + length bs \<le> 10 ^ 10" and c: "consecutive first bs"
    using assms by (auto simp: archivable_def)
  note l = last_block_unat [OF assms]
  show le: "first \<le> last_block first bs" by (simp add: word_le_nat_alt l)
  show "length bs = unat (last_block first bs - first) + 1" using bs(2) by (simp add: unat_sub [OF le] l)
  show "unat first < 10 ^ 10" "unat (last_block first bs) < 10 ^ 10" using b bs(2) l by linarith+
  show "get_block_number (hd bs) = Inr first" using c bs by (simp add: consecutive_def hd_conv_nth)
  show "get_block_number (last bs) = Inr (last_block first bs)"
    using c bs by (simp add: consecutive_def last_conv_nth last_block_def)
  show "\<forall>b \<in> set bs. \<exists>n. get_block_number b = Inr n"
    using c by (auto simp: consecutive_def in_set_conv_nth)
qed

definition new_index :: "codec \<Rightarrow> persistence_config \<Rightarrow> u64 \<Rightarrow> block list \<Rightarrow> mapped_index" where
  "new_index C cfg first bs = \<lparr>
     mmap = index_bytes (map (entry C) bs) 0, start_block = first, end_block = last_block first bs,
     data_path = data_path_of cfg first (last_block first bs)\<rparr>"

lemma write_archive_touches:
  assumes "bs \<noteq> []" "get_block_number (hd bs) = Inr a" "get_block_number (last bs) = Inr b"
  shows "touches_only {data_path_of cfg a b, index_path_of cfg a b, temp_path (data_path_of cfg a b),
    temp_path (index_path_of cfg a b)} (write_archive C cfg bs)"
proof -
  have "touches_only ps (write_records C dp ip bs off)" if "dp \<in> ps" "ip \<in> ps" for ps dp ip off and bs :: "block list"
  proof (induction bs arbitrary: off)
    case (Cons b bs)
    then show ?case using that by (auto simp: Let_def intro!: touches_only_bind)
  qed simp
  then show ?thesis
    unfolding write_archive_eq [OF assms] write_temp_files_def by (intro touches_only_bind) simp_all
qed

context codec_laws
begin

lemma load_written:
  assumes ar: "archivable C first bs" and w: "write_archive C cfg bs d = (Inr p, d1)" and f: "faults d1 = []"
  shows "load_index_file C p idx d1 = (Inr (index_insert first (new_index C cfg first bs) idx), d1)"
    and "archived C d1 (new_index C cfg first bs) bs"
proof -
  let ?last = "last_block first bs"
  note facts = archivable_facts [OF ar]
  have bs: "bs \<noteq> []" using ar by (simp add: archivable_def)
  note wr = write_archive_Inr [OF w bs facts(5,6)]
  have "filename_re C (archive_stem first ?last @ ''.rbi'') = Some (pad10 first, pad10 ?last)"
    using filename_re_match [OF ten_digits_pad10 ten_digits_pad10] facts(3,4) by (simp add: archive_stem_def)
  then have range: "parse_block_range C p = Some (first, ?last)"
    by (simp add: wr(1) index_path_of_def parse_block_range_def parse_dec_pad10)
  have ext: "with_extension p ''rba'' = data_path_of cfg first ?last"
    using with_extension_append [of "archive_stem first ?last" "''rbi''" "cold_storage_path cfg" "''rba''"]
    by (simp add: wr(1) index_path_of_def data_path_of_def archive_stem_def)
  have data: "files d1 (data_path_of cfg first ?last) = Some (concat (map (compressed C) bs))"
    and index: "files d1 p = Some (index_bytes (map (entry C) bs) 0)"
    by (simp_all add: wr)
  show "load_index_file C p idx d1 = (Inr (index_insert first (new_index C cfg first bs) idx), d1)"
    using read_file_ok [OF f index]
    by (simp add: load_index_file_def range ext file_exists_def data io_bind_def new_index_def)
  show "archived C d1 (new_index C cfg first bs) bs"
    using ar facts(1,2) data by (simp add: archived_def new_index_def archivable_def)
qed

text \<open>Writing leaves the archives in the index alone, whether it succeeds or not.\<close>

lemma write_archive_frame:
  assumes ok: "cold_ok C cfg d idx" and ar: "archivable C first bs" and new: "first \<notin> fst ` set idx"
    and w: "write_archive C cfg bs d = (r, d1)"
  shows "cold_ok C cfg d1 idx" and "(k, m) \<in> set idx \<Longrightarrow> archived C d1 m xs = archived C d m xs"
proof -
  note facts = archivable_facts [OF ar]
  have bs: "bs \<noteq> []" using ar by (simp add: archivable_def)
  have same: "archived C d1 m xs = archived C d m xs" if "(k, m) \<in> set idx" for k m xs
  proof -
    have "start_block m \<noteq> first" using cold_okD(1) [OF ok that] that new by force
    then have "files (snd (write_archive C cfg bs d)) (data_path m) = files d (data_path m)"
      by (intro touches_onlyD [OF write_archive_touches [OF bs facts(5,6), of cfg C]])
        (simp add: cold_okD(2) [OF ok that] archive_path_other)
    then show ?thesis by (simp add: archived_def w)
  qed
  then show "(k, m) \<in> set idx \<Longrightarrow> archived C d1 m xs = archived C d m xs" by blast
  show "cold_ok C cfg d1 idx" using ok same by (fastforce simp: cold_ok_def)
qed

text \<open>After a successful write and load the new blocks are readable and nothing else changed.\<close>

lemma archive_extends:
  assumes ok: "cold_ok C cfg d idx" and ar: "archivable C first bs"
    and disj: "{first..last_block first bs} \<inter> cold_numbers idx = {}"
    and w: "write_archive C cfg bs d = (Inr p, d1)" and f: "faults d1 = []"
  defines "idx' \<equiv> index_insert first (new_index C cfg first bs) idx"
  shows "cold_ok C cfg d1 idx'" and "cold_numbers idx' = cold_numbers idx \<union> {first..last_block first bs}"
    and "cold_bytes C d1 idx' n =
      (if first \<le> n \<and> n \<le> last_block first bs then Some (encode_to_vec C (bs ! unat (n - first)))
       else cold_bytes C d idx n)"
proof -
  let ?m = "new_index C cfg first bs" and ?last = "last_block first bs"
  note facts = archivable_facts [OF ar]
  have out: "\<not> (start_block m \<le> x \<and> x \<le> end_block m)" if "(k, m) \<in> set idx" "first \<le> x" "x \<le> ?last" for k m x
    using that disj by (fastforce simp: cold_numbers_def)
  have le: "start_block m \<le> end_block m" if "(k, m) \<in> set idx" for k m
    using cold_okD(3) [OF ok that] by (auto simp: archived_def)
  have sep: "k < first \<Longrightarrow> end_block m < first" "first < k \<Longrightarrow> ?last < k" "k \<noteq> first" if "(k, m) \<in> set idx" for k m
  proof -
    note o = out [OF that, of first] out [OF that, of k] and k = cold_okD(1) [OF ok that]
    show "k < first \<Longrightarrow> end_block m < first" using o(1) k facts(1) by force
    show "first < k \<Longrightarrow> ?last < k" using o(2) k le [OF that] by force
    show "k \<noteq> first" using o(1) k facts(1) le [OF that] by force
  qed
  have new: "first \<notin> fst ` set idx" using sep(3) [of first] by auto
  have idx': "idx' = (first, ?m) # idx"
    using new by (auto simp: idx'_def index_insert_def filter_id_conv)
  have m: "start_block ?m = first" "end_block ?m = ?last" by (simp_all add: new_index_def)
  note fr = write_archive_frame [OF ok ar new w]
  note arch = load_written(2) [OF ar w f]
  show ok': "cold_ok C cfg d1 idx'"
    unfolding idx' by (rule cold_ok_Cons [OF fr(1) new _ _ arch]) (use sep m in \<open>auto simp: new_index_def\<close>)
  show "cold_numbers idx' = cold_numbers idx \<union> {first..?last}"
    by (auto simp: cold_numbers_def idx' m)
  show "cold_bytes C d1 idx' n = (if first \<le> n \<and> n \<le> ?last
      then Some (encode_to_vec C (bs ! unat (n - first))) else cold_bytes C d idx n)"
  proof (cases "n \<in> cold_numbers idx")
    case True
    then obtain k m where km: "(k, m) \<in> set idx" "start_block m \<le> n" "n \<le> end_block m"
      by (auto simp: cold_numbers_def)
    obtain xs where xs: "archived C d m xs" using cold_okD(3) [OF ok km(1)] by blast
    then have "archived C d1 m xs" using fr(2) [OF km(1)] by simp
    moreover have "(k, m) \<in> set idx'" using km(1) by (simp add: idx')
    ultimately have "cold_bytes C d1 idx' n = cold_bytes C d idx n"
      using cold_read_hit(1) [OF ok km(1) xs km(2,3)] cold_read_hit(1) [OF ok' _ _ km(2,3)] by simp
    with out [OF km(1)] km(2,3) show ?thesis by auto
  next
    case False
    show ?thesis
    proof (cases "first \<le> n \<and> n \<le> ?last")
      case True
      then show ?thesis
        using cold_read_hit(1) [OF ok' _ arch, of first n] by (simp add: idx' m)
    next
      case out: False
      then have "n \<notin> cold_numbers idx'" using False by (auto simp: cold_numbers_def idx' m)
      then have "cold_bytes C d1 idx' n = None" "cold_bytes C d idx n = None"
        using False cold_read_miss(2) [OF ok] cold_read_miss(2) [OF ok'] by blast+
      with out show ?thesis by simp
    qed
  qed
qed

end

section \<open>Properties\<close>

text \<open>
  C6: what the archive writer writes, the reader reads. After an archive of consecutive blocks has
  been written and its index loaded, every one of its blocks is read back byte for byte, every other
  archived block is read as before, and the archives stay well formed.
\<close>

theorem archive_roundtrip:
  assumes "codec_laws C" and "cold_ok C cfg d idx" and "archivable C first bs"
    and "{first..last_block first bs} \<inter> cold_numbers idx = {}" and "faults d = []"
  shows "\<exists>p d1 idx1. write_archive C cfg bs d = (Inr p, d1) \<and>
    load_index_file C p idx d1 = (Inr idx1, d1) \<and> cold_ok C cfg d1 idx1 \<and>
    (\<forall>i < length bs. cold_read_block C idx1 (first + of_nat i) d1 = (Inr (Some (encode_to_vec C (bs ! i))), d1)) \<and>
    (\<forall>n. n \<notin> {first..last_block first bs} \<longrightarrow>
       cold_read_block C idx1 n d1 = (Inr (cold_bytes C d idx n), d1))"
proof -
  note facts = archivable_facts [OF assms(3)]
  have ne: "bs \<noteq> []" using assms(3) by (simp add: archivable_def)
  obtain p d1 where w: "write_archive C cfg bs d = (Inr p, d1)" and f: "faults d1 = []"
    by (rule fault_freeE [OF codec_laws.write_archive_fault_free [OF assms(1,5) ne facts(7)]])
  let ?idx = "index_insert first (new_index C cfg first bs) idx"
  note ext = codec_laws.archive_extends [OF assms(1-4) w f]
  note read = codec_laws.cold_read_eq [OF assms(1) ext(1) f]
  have "first \<le> first + of_nat i \<and> first + of_nat i \<le> last_block first bs \<and> unat (first + of_nat i - first) = i"
    if "i < length bs" for i
  proof -
    have b: "unat first + length bs \<le> 10 ^ 10" using assms(3) by (simp add: archivable_def)
    then have i: "unat (of_nat i :: u64) = i" using that by (simp add: unsigned_of_nat take_bit_nat_eq_self)
    then have "unat (first + of_nat i) = unat first + i"
      using b that by (simp add: unat_add_lem [THEN iffD1])
    then show ?thesis using i that last_block_unat [OF assms(3)] by (simp add: word_le_nat_alt)
  qed
  then have "\<forall>i < length bs. cold_read_block C ?idx (first + of_nat i) d1 = (Inr (Some (encode_to_vec C (bs ! i))), d1)"
    by (simp add: read ext(3))
  then show ?thesis
    using w codec_laws.load_written(1) [OF assms(1,3) w f] ext(1) by (auto simp: read ext(3))
qed

text \<open>Two blocks on an empty disk.\<close>

abbreviation example_block :: "u64 \<Rightarrow> block" where
  "example_block n \<equiv> \<lparr>items = [Some (BlockHeader n []), Some (OtherItem [7]), Some (BlockProof n [])]\<rparr>"

abbreviation empty_disk :: disk where
  "empty_disk \<equiv> \<lparr>files = Map.empty, dirs = {}, faults = []\<rparr>"

lemma length_print_bytes [simp]: "length (print_list (\<lambda>b. [b]) xs) = 2 * length xs + 1"
  by (induction xs) simp_all

lemma example_compressed: "length (compressed ref_codec (example_block n)) < 1000"
proof -
  have "compressed ref_codec (example_block n) = fst fmt_bytes (fst fmt_block (example_block n))"
    by (simp add: compressed_def ref_codec_def)
  moreover have "length (fst fmt_bytes (fst fmt_block (example_block n))) < 1000"
    by (simp add: fmt_block_def fmt_map_def fmt_list_def fmt_option_def fmt_pair_def fmt_byte_def fmt_u64_def
        fmt_state_changes_def)
  ultimately show ?thesis by simp
qed

lemma example_archivable: "archivable ref_codec 4 [example_block 4, example_block 5]"
proof -
  have "fits (map (entry ref_codec) [example_block 4, example_block 5])"
    using example_compressed [of 4] example_compressed [of 5] by (auto simp: fits_def)
  moreover have "consecutive 4 [example_block 4, example_block 5]"
    by (auto simp: consecutive_def get_block_number_def less_Suc_eq)
  ultimately show ?thesis by (simp add: archivable_def)
qed

theorem archive_roundtrip_witness:
  "\<exists>p d1 idx1. write_archive ref_codec default_persistence_config [example_block 4, example_block 5] empty_disk = (Inr p, d1) \<and>
    load_index_file ref_codec p [] d1 = (Inr idx1, d1) \<and> cold_ok ref_codec default_persistence_config d1 idx1 \<and>
    (\<forall>i < length [example_block 4, example_block 5]. cold_read_block ref_codec idx1 (4 + of_nat i) d1 =
       (Inr (Some (encode_to_vec ref_codec ([example_block 4, example_block 5] ! i))), d1)) \<and>
    (\<forall>n. n \<notin> {4..last_block 4 [example_block 4, example_block 5]} \<longrightarrow>
       cold_read_block ref_codec idx1 n d1 = (Inr (cold_bytes ref_codec empty_disk [] n), d1))"
  by (rule archive_roundtrip [OF refc.codec_laws_axioms _ example_archivable])
    (simp_all add: cold_ok_def cold_numbers_def)

text \<open>
  C30: an archive becomes visible only when it is complete. Whatever fails while it is written, a
  failed write leaves every index file as it was, and when the write returns, the index file and the
  data file hold the complete archive.
\<close>

theorem write_archive_atomic:
  assumes "codec_laws C" and "blocks \<noteq> []"
    and "get_block_number (hd blocks) = Inr a" and "get_block_number (last blocks) = Inr b"
  shows "case write_archive C cfg blocks d of
      (Inl e, d') \<Rightarrow> \<forall>stem dir. files d' (dir, stem @ ''.rbi'') = files d (dir, stem @ ''.rbi'')
    | (Inr p, d') \<Rightarrow> p = index_path_of cfg a b \<and>
        files d' p = Some (index_bytes (map (entry C) blocks) 0) \<and>
        files d' (data_path_of cfg a b) = Some (concat (map (compressed C) blocks))"
proof (cases "write_archive C cfg blocks d")
  case (Pair r d')
  show ?thesis
  proof (cases r)
    case (Inr p)
    show ?thesis
      using codec_laws.write_archive_Inr [OF assms(1) Pair [unfolded Inr] assms(2-4)] by (simp add: Pair Inr)
  next
    case (Inl e)
    let ?dp = "data_path_of cfg a b" and ?ip = "index_path_of cfg a b"
    let ?ps = "{?dp, temp_path ?dp, temp_path ?ip}"
    have rec: "touches_only ?ps (write_records C (temp_path ?dp) (temp_path ?ip) bs off)" for bs off
      by (induction bs arbitrary: off) (auto simp: Let_def intro!: touches_only_bind)
    define pre where "pre = io_bind (create_dir_all (cold_storage_path cfg)) (\<lambda>_.
      io_bind (write_temp_files C blocks (temp_path ?dp) (temp_path ?ip)) (\<lambda>_. rename_file (temp_path ?dp) ?dp))"
    have pre: "touches_only ?ps pre"
      unfolding pre_def write_temp_files_def by (intro touches_only_bind rec) simp_all
    have eq: "write_archive C cfg blocks d =
        io_bind pre (\<lambda>_. io_bind (rename_file (temp_path ?ip) ?ip) (\<lambda>_. io_return ?ip)) d"
      by (simp add: write_archive_eq [OF assms(2-4)] pre_def io_bind_def split: prod.splits sum.splits)
    have "files d' = files (snd (pre d))"
      using Pair Inl unfolding eq
      by (auto simp: io_bind_def rename_file_def io_try_def split: prod.splits sum.splits option.splits list.splits if_splits)
    moreover have "(dir, stem @ ''.rbi'') \<notin> ?ps" for dir stem
      by (auto simp: data_path_of_def index_path_of_def temp_path_def dest!: arg_cong [where f = rev])
    ultimately show ?thesis using touches_onlyD [OF pre] Pair Inl by simp
  qed
qed

theorem write_archive_atomic_witness:
  "case write_archive ref_codec default_persistence_config [example_block 4] (empty_disk\<lparr>faults := [False, False, True]\<rparr>) of
      (Inl e, d') \<Rightarrow> \<forall>stem dir. files d' (dir, stem @ ''.rbi'') =
        files (empty_disk\<lparr>faults := [False, False, True]\<rparr>) (dir, stem @ ''.rbi'')
    | (Inr p, d') \<Rightarrow> p = index_path_of default_persistence_config 4 4 \<and>
        files d' p = Some (index_bytes (map (entry ref_codec) [example_block 4]) 0) \<and>
        files d' (data_path_of default_persistence_config 4 4) = Some (concat (map (compressed ref_codec) [example_block 4]))"
  by (rule write_archive_atomic [OF refc.codec_laws_axioms]) (simp_all add: get_block_number_def)

end
