(* ===== verification/Archiver.thy ===== *)
theory Archiver
  imports Cold_Storage
begin

text \<open>
  The archiver (\<^verbatim>\<open>persistence-plugin/src/cold_storage/archiver.rs\<close>): while the hot tier holds more
  blocks than configured, it moves the oldest complete batch into an archive. The state is the
  store, the disk, the reader's indices and the trigger of the archival task. The cycle is a loop
  that may run forever (a batch size of zero does), so it is a partial function whose value
  \<open>None\<close> means that it does not return; it is shown to return otherwise.
\<close>

section \<open>State\<close>

record 'db pstate =
  ps_db :: 'db
  ps_disk :: disk
  ps_indices :: indices
  ps_trigger :: bool

text \<open>\<^verbatim>\<open>Notify::notify_one\<close> stores at most one permit.\<close>

definition notify_check :: "'db pstate \<Rightarrow> 'db pstate" where
  "notify_check s = s\<lparr>ps_trigger := True\<rparr>"

section \<open>Archiving a batch\<close>

fun add_deletes :: "'db rocksdb \<Rightarrow> 'db \<Rightarrow> u64 list \<Rightarrow> write_batch \<Rightarrow> write_batch res" where
  "add_deletes R db [] batch = Inr batch"
| "add_deletes R db (n # ns) batch = and_then (add_delete_to_batch R db n batch) (add_deletes R db ns)"

definition archive_batch ::
    "'db rocksdb \<Rightarrow> codec \<Rightarrow> persistence_config \<Rightarrow> u64 \<Rightarrow> u64 \<Rightarrow> 'db pstate \<Rightarrow> unit res \<times> 'db pstate" where
  "archive_batch R C cfg start count s =
     (case read_block_batch R C (ps_db s) start count of
        Inl e \<Rightarrow> (Inl e, s)
      | Inr blocks \<Rightarrow>
          if blocks = [] then (Inr (), s)
          else (case write_archive C cfg blocks (ps_disk s) of
              (Inl e, d) \<Rightarrow> (Inl e, s\<lparr>ps_disk := d\<rparr>)
            | (Inr index_path, d) \<Rightarrow>
                let (loaded, d') = load_index_file C index_path (ps_indices s) d;
                    s' = s\<lparr>ps_disk := d',
                           ps_indices := (case loaded of Inl _ \<Rightarrow> ps_indices s | Inr idx \<Rightarrow> idx)\<rparr>;
                    new_earliest_hot = start + count
                in case and_then (add_deletes R (ps_db s) (block_range start count) []) (\<lambda>b1.
                        and_then (set_earliest_hot R (ps_db s) new_earliest_hot b1) (\<lambda>b2.
                        and_then (remove_skipped_batch R (ps_db s) start b2) (\<lambda>b3.
                        commit_batch R (ps_db s) b3))) of
                     Inl e \<Rightarrow> (Inl e, s')
                   | Inr db' \<Rightarrow> (Inr (), s'\<lparr>ps_db := db'\<rparr>)))"

section \<open>The archival cycle\<close>

text \<open>One turn of the loop: \<open>None\<close> goes on, \<open>Some\<close> returns.\<close>

definition archival_turn ::
    "'db rocksdb \<Rightarrow> codec \<Rightarrow> persistence_config \<Rightarrow> 'db pstate \<Rightarrow> unit res option \<times> 'db pstate" where
  "archival_turn R C cfg s =
     (case get_earliest_hot R (ps_db s) of
        Inl e \<Rightarrow> (Some (Inl e), s)
      | Inr None \<Rightarrow> (Some (Inr ()), s)
      | Inr (Some earliest_hot) \<Rightarrow>
          (case get_latest_persisted R (ps_db s) of
             Inl e \<Rightarrow> (Some (Inl e), s)
           | Inr lp \<Rightarrow>
               let latest_persisted = (case lp of None \<Rightarrow> 0 | Some n \<Rightarrow> n);
                   hot_tier_total_blocks = saturating_sub latest_persisted earliest_hot + 1;
                   batch_size = archive_batch_size cfg
               in if hot_tier_total_blocks \<le> hot_storage_block_count cfg then (Some (Inr ()), s)
                  else (case is_batch_complete R (ps_db s) earliest_hot batch_size of
                      Inl e \<Rightarrow> (Some (Inl e), s)
                    | Inr True \<Rightarrow>
                        (case archive_batch R C cfg earliest_hot batch_size s of
                           (Inl e, s') \<Rightarrow> (Some (Inl e), s')
                         | (Inr _, s') \<Rightarrow> (None, s'))
                    | Inr False \<Rightarrow>
                        (case and_then (add_skipped_batch R (ps_db s) earliest_hot [])
                            (commit_batch R (ps_db s)) of
                           Inl e \<Rightarrow> (Some (Inl e), s)
                         | Inr db' \<Rightarrow> (Some (Inr ()), s\<lparr>ps_db := db'\<rparr>)))))"

partial_function (option) run_archival_cycle ::
    "'db rocksdb \<Rightarrow> codec \<Rightarrow> persistence_config \<Rightarrow> 'db pstate \<Rightarrow> (unit res \<times> 'db pstate) option" where
  "run_archival_cycle R C cfg s =
     (case archival_turn R C cfg s of
        (Some r, s') \<Rightarrow> Some (r, s')
      | (None, s') \<Rightarrow> run_archival_cycle R C cfg s')"

section \<open>What a batch does\<close>

definition db_ok :: "codec \<Rightarrow> tables \<Rightarrow> bool" where
  "db_ok C t \<longleftrightarrow> hot_ok C t \<and> meta_ok t \<and> gaps_ok t"

text \<open>The store after the deletions, the new earliest hot block and the cleared mark.\<close>

definition archive_ops :: "u64 \<Rightarrow> u64 \<Rightarrow> write_batch" where
  "archive_ops start count =
     map (\<lambda>n. DeleteCf CF_HOT_BLOCKS (u64_to_be n)) (block_range start count) @
     [PutCf CF_METADATA EARLIEST_HOT_KEY (u64_to_be (start + count)),
      DeleteCf CF_SKIPPED_BATCHES (u64_to_be start)]"

lemma archive_ops_cf:
  "cf_ops CF_HOT_BLOCKS (archive_ops a n) = map (\<lambda>n. DeleteCf CF_HOT_BLOCKS (u64_to_be n)) (block_range a n)"
  "cf_ops CF_METADATA (archive_ops a n) = [PutCf CF_METADATA EARLIEST_HOT_KEY (u64_to_be (a + n))]"
  "cf_ops CF_GAPS (archive_ops a n) = []"
  by (auto simp: archive_ops_def cf_ops_def filter_id_conv filter_empty_conv)

lemma db_ok_meta_put:
  assumes "meta_ok t" and "t' CF_METADATA = (t CF_METADATA)(key \<mapsto> u64_to_be n)"
  shows "meta_ok t'" and "meta t' k = (if k = key then Some n else meta t k)"
  using assms by (auto simp: meta_ok_def meta_def)

lemma meta_cong: "t' CF_METADATA = t CF_METADATA \<Longrightarrow> meta_ok t' = meta_ok t \<and> meta t' = meta t"
  by (simp add: meta_ok_def meta_def fun_eq_iff)

lemma gaps_cong: "t' CF_GAPS = t CF_GAPS \<Longrightarrow> gaps_ok t' = gaps_ok t \<and> missing t' = missing t"
  by (simp add: gaps_ok_def missing_def gaps_of_def)

lemma archive_ops_view:
  fixes start count :: u64
  assumes "db_ok C t"
  defines "t' \<equiv> apply_batch (archive_ops start count) t"
  shows "db_ok C t'" and "hot_numbers t' = hot_numbers t - set (block_range start count)"
    and "hot_bytes C t' n = (if n \<in> set (block_range start count) then None else hot_bytes C t n)"
    and "meta t' key = (if key = EARLIEST_HOT_KEY then Some (start + count) else meta t key)"
    and "missing t' = missing t"
proof -
  have hot: "t' CF_HOT_BLOCKS = fold table_op (map (\<lambda>n. DeleteCf CF_HOT_BLOCKS (u64_to_be n)) (block_range start count)) (t CF_HOT_BLOCKS)"
    and meta: "t' CF_METADATA = (t CF_METADATA)(EARLIEST_HOT_KEY \<mapsto> u64_to_be (start + count))"
    and gaps: "t' CF_GAPS = t CF_GAPS"
    by (simp_all add: t'_def apply_batch_cf archive_ops_cf)
  show "db_ok C t'"
    using assms(1) hot_delete(3) [where t' = t' and t = t, OF hot] db_ok_meta_put(1) [where t' = t' and t = t, OF _ meta] gaps_cong [of t' t, OF gaps] by (auto simp: db_ok_def)
  show "hot_numbers t' = hot_numbers t - set (block_range start count)"
    and "hot_bytes C t' n = (if n \<in> set (block_range start count) then None else hot_bytes C t n)"
    using hot_delete(1,2) [where t' = t' and t = t, OF hot] by auto
  show "meta t' key = (if key = EARLIEST_HOT_KEY then Some (start + count) else meta t key)"
    using db_ok_meta_put(2) [where t' = t' and t = t, OF _ meta] assms(1) by (simp add: db_ok_def)
  show "missing t' = missing t" using gaps_cong [of t' t, OF gaps] by simp
qed

context persist_laws
begin

lemma add_deletes_eq:
  "invar db \<Longrightarrow> add_deletes R db ns batch = Inr (batch @ map (\<lambda>n. DeleteCf CF_HOT_BLOCKS (u64_to_be n)) ns)"
  by (induction ns arbitrary: batch) (simp_all add: add_delete_to_batch_def res_simps)

lemma archive_commit:
  assumes "invar db"
  shows "\<exists>db'. and_then (add_deletes R db (block_range start count) []) (\<lambda>b1.
      and_then (set_earliest_hot R db (start + count) b1) (\<lambda>b2.
      and_then (remove_skipped_batch R db start b2) (\<lambda>b3. commit_batch R db b3))) = Inr db' \<and>
    invar db' \<and> view db' = apply_batch (archive_ops start count) (view db)"
  using write_ok [OF assms, of "archive_ops start count"] assms
  by (simp add: add_deletes_eq watermark_eqs remove_skipped_batch_def commit_batch_def archive_ops_def res_simps)

text \<open>The store either stays as it was or has lost exactly the archived blocks.\<close>

lemma archive_batch_db:
  assumes "invar (ps_db s)" and "archive_batch R C cfg start count s = (r, s')" and "count \<noteq> 0"
  shows "(\<exists>e. r = Inl e) \<and> ps_db s' = ps_db s \<or>
    r = Inr () \<and> invar (ps_db s') \<and> view (ps_db s') = apply_batch (archive_ops start count) (view (ps_db s))"
proof -
  have ne: "blocks \<noteq> []" if "read_blocks R C (ps_db s) ns = Inr blocks" "ns \<noteq> []" for blocks ns
    using that by (cases ns) (auto simp: res_simps split: option.splits)
  show ?thesis
    using assms(2) archive_commit [OF assms(1), of start count] ne [of "block_range start count"] assms(3)
    by (auto simp: archive_batch_def read_block_batch_def Let_def split: sum.splits prod.splits if_splits)
qed

lemma finite_hot_numbers: "invar db \<Longrightarrow> finite (hot_numbers (view db))"
proof -
  assume "invar db"
  then obtain xs where xs: "iter_spec (view db CF_HOT_BLOCKS) IterStart xs" using iter_ok by blast
  then have "u64_to_be ` hot_numbers (view db) \<subseteq> fst ` set xs"
    by (force simp: iter_spec_def hot_numbers_def)
  moreover have "inj u64_to_be" by (auto simp: inj_on_def)
  ultimately show ?thesis by (metis finite_imageD finite_imageI finite_set finite_subset inj_on_subset subset_UNIV)
qed

end

section \<open>Archiving moves blocks, it does not lose them\<close>

text \<open>The bytes of every stored block, hot or cold.\<close>

definition block_bytes :: "codec \<Rightarrow> tables \<Rightarrow> disk \<Rightarrow> indices \<Rightarrow> u64 \<Rightarrow> bytes option" where
  "block_bytes C t d idx n = (case hot_bytes C t n of Some bs \<Rightarrow> Some bs | None \<Rightarrow> cold_bytes C d idx n)"

definition hot_small :: "codec \<Rightarrow> tables \<Rightarrow> bool" where
  "hot_small C t \<longleftrightarrow>
     (\<forall>n \<in> hot_numbers t. unat n < 10 ^ 10) \<and>
     (\<forall>n b. hot_bytes C t n = Some (encode_to_vec C b) \<longrightarrow> length (compressed C b) < 2 ^ 32)"

definition archive_ok :: "codec \<Rightarrow> persistence_config \<Rightarrow> tables \<Rightarrow> disk \<Rightarrow> indices \<Rightarrow> bool" where
  "archive_ok C cfg t d idx \<longleftrightarrow>
     db_ok C t \<and> hot_small C t \<and> cold_ok C cfg d idx \<and> hot_numbers t \<inter> cold_numbers idx = {} \<and> faults d = []"

lemma block_range_interval:
  assumes "count \<noteq> 0" and "unat start + unat count \<le> 2 ^ 64"
  shows "set (block_range start count) = {start..start + of_nat (unat count - 1)}"
proof -
  have pos: "unat count > 0" using assms(1) by (simp add: unat_gt_0)
  have u: "unat (start + of_nat i) = unat start + i" if "i < unat count" for i
  proof -
    have "unat (of_nat i :: u64) = i" using that assms(2) by (simp add: unsigned_of_nat take_bit_nat_eq_self)
    then show ?thesis using that assms(2) by (simp add: unat_add_lem [THEN iffD1])
  qed
  have "x \<in> set (block_range start count)" if "start \<le> x" "unat x \<le> unat start + (unat count - 1)" for x
  proof -
    have "x = start + of_nat (unat x - unat start)"
      using u [of "unat x - unat start"] that pos by (simp add: word_unat_eq_iff word_le_nat_alt)
    then show ?thesis using that pos by (auto simp: set_block_range intro!: exI [of _ "unat x - unat start"])
  qed
  moreover have "start \<le> start + of_nat i \<and> start + of_nat i \<le> start + of_nat (unat count - 1)"
    if "i < unat count" for i
    using u [OF that] u [of "unat count - 1"] that pos by (simp add: word_le_nat_alt)
  ultimately show ?thesis
    using u [of "unat count - 1"] pos by (auto simp: set_block_range word_le_nat_alt)
qed

lemma length_concat_bound: "(\<And>x. x \<in> set xs \<Longrightarrow> length x \<le> k) \<Longrightarrow> length (concat xs) \<le> length xs * k"
  by (induction xs) (fastforce simp: add_mono)+

context persist_laws
begin

lemma hot_batch_archivable:
  assumes small: "hot_small C (view db)" and sub: "set (block_range start count) \<subseteq> hot_numbers (view db)"
    and count: "count \<noteq> 0" "unat count \<le> 2 ^ 32"
    and bs: "list_all2 (\<lambda>n b. hot_bytes C (view db) n = Some (encode_to_vec C b) \<and> get_block_number b = Inr n)
      (block_range start count) bs"
  shows "archivable C start bs" and "set (block_range start count) = {start..last_block start bs}"
    and "n \<in> set (block_range start count) \<Longrightarrow>
      hot_bytes C (view db) n = Some (encode_to_vec C (bs ! unat (n - start)))"
proof -
  have pos: "0 < unat count" using count(1) by (simp add: unat_gt_0)
  have len: "length bs = unat count" using bs by (simp add: list_all2_lengthD [symmetric])
  have nth: "hot_bytes C (view db) (start + of_nat i) = Some (encode_to_vec C (bs ! i)) \<and>
      get_block_number (bs ! i) = Inr (start + of_nat i)" if "i < unat count" for i
    using list_all2_nthD2 [OF bs, of i] that len by simp
  show "hot_bytes C (view db) n = Some (encode_to_vec C (bs ! unat (n - start)))"
    if "n \<in> set (block_range start count)"
    using that nth count(2) by (auto simp: set_block_range unsigned_of_nat take_bit_nat_eq_self)
  have mem: "start + of_nat i \<in> hot_numbers (view db)" if "i < unat count" for i
    using sub that by (auto simp: set_block_range)
  have start: "unat start < 10 ^ 10" using small mem [of 0] pos by (simp add: hot_small_def)
  then have "unat start + unat count \<le> 2 ^ 64" using count(2) by simp
  note range = block_range_interval [OF count(1) this]
  then show rng: "set (block_range start count) = {start..last_block start bs}" by (simp add: last_block_def len)
  have "unat (of_nat (unat count - 1) :: u64) = unat count - 1"
    using count(2) by (simp add: unsigned_of_nat take_bit_nat_eq_self)
  then have "unat (start + of_nat (unat count - 1)) = unat start + (unat count - 1)"
    using start count(2) by (simp add: unat_add_lem [THEN iffD1])
  moreover have "unat (start + of_nat (unat count - 1)) < 10 ^ 10"
    using small mem [of "unat count - 1"] pos unfolding hot_small_def by fastforce
  ultimately have "unat start + (unat count - 1) < 10 ^ 10" by (simp only:)
  then have bound: "unat start + length bs \<le> 10 ^ 10" using pos len by linarith
  have c32: "length (compressed C b) \<le> 2 ^ 32 - 1" if "b \<in> set bs" for b
    using that nth small len by (auto simp: in_set_conv_nth hot_small_def Suc_le_eq [symmetric])
  have "length (concat (map (compressed C) bs)) \<le> unat count * (2 ^ 32 - 1)"
    using length_concat_bound [of "map (compressed C) bs" "2 ^ 32 - 1"] c32 len by auto
  also have "\<dots> < 2 ^ 64" using mult_le_mono1 [OF count(2), of "2 ^ 32 - 1"] by simp
  finally have "fits (map (entry C) bs)" using c32 by (fastforce simp: fits_def)
  then show "archivable C start bs" using nth len pos bound by (auto simp: archivable_def consecutive_def)
qed

lemma archive_batch_ok:
  fixes s :: "'db pstate" and start count :: u64
  defines "t \<equiv> view (ps_db s)"
  assumes inv: "invar (ps_db s)" and ok: "archive_ok C cfg t (ps_disk s) (ps_indices s)"
    and sub: "set (block_range start count) \<subseteq> hot_numbers t" and count: "count \<noteq> 0" "unat count \<le> 2 ^ 32"
  shows "\<exists>s'. archive_batch R C cfg start count s = (Inr (), s') \<and> invar (ps_db s') \<and>
    archive_ok C cfg (view (ps_db s')) (ps_disk s') (ps_indices s') \<and>
    view (ps_db s') = apply_batch (archive_ops start count) t \<and>
    (\<forall>n. block_bytes C (view (ps_db s')) (ps_disk s') (ps_indices s') n =
      block_bytes C t (ps_disk s) (ps_indices s) n)"
proof -
  let ?d = "ps_disk s" and ?idx = "ps_indices s" and ?rg = "block_range start count"
  have db: "db_ok C t" "hot_ok C t" "hot_small C t" "cold_ok C cfg ?d ?idx" "hot_numbers t \<inter> cold_numbers ?idx = {}" "faults ?d = []"
    using ok by (auto simp: archive_ok_def db_ok_def)
  obtain bs where bs: "read_blocks R C (ps_db s) ?rg = Inr bs"
    "list_all2 (\<lambda>n b. hot_bytes C t n = Some (encode_to_vec C b) \<and> get_block_number b = Inr n) ?rg bs"
    using read_blocks_eq [OF inv db(2) [unfolded t_def] sub [unfolded t_def]] by (auto simp: t_def)
  note ar = hot_batch_archivable [OF db(3) [unfolded t_def] sub [unfolded t_def] count bs(2) [unfolded t_def]]
  have ne: "bs \<noteq> []" using ar(1) by (simp add: archivable_def)
  have "faults ?d = []" by (rule db(6))
  then obtain p d1 where w: "write_archive C cfg bs ?d = (Inr p, d1)" and f: "faults d1 = []"
    using fault_freeE [OF write_archive_fault_free [OF _ ne archivable_facts(7) [OF ar(1)]]] by metis
  let ?idx1 = "index_insert start (new_index C cfg start bs) ?idx"
  have disj: "{start..last_block start bs} \<inter> cold_numbers ?idx = {}" using ar(2) sub db(5) by auto
  note ext = archive_extends [OF db(4) ar(1) disj w f]
  note load = load_written(1) [OF ar(1) w f, of ?idx]
  obtain db' where db': "and_then (add_deletes R (ps_db s) ?rg []) (\<lambda>b1.
      and_then (set_earliest_hot R (ps_db s) (start + count) b1) (\<lambda>b2.
      and_then (remove_skipped_batch R (ps_db s) start b2) (\<lambda>b3. commit_batch R (ps_db s) b3))) = Inr db'"
    "invar db'" "view db' = apply_batch (archive_ops start count) t"
    using archive_commit [OF inv, of start count] by (auto simp: t_def)
  let ?s = "s\<lparr>ps_disk := d1, ps_indices := ?idx1, ps_db := db'\<rparr>"
  have run: "archive_batch R C cfg start count s = (Inr (), ?s)"
    using bs(1) ne db'(1) by (simp add: archive_batch_def read_block_batch_def w load Let_def)
  note t' = archive_ops_view [OF db(1), of start count, folded db'(3)]
  have small: "hot_small C (view db')"
    using db(3) t'(2,3) by (auto simp: hot_small_def split: if_splits)
  have "block_bytes C (view db') d1 ?idx1 n = block_bytes C t ?d ?idx n" for n
  proof (cases "n \<in> set ?rg")
    case True
    then have "start \<le> n \<and> n \<le> last_block start bs" using ar(2) by auto
    with True show ?thesis by (simp add: block_bytes_def t'(3) ext(3) ar(3) [folded t_def])
  next
    case False
    then have "\<not> (start \<le> n \<and> n \<le> last_block start bs)" using ar(2) by auto
    then have "cold_bytes C d1 ?idx1 n = cold_bytes C ?d ?idx n" using ext(3) by (simp only: if_False)
    with False show ?thesis by (simp add: block_bytes_def t'(3) split: option.split)
  qed
  moreover have "archive_ok C cfg (view db') d1 ?idx1"
    using t'(1,2) small ext(1,2) f db(5) ar(2) by (auto simp: archive_ok_def)
  ultimately show ?thesis using run db'(2,3) by (intro exI [of _ ?s]) simp
qed

end

section \<open>The cycle\<close>

text \<open>The hot tier counts more blocks than configured.\<close>

definition oversized :: "persistence_config \<Rightarrow> tables \<Rightarrow> u64 \<Rightarrow> bool" where
  "oversized cfg t earliest_hot \<longleftrightarrow>
     hot_storage_block_count cfg <
       saturating_sub (case meta t LATEST_PERSISTED_KEY of None \<Rightarrow> 0 | Some n \<Rightarrow> n) earliest_hot + 1"

abbreviation complete_batch :: "persistence_config \<Rightarrow> tables \<Rightarrow> u64 \<Rightarrow> bool" where
  "complete_batch cfg t e \<equiv> set (block_range e (archive_batch_size cfg)) \<subseteq> hot_numbers t"

text \<open>The cycle has nothing left to do: the hot tier is small enough, or its first batch has a hole and is marked.\<close>

definition archival_done :: "persistence_config \<Rightarrow> tables \<Rightarrow> bool" where
  "archival_done cfg t \<longleftrightarrow>
     (case meta t EARLIEST_HOT_KEY of
        None \<Rightarrow> True
      | Some e \<Rightarrow> \<not> oversized cfg t e \<or>
          \<not> complete_batch cfg t e \<and> t CF_SKIPPED_BATCHES (u64_to_be e) \<noteq> None)"

text \<open>Archiving moves the earliest hot block and no other watermark, and leaves the gaps alone.\<close>

definition same_bookkeeping :: "tables \<Rightarrow> tables \<Rightarrow> bool" where
  "same_bookkeeping t t' \<longleftrightarrow>
     (\<forall>k. k \<noteq> EARLIEST_HOT_KEY \<longrightarrow> meta t' k = meta t k) \<and> missing t' = missing t"

lemma same_bookkeeping_trans [trans]:
  "same_bookkeeping t t' \<Longrightarrow> same_bookkeeping t' t'' \<Longrightarrow> same_bookkeeping t t''"
  by (simp add: same_bookkeeping_def)

lemma skip_view:
  assumes "t' = apply_op (PutCf CF_SKIPPED_BATCHES k v) t"
  shows "db_ok C t' = db_ok C t" "hot_numbers t' = hot_numbers t" "hot_bytes C t' = hot_bytes C t"
    "meta t' = meta t" "hot_small C t' = hot_small C t" "missing t' = missing t"
proof -
  have same: "t' CF_HOT_BLOCKS = t CF_HOT_BLOCKS" "t' CF_METADATA = t CF_METADATA" "t' CF_GAPS = t CF_GAPS"
    by (simp_all add: assms)
  show "db_ok C t' = db_ok C t" "hot_numbers t' = hot_numbers t" "hot_bytes C t' = hot_bytes C t"
    "meta t' = meta t" "hot_small C t' = hot_small C t" "missing t' = missing t"
    using hot_table_cong [of t' t, OF same(1)] meta_cong [of t' t, OF same(2)] gaps_cong [of t' t, OF same(3)]
    by (simp_all add: db_ok_def hot_small_def)
qed

context persist_laws
begin

lemma archival_turn_cases:
  fixes s :: "'db pstate"
  defines "t \<equiv> view (ps_db s)"
  assumes inv: "invar (ps_db s)" and ok: "db_ok C t"
  obtains (idle) "archival_done cfg t" "archival_turn R C cfg s = (Some (Inr ()), s)"
  | (archive) e where "complete_batch cfg t e"
      "archival_turn R C cfg s = (case archive_batch R C cfg e (archive_batch_size cfg) s of
         (Inl x, s') \<Rightarrow> (Some (Inl x), s') | (Inr _, s') \<Rightarrow> (None, s'))"
  | (skip) e db' where "invar db'" "view db' = apply_op (PutCf CF_SKIPPED_BATCHES (u64_to_be e) []) t"
      "archival_done cfg (view db')" "archival_turn R C cfg s = (Some (Inr ()), s\<lparr>ps_db := db'\<rparr>)"
proof -
  have meta: "meta_ok (view (ps_db s))" using ok by (simp add: db_ok_def t_def)
  have early: "get_earliest_hot R (ps_db s) = Inr (meta t EARLIEST_HOT_KEY)"
    and late: "get_latest_persisted R (ps_db s) = Inr (meta t LATEST_PERSISTED_KEY)"
    using inv meta by (simp_all add: watermark_eqs t_def)
  show ?thesis
  proof (cases "meta t EARLIEST_HOT_KEY")
    case None
    then show ?thesis by (intro idle) (simp_all add: archival_turn_def early archival_done_def)
  next
    case (Some e)
    note turn = archival_turn_def early late Some is_batch_complete_eq [OF inv] Let_def
    have big: "\<not> saturating_sub (case meta t LATEST_PERSISTED_KEY of None \<Rightarrow> 0 | Some n \<Rightarrow> n) e + 1 \<le> hot_storage_block_count cfg"
      if "oversized cfg t e" using that by (simp only: oversized_def not_le)
    consider "\<not> oversized cfg t e" | "oversized cfg t e" "complete_batch cfg t e"
      | "oversized cfg t e" "\<not> complete_batch cfg t e" by blast
    then show ?thesis
    proof cases
      case 1
      then show ?thesis
        by (intro idle) (simp_all add: turn archival_done_def oversized_def not_less t_def [symmetric])
    next
      case 2
      then show ?thesis
        by (intro archive [of e]) (simp_all add: turn big t_def [symmetric])
    next
      case 3
      obtain db' where db': "write_db R (ps_db s) [PutCf CF_SKIPPED_BATCHES (u64_to_be e) []] = Inr db'"
        "invar db'" "view db' = apply_op (PutCf CF_SKIPPED_BATCHES (u64_to_be e) []) t"
        using write_ok [OF inv, of "[PutCf CF_SKIPPED_BATCHES (u64_to_be e) []]"] by (auto simp: apply_batch_def t_def)
      have "archival_done cfg (view db')"
        using 3 skip_view [OF db'(3)] Some by (simp add: archival_done_def oversized_def) (simp add: db'(3))
      with db' 3 inv show ?thesis
        by (intro skip [of db' e])
          (simp_all add: turn big t_def [symmetric] add_skipped_batch_def commit_batch_def res_simps)
    qed
  qed
qed

lemma archival_turn_zero:
  assumes "invar (ps_db s)" and "db_ok C (view (ps_db s))" and "archive_batch_size cfg = 0"
    and "meta (view (ps_db s)) EARLIEST_HOT_KEY = Some e" and "oversized cfg (view (ps_db s)) e"
  shows "archival_turn R C cfg s = (None, s)"
proof (cases rule: archival_turn_cases [OF assms(1,2), of cfg, case_names idle archive skip])
  case idle
  with assms(3-5) show ?thesis by (simp add: archival_done_def block_range_def)
next
  case (archive x)
  then show ?thesis by (simp add: assms(3) archive_batch_def read_block_batch_def block_range_def)
next
  case (skip x db')
  with assms(3-5) skip_view [OF skip(2)] show ?thesis
    by (simp add: archival_done_def block_range_def oversized_def)
qed

lemma archival_turn_shrinks:
  assumes inv: "invar (ps_db s)" and ok: "db_ok C (view (ps_db s))" and size: "archive_batch_size cfg \<noteq> 0"
    and turn: "archival_turn R C cfg s = (None, s')"
  shows "invar (ps_db s')" "db_ok C (view (ps_db s'))"
    "card (hot_numbers (view (ps_db s'))) < card (hot_numbers (view (ps_db s)))"
proof -
  obtain e r where e: "complete_batch cfg (view (ps_db s)) e"
    and b: "archive_batch R C cfg e (archive_batch_size cfg) s = (r, s')" "r = Inr ()"
    by (rule archival_turn_cases [OF inv ok, of cfg]) (use turn in \<open>auto split: prod.splits sum.splits\<close>)
  have db': "invar (ps_db s')" "view (ps_db s') = apply_batch (archive_ops e (archive_batch_size cfg)) (view (ps_db s))"
    using archive_batch_db [OF inv b(1) size] b(2) by auto
  note t' = archive_ops_view [OF ok, of e "archive_batch_size cfg", folded db'(2)]
  show "invar (ps_db s')" "db_ok C (view (ps_db s'))" using db'(1) t'(1) by auto
  have "e \<in> set (block_range e (archive_batch_size cfg))"
    using size by (auto simp: set_block_range unat_gt_0 intro!: exI [of _ 0])
  then show "card (hot_numbers (view (ps_db s'))) < card (hot_numbers (view (ps_db s)))"
    unfolding t'(2) by (intro psubset_card_mono finite_hot_numbers inv) (use e in auto)
qed

lemma cycle_returns:
  assumes "invar (ps_db s)" and "db_ok C (view (ps_db s))" and "archive_batch_size cfg \<noteq> 0"
  shows "\<exists>r s'. run_archival_cycle R C cfg s = Some (r, s')"
  using assms
proof (induction "card (hot_numbers (view (ps_db s)))" arbitrary: s rule: less_induct)
  case less
  obtain x s1 where turn: "archival_turn R C cfg s = (x, s1)" by fastforce
  show ?case
  proof (cases x)
    case None
    note shrink = archival_turn_shrinks [OF less.prems turn [unfolded None]]
    from less.hyps [OF shrink(3,1,2) less.prems(3)] show ?thesis
      by (subst run_archival_cycle.simps) (simp add: turn None)
  qed (subst run_archival_cycle.simps, simp add: turn)
qed

lemma cycle_keeps_blocks:
  assumes "invar (ps_db s)" and "archive_ok C cfg (view (ps_db s)) (ps_disk s) (ps_indices s)"
    and "archive_batch_size cfg \<noteq> 0" "unat (archive_batch_size cfg) \<le> 2 ^ 32"
  shows "\<exists>s'. run_archival_cycle R C cfg s = Some (Inr (), s') \<and> invar (ps_db s') \<and>
    archive_ok C cfg (view (ps_db s')) (ps_disk s') (ps_indices s') \<and> archival_done cfg (view (ps_db s')) \<and>
    same_bookkeeping (view (ps_db s)) (view (ps_db s')) \<and>
    (\<forall>n. block_bytes C (view (ps_db s')) (ps_disk s') (ps_indices s') n =
      block_bytes C (view (ps_db s)) (ps_disk s) (ps_indices s) n)"
  using assms
proof (induction "card (hot_numbers (view (ps_db s)))" arbitrary: s rule: less_induct)
  case less
  have ok: "db_ok C (view (ps_db s))" using less.prems(2) by (simp add: archive_ok_def)
  show ?case
  proof (cases rule: archival_turn_cases [OF less.prems(1) ok, of cfg, case_names idle archive skip])
    case idle
    with less.prems show ?thesis by (subst run_archival_cycle.simps) (simp add: same_bookkeeping_def)
  next
    case (archive e)
    obtain s1 where s1: "archive_batch R C cfg e (archive_batch_size cfg) s = (Inr (), s1)" "invar (ps_db s1)"
      "archive_ok C cfg (view (ps_db s1)) (ps_disk s1) (ps_indices s1)"
      "view (ps_db s1) = apply_batch (archive_ops e (archive_batch_size cfg)) (view (ps_db s))"
      "\<And>n. block_bytes C (view (ps_db s1)) (ps_disk s1) (ps_indices s1) n =
        block_bytes C (view (ps_db s)) (ps_disk s) (ps_indices s) n"
      using archive_batch_ok [OF less.prems(1,2) archive(1) less.prems(3,4)] by metis
    then have turn: "archival_turn R C cfg s = (None, s1)" by (simp add: archive(2))
    note shrink = archival_turn_shrinks [OF less.prems(1) ok less.prems(3) turn]
    have "same_bookkeeping (view (ps_db s)) (view (ps_db s1))"
      using archive_ops_view(4,5) [OF ok, of e "archive_batch_size cfg"] by (simp add: same_bookkeeping_def s1(4))
    with less.hyps [OF shrink(3) s1(2,3) less.prems(3,4)] s1(5) turn show ?thesis
      by (subst run_archival_cycle.simps) (auto intro: same_bookkeeping_trans)
  next
    case (skip e db')
    note sv = skip_view [OF skip(2)]
    have "block_bytes C (view db') (ps_disk s) (ps_indices s) n =
        block_bytes C (view (ps_db s)) (ps_disk s) (ps_indices s) n" for n
      by (simp add: block_bytes_def sv(3))
    moreover have "same_bookkeeping (view (ps_db s)) (view db')"
      using sv(4,6) by (simp add: same_bookkeeping_def)
    moreover have "archive_ok C cfg (view db') (ps_disk s) (ps_indices s)"
      using less.prems(2) sv(1,2,5) by (simp add: archive_ok_def)
    ultimately show ?thesis
      using skip by (subst run_archival_cycle.simps) simp
  qed
qed

end

lemma run_archival_cycle_stuck:
  assumes "archival_turn R C cfg s = (None, s)"
  shows "run_archival_cycle R C cfg s = None"
proof (rule ccontr)
  assume "run_archival_cycle R C cfg s \<noteq> None"
  then obtain y where "run_archival_cycle R C cfg s = Some y" by auto
  then have "archival_turn R C cfg s \<noteq> (None, s)"
    by (rule run_archival_cycle.raw_induct [where P = "\<lambda>R C cfg s y. archival_turn R C cfg s \<noteq> (None, s)", rotated])
      auto
  with assms show False by simp
qed

section \<open>An example state\<close>

text \<open>Two blocks in the hot tier, which is configured to hold one, and batches of one block.\<close>

definition stored_form :: "block \<Rightarrow> bytes" where
  "stored_form b = fst fmt_bytes (fst fmt_block b)"

definition two_blocks_db :: ref_db where
  "two_blocks_db = ref_empty(
     CF_HOT_BLOCKS := [(u64_to_be 4, stored_form (example_block 4)), (u64_to_be 5, stored_form (example_block 5))],
     CF_METADATA := [(EARLIEST_HOT_KEY, u64_to_be 4), (LATEST_PERSISTED_KEY, u64_to_be 5)])"

definition two_blocks :: "ref_db pstate" where
  "two_blocks = \<lparr>ps_db = two_blocks_db, ps_disk = empty_disk, ps_indices = [], ps_trigger = False\<rparr>"

definition small_config :: "u64 \<Rightarrow> persistence_config" where
  "small_config n = default_persistence_config\<lparr>hot_storage_block_count := 1, archive_batch_size := n\<rparr>"

lemma two_blocks_invar: "ref_invar two_blocks_db"
  by (simp add: ref_invar_def two_blocks_db_def ref_empty_def EARLIEST_HOT_KEY_def LATEST_PERSISTED_KEY_def ascii_def)

lemma two_blocks_hot:
  "ref_view two_blocks_db CF_HOT_BLOCKS k =
     (if k = u64_to_be 4 then Some (stored_form (example_block 4))
      else if k = u64_to_be 5 then Some (stored_form (example_block 5)) else None)"
  by (auto simp: ref_view_def two_blocks_db_def)

lemma stored_form_codec:
  "bincode_serialize ref_codec (encode_to_vec ref_codec b) = Inr (stored_form b)"
  "bincode_deserialize ref_codec (stored_form b) = Inr (encode_to_vec ref_codec b)"
proof -
  show *: "bincode_serialize ref_codec (encode_to_vec ref_codec b) = Inr (stored_form b)"
    by (simp add: ref_codec_def stored_form_def)
  show "bincode_deserialize ref_codec (stored_form b) = Inr (encode_to_vec ref_codec b)"
    by (rule refc.deserialize_serialize [OF *])
qed

lemma two_blocks_db_ok: "db_ok ref_codec (ref_view two_blocks_db)"
proof -
  have "get_block_number (example_block n) = Inr n" for n by (simp add: get_block_number_def)
  then have "hot_ok ref_codec (ref_view two_blocks_db)"
    unfolding hot_ok_def two_blocks_hot by (auto simp: stored_form_codec split: if_splits)
  moreover have "meta_ok (ref_view two_blocks_db)"
    by (auto simp: meta_ok_def ref_view_def two_blocks_db_def split: if_splits)
  moreover have "gaps_ok (ref_view two_blocks_db)"
    by (simp add: gaps_ok_def gaps_of_def ref_view_def two_blocks_db_def ref_empty_def gaps_wf_def)
  ultimately show ?thesis by (simp add: db_ok_def)
qed

lemma two_blocks_hot_bytes:
  "hot_bytes ref_codec (ref_view two_blocks_db) n =
     (if n = 4 \<or> n = 5 then Some (encode_to_vec ref_codec (example_block n)) else None)"
  by (auto simp: hot_bytes_def two_blocks_hot stored_form_codec)

lemma two_blocks_archive_ok: "archive_ok ref_codec cfg (ref_view two_blocks_db) empty_disk []"
proof -
  have numbers: "hot_numbers (ref_view two_blocks_db) = {4, 5}"
    by (auto simp: hot_numbers_def two_blocks_hot split: if_splits)
  have "length (compressed ref_codec b) < 2 ^ 32"
    if "encode_to_vec ref_codec b = encode_to_vec ref_codec (example_block n)" for n b
  proof -
    have "b = example_block n"
      using arg_cong [OF that, of "decode_block ref_codec"] by (simp only: refc.decode_encode sum.inject)
    then show ?thesis using example_compressed [of n] by simp
  qed
  then have "\<forall>n b. hot_bytes ref_codec (ref_view two_blocks_db) n = Some (encode_to_vec ref_codec b) \<longrightarrow>
      length (compressed ref_codec b) < 2 ^ 32"
    unfolding two_blocks_hot_bytes by (metis option.inject option.distinct(1))
  then have "hot_small ref_codec (ref_view two_blocks_db)" by (simp add: hot_small_def numbers)
  then show ?thesis
    using two_blocks_db_ok by (simp add: archive_ok_def cold_ok_def cold_numbers_def)
qed

section \<open>Properties\<close>

text \<open>
  C5: Archiving loses nothing. With a batch size other than zero and of at most 2 to the power 32, and a disk
  without faults, the archival cycle returns, every block is read from the two tiers exactly as before,
  the gaps and all watermarks but the earliest hot block are unchanged, and the hot tier is then within
  its configured size or starts with a batch that has a hole and is marked as skipped.
\<close>

theorem archival_cycle_keeps_blocks:
  assumes "persist_laws R view invar C" and "invar (ps_db s)"
    and "archive_ok C cfg (view (ps_db s)) (ps_disk s) (ps_indices s)"
    and "archive_batch_size cfg \<noteq> 0" and "unat (archive_batch_size cfg) \<le> 2 ^ 32"
  shows "\<exists>s'. run_archival_cycle R C cfg s = Some (Inr (), s') \<and> invar (ps_db s') \<and>
    archive_ok C cfg (view (ps_db s')) (ps_disk s') (ps_indices s') \<and> archival_done cfg (view (ps_db s')) \<and>
    same_bookkeeping (view (ps_db s)) (view (ps_db s')) \<and>
    (\<forall>n. block_bytes C (view (ps_db s')) (ps_disk s') (ps_indices s') n =
      block_bytes C (view (ps_db s)) (ps_disk s) (ps_indices s) n)"
  using persist_laws.cycle_keeps_blocks [OF assms] .

theorem archival_cycle_keeps_blocks_witness:
  "\<exists>s'. run_archival_cycle ref_rocksdb ref_codec (small_config 1) two_blocks = Some (Inr (), s') \<and> ref_invar (ps_db s') \<and>
    archive_ok ref_codec (small_config 1) (ref_view (ps_db s')) (ps_disk s') (ps_indices s') \<and>
    archival_done (small_config 1) (ref_view (ps_db s')) \<and>
    same_bookkeeping (ref_view (ps_db two_blocks)) (ref_view (ps_db s')) \<and>
    (\<forall>n. block_bytes ref_codec (ref_view (ps_db s')) (ps_disk s') (ps_indices s') n =
      block_bytes ref_codec (ref_view (ps_db two_blocks)) (ps_disk two_blocks) (ps_indices two_blocks) n)"
  by (rule archival_cycle_keeps_blocks [OF refp.persist_laws_axioms])
    (simp_all add: two_blocks_def two_blocks_invar two_blocks_archive_ok small_config_def)

text \<open>
  C32: the archival cycle returns for every batch size other than zero, whatever faults the disk has.
\<close>

theorem archival_cycle_terminates:
  assumes "persist_laws R view invar C" and "invar (ps_db s)" and "db_ok C (view (ps_db s))"
    and "archive_batch_size cfg \<noteq> 0"
  shows "\<exists>r s'. run_archival_cycle R C cfg s = Some (r, s')"
  using persist_laws.cycle_returns [OF assms] .

theorem archival_cycle_terminates_witness:
  "\<exists>r s'. run_archival_cycle ref_rocksdb ref_codec (small_config 1)
    (two_blocks\<lparr>ps_disk := empty_disk\<lparr>faults := [False, True]\<rparr>\<rparr>) = Some (r, s')"
  by (rule archival_cycle_terminates [OF refp.persist_laws_axioms])
    (simp_all add: two_blocks_def two_blocks_invar two_blocks_db_ok small_config_def)

text \<open>
  C33: with a batch size of zero every batch counts as complete and archiving it does nothing, so the
  cycle never returns once the hot tier is over its configured size.
\<close>

theorem archival_cycle_zero_batch_diverges:
  assumes "persist_laws R view invar C" and "invar (ps_db s)" and "db_ok C (view (ps_db s))"
    and "archive_batch_size cfg = 0" and "meta (view (ps_db s)) EARLIEST_HOT_KEY = Some e"
    and "oversized cfg (view (ps_db s)) e"
  shows "run_archival_cycle R C cfg s = None"
  using persist_laws.archival_turn_zero [OF assms] by (rule run_archival_cycle_stuck)

theorem archival_cycle_zero_batch_diverges_witness:
  "run_archival_cycle ref_rocksdb ref_codec (small_config 0) two_blocks = None"
proof (rule archival_cycle_zero_batch_diverges [OF refp.persist_laws_axioms])
  show "meta (ref_view (ps_db two_blocks)) EARLIEST_HOT_KEY = Some 4"
    by (simp add: two_blocks_def meta_def ref_view_def two_blocks_db_def)
  have "meta (ref_view (ps_db two_blocks)) LATEST_PERSISTED_KEY = Some 5"
    by (simp add: two_blocks_def meta_def ref_view_def two_blocks_db_def)
  then show "oversized (small_config 0) (ref_view (ps_db two_blocks)) 4"
    by (simp add: oversized_def small_config_def saturating_sub_def)
qed (simp_all add: two_blocks_def two_blocks_invar two_blocks_db_ok small_config_def)

end
