(* ===== verification/Persist_Service.thy ===== *)
theory Persist_Service
  imports Archiver Block_Cache
begin

text \<open>
  The persistence service (\<^verbatim>\<open>persistence-plugin/src/service.rs\<close>) and the plugin around it
  (\<^verbatim>\<open>persistence-plugin/src/lib.rs\<close>): reading from the two tiers, the live write path with its
  watermark and gap bookkeeping, the historical batch path, the initialisation and the handling of
  an event. The forward walk over persisted blocks is a loop over machine integers, so it is a
  partial function whose value \<open>None\<close> means that it does not return. The main results: a written
  block is read back, and the highest contiguous watermark never covers a block that is not stored.
\<close>

section \<open>Fallible computations that may not return\<close>

definition opt_then :: "'a res option \<Rightarrow> ('a \<Rightarrow> 'b res option) \<Rightarrow> 'b res option" where
  "opt_then m f = (case m of None \<Rightarrow> None | Some (Inl e) \<Rightarrow> Some (Inl e) | Some (Inr x) \<Rightarrow> f x)"

lemma opt_then_simps [simp]:
  "opt_then None f = None" "opt_then (Some (Inl e)) f = Some (Inl e)" "opt_then (Some (Inr x)) f = f x"
  by (simp_all add: opt_then_def)

section \<open>Reading\<close>

definition get_latest_persisted_block_number :: "'db rocksdb \<Rightarrow> 'db pstate \<Rightarrow> u64 option res" where
  "get_latest_persisted_block_number R s = get_latest_persisted R (ps_db s)"

definition get_earliest_persisted_block_number :: "'db rocksdb \<Rightarrow> 'db pstate \<Rightarrow> u64 option res" where
  "get_earliest_persisted_block_number R s = get_true_earliest_persisted R (ps_db s)"

definition get_highest_contiguous_block_number :: "'db rocksdb \<Rightarrow> 'db pstate \<Rightarrow> u64 res" where
  "get_highest_contiguous_block_number R s = get_highest_contiguous R (ps_db s)"

definition read_block :: "'db rocksdb \<Rightarrow> codec \<Rightarrow> 'db pstate \<Rightarrow> u64 \<Rightarrow> bytes option res \<times> 'db pstate" where
  "read_block R C s n =
     (case hot_read_block R C (ps_db s) n of
        Inl e \<Rightarrow> (Inl e, s)
      | Inr (Some bs) \<Rightarrow> (Inr (Some bs), s)
      | Inr None \<Rightarrow>
          (case cold_read_block C (ps_indices s) n (ps_disk s) of
             (r, d) \<Rightarrow> (r, s\<lparr>ps_disk := d\<rparr>)))"

section \<open>The live write path\<close>

text \<open>
  The walk: from \<open>next_to_check\<close> on, as far as \<open>new_latest_persisted\<close>, until a block lies in a
  recorded gap. It reads the store, not the batch under construction.
\<close>

partial_function (option) walk ::
    "'db rocksdb \<Rightarrow> 'db \<Rightarrow> u64 \<Rightarrow> u64 \<Rightarrow> u64 \<Rightarrow> u64 res option" where
  "walk R db new_latest_persisted next_to_check current_highest =
     (if next_to_check \<le> new_latest_persisted
      then (case find_containing_gap R db next_to_check of
              Inl e \<Rightarrow> Some (Inl e)
            | Inr (Some _) \<Rightarrow> Some (Inr current_highest)
            | Inr None \<Rightarrow> walk R db new_latest_persisted (next_to_check + 1) next_to_check)
      else Some (Inr current_highest))"

definition update_contiguous ::
    "'db rocksdb \<Rightarrow> 'db \<Rightarrow> u64 \<Rightarrow> u64 \<Rightarrow> write_batch \<Rightarrow> write_batch res option" where
  "update_contiguous R db n new_latest_persisted batch =
     opt_then (Some (get_highest_contiguous R db)) (\<lambda>current_highest.
     if current_highest + 1 < n then Some (add_gap_range R db (current_highest + 1) (n - 1) batch)
     else if n = current_highest + 1 then
       opt_then (walk R db new_latest_persisted (n + 1) n) (\<lambda>h.
       Some (set_highest_contiguous R db h batch))
     else
       opt_then (Some (fill_gap_block R db n batch)) (\<lambda>batch1.
       opt_then (walk R db new_latest_persisted (current_highest + 1) current_highest) (\<lambda>h.
       Some (set_highest_contiguous R db h batch1))))"

text \<open>The batch of a write, and whether the block lay in a gap.\<close>

definition block_batch ::
    "'db rocksdb \<Rightarrow> codec \<Rightarrow> u64 \<Rightarrow> 'db \<Rightarrow> block \<Rightarrow> u64 \<Rightarrow> (bool \<times> write_batch) res option" where
  "block_batch R C start_block_num db b n =
     opt_then (Some (find_containing_gap R db n)) (\<lambda>gap.
     opt_then (Some (add_block_to_batch R C db b n [])) (\<lambda>batch1.
     opt_then (Some (get_latest_persisted R db)) (\<lambda>lp.
     let latest_persisted = (case lp of None \<Rightarrow> saturating_sub start_block_num 1 | Some m \<Rightarrow> m);
         new_latest_persisted = max latest_persisted n
     in
     opt_then (Some (if latest_persisted < new_latest_persisted
       then set_latest_persisted R db new_latest_persisted batch1 else Inr batch1)) (\<lambda>batch2.
     opt_then (Some (get_true_earliest_persisted R db)) (\<lambda>te.
     opt_then (Some (if te = None then set_true_earliest_persisted R db n batch2 else Inr batch2)) (\<lambda>batch3.
     opt_then (update_contiguous R db n new_latest_persisted batch3) (\<lambda>batch4.
     opt_then (Some (initialize_earliest_hot R db n batch4)) (\<lambda>batch5.
     Some (Inr (gap \<noteq> None, batch5))))))))))"

text \<open>
  After the commit, a filled gap may have completed a batch the archiver skipped. Division by a
  batch size of zero panics in the blocking task, which its caller sees as an error.
\<close>

definition notify_gap_fill ::
    "'db rocksdb \<Rightarrow> persistence_config \<Rightarrow> u64 \<Rightarrow> 'db pstate \<Rightarrow> unit res \<times> 'db pstate" where
  "notify_gap_fill R cfg n s =
     (let batch_size = archive_batch_size cfg
      in if batch_size = 0 then (Inl DivisionByZero, s)
         else (case is_batch_skipped R (ps_db s) ((n div batch_size) * batch_size) of
             Inl e \<Rightarrow> (Inl e, s)
           | Inr skipped \<Rightarrow> (Inr (), if skipped then notify_check s else s)))"

definition write_block ::
    "'db rocksdb \<Rightarrow> codec \<Rightarrow> persistence_config \<Rightarrow> u64 \<Rightarrow> block \<Rightarrow> 'db pstate \<Rightarrow> (unit res \<times> 'db pstate) option" where
  "write_block R C cfg start_block_num b s =
     (case get_block_number b of
        Inl e \<Rightarrow> Some (Inl e, s)
      | Inr n \<Rightarrow>
          (case block_batch R C start_block_num (ps_db s) b n of
             None \<Rightarrow> None
           | Some (Inl e) \<Rightarrow> Some (Inl e, s)
           | Some (Inr (was_gap_fill, batch)) \<Rightarrow>
               (case commit_batch R (ps_db s) batch of
                  Inl e \<Rightarrow> Some (Inl e, s)
                | Inr db' \<Rightarrow>
                    Some (if was_gap_fill then notify_gap_fill R cfg n (s\<lparr>ps_db := db'\<rparr>)
                          else (Inr (), s\<lparr>ps_db := db'\<rparr>)))))"

section \<open>The historical path\<close>

definition write_block_batch ::
    "'db rocksdb \<Rightarrow> codec \<Rightarrow> persistence_config \<Rightarrow> block list \<Rightarrow> 'db pstate \<Rightarrow> unit res \<times> 'db pstate" where
  "write_block_batch R C cfg blocks s =
     (if blocks = [] then (Inr (), s)
      else (case write_archive C cfg blocks (ps_disk s) of
          (Inl e, d) \<Rightarrow> (Inl e, s\<lparr>ps_disk := d\<rparr>)
        | (Inr new_index_path, d) \<Rightarrow>
            let (loaded, d') = load_index_file C new_index_path (ps_indices s) d;
                s' = s\<lparr>ps_disk := d',
                       ps_indices := (case loaded of Inl _ \<Rightarrow> ps_indices s | Inr idx \<Rightarrow> idx)\<rparr>
            in case and_then (get_block_number (hd blocks)) (update_true_earliest_if_less R (ps_db s)) of
                 Inl e \<Rightarrow> (Inl e, s')
               | Inr db' \<Rightarrow> (Inr (), s'\<lparr>ps_db := db'\<rparr>)))"

section \<open>The plugin\<close>

text \<open>
  Initialisation: scan the archives, determine the earliest block once, and seed the contiguous
  watermark from the configured first block.
\<close>

definition earliest_of :: "u64 option \<Rightarrow> u64 option \<Rightarrow> u64 option" where
  "earliest_of earliest_cold earliest_hot =
     (case (earliest_cold, earliest_hot) of
        (Some c, Some h) \<Rightarrow> Some (min c h)
      | (Some c, None) \<Rightarrow> Some c
      | (None, Some h) \<Rightarrow> Some h
      | (None, None) \<Rightarrow> None)"

definition init_db :: "'db rocksdb \<Rightarrow> u64 \<Rightarrow> indices \<Rightarrow> 'db \<Rightarrow> 'db res" where
  "init_db R start_block_num idx db =
     and_then (get_true_earliest_persisted R db) (\<lambda>te.
     and_then
       (if te = None
        then and_then (get_earliest_indexed_block idx) (\<lambda>earliest_cold.
             and_then (get_earliest_block_number R db) (\<lambda>earliest_hot.
             case earliest_of earliest_cold earliest_hot of
               None \<Rightarrow> Inr db
             | Some earliest \<Rightarrow> initialize_true_earliest_persisted R db earliest))
        else Inr db)
       (\<lambda>db'. initialize_highest_contiguous R db' (saturating_sub start_block_num 1)))"

definition persistence_initialize ::
    "'db rocksdb \<Rightarrow> codec \<Rightarrow> config \<Rightarrow> path list res \<Rightarrow> 'db \<Rightarrow> disk \<Rightarrow> 'db pstate res \<times> disk" where
  "persistence_initialize R C conf read_dir db d =
     (case scan_and_build_index C (persistence_service (plugins conf)) read_dir [] d of
        (Inl e, d') \<Rightarrow> (Inl e, d')
      | (Inr idx, d') \<Rightarrow>
          (and_then (init_db R (start_block_number (core conf)) idx db) (\<lambda>db'.
             Inr \<lparr>ps_db = db', ps_disk = d', ps_indices = idx, ps_trigger = False\<rparr>), d'))"

text \<open>What woke the archival task: a shutdown, a notification or the half-minute timer.\<close>

datatype wakeup = Shutdown | Triggered | TimerFired

definition archiver_wakeup ::
    "'db rocksdb \<Rightarrow> codec \<Rightarrow> persistence_config \<Rightarrow> wakeup \<Rightarrow> 'db pstate \<Rightarrow> (bool \<times> 'db pstate) option" where
  "archiver_wakeup R C cfg w s =
     (case w of
        Shutdown \<Rightarrow> Some (False, s)
      | Triggered \<Rightarrow> map_option (\<lambda>(_, s'). (True, s')) (run_archival_cycle R C cfg (s\<lparr>ps_trigger := False\<rparr>))
      | TimerFired \<Rightarrow> map_option (\<lambda>(_, s'). (True, s')) (run_archival_cycle R C cfg s))"

datatype inbound_event = Verified block_verified | Unverified block_items_received

fun inbound_block_number :: "inbound_event \<Rightarrow> u64" where
  "inbound_block_number (Verified e) = block_number e"
| "inbound_block_number (Unverified e) = block_number e"

fun inbound_cache_key :: "inbound_event \<Rightarrow> uuid" where
  "inbound_cache_key (Verified e) = cache_key e"
| "inbound_cache_key (Unverified e) = cache_key e"

text \<open>
  Which of the two channels feeds the event loop: the verified one when the capability is
  registered, else the unverified one if the plugin was given it. A closed channel ends the loop.
\<close>

definition next_event ::
    "capability_registry \<Rightarrow> block_verified option \<Rightarrow> block_items_received option option \<Rightarrow> inbound_event option" where
  "next_event reg rx_verified rx_items_received =
     (if is_registered ProvidesVerifiedBlocks reg then map_option Verified rx_verified
      else (case rx_items_received of None \<Rightarrow> None | Some r \<Rightarrow> map_option Unverified r))"

text \<open>Handling an event returns the persisted events it broadcasts.\<close>

definition process_event ::
    "'db rocksdb \<Rightarrow> codec \<Rightarrow> persistence_config \<Rightarrow> u64 \<Rightarrow> inbound_event \<Rightarrow> block_data_cache \<Rightarrow> 'db pstate \<Rightarrow>
     (block_persisted list \<times> block_data_cache \<times> 'db pstate) option" where
  "process_event R C cfg start_block_num event bc s =
     (let n = inbound_block_number event; key = inbound_cache_key event
      in case cache_get key bc of
           None \<Rightarrow> Some ([], mark_for_removal key bc, s)
         | Some data \<Rightarrow>
             (case decode_block C (bd_contents data) of
                Inl e \<Rightarrow> Some ([], mark_for_removal key bc, s)
              | Inr b \<Rightarrow>
                  (case write_block R C cfg start_block_num b s of
                     None \<Rightarrow> None
                   | Some (Inl e, s') \<Rightarrow> Some ([], mark_for_removal key bc, s')
                   | Some (Inr _, s') \<Rightarrow>
                       Some ([\<lparr>block_number = n, cache_key = key\<rparr>], mark_for_removal key bc, s'))))"

section \<open>What a write does to the bookkeeping\<close>

definition hc :: "tables \<Rightarrow> u64" where
  "hc t = (case meta t HIGHEST_CONTIGUOUS_KEY of None \<Rightarrow> 0 | Some n \<Rightarrow> n)"

definition lp :: "u64 \<Rightarrow> tables \<Rightarrow> u64" where
  "lp base t = (case meta t LATEST_PERSISTED_KEY of None \<Rightarrow> base | Some n \<Rightarrow> n)"

text \<open>
  The walk stops at the last block before the first recorded gap, or at the limit. A write beyond
  the next expected block records a gap, the expected block moves the watermark, an older block is
  taken out of the gaps.
\<close>

definition walked :: "tables \<Rightarrow> u64 \<Rightarrow> u64 \<Rightarrow> u64 \<Rightarrow> bool" where
  "walked t limit c h \<longleftrightarrow>
     c \<le> h \<and> (h = c \<or> h \<le> limit) \<and> (\<forall>m. c < m \<and> m \<le> h \<longrightarrow> m \<notin> missing t) \<and>
     (h < limit \<longrightarrow> h + 1 \<in> missing t)"

definition contig_step :: "tables \<Rightarrow> u64 \<Rightarrow> u64 \<Rightarrow> u64 \<Rightarrow> u64 set \<Rightarrow> bool" where
  "contig_step t n limit h M \<longleftrightarrow>
     (if hc t + 1 < n then h = hc t \<and> M = missing t \<union> {hc t + 1..n - 1}
      else if n = hc t + 1 then M = missing t \<and> walked t limit n h
      else M = missing t - {n} \<and> walked t limit (hc t) h)"

definition write_effect :: "codec \<Rightarrow> u64 \<Rightarrow> tables \<Rightarrow> block \<Rightarrow> u64 \<Rightarrow> u64 \<Rightarrow> u64 set \<Rightarrow> tables \<Rightarrow> bool" where
  "write_effect C base t b n h M t' \<longleftrightarrow>
     db_ok C t' \<and> hot_numbers t' = insert n (hot_numbers t) \<and>
     hot_bytes C t' = (hot_bytes C t)(n \<mapsto> encode_to_vec C b) \<and>
     missing t' = M \<and> hc t' = h \<and> lp base t' = max (lp base t) n \<and>
     meta t' TRUE_EARLIEST_PERSISTED_KEY = Some (case meta t TRUE_EARLIEST_PERSISTED_KEY of None \<Rightarrow> n | Some m \<Rightarrow> m) \<and>
     meta t' EARLIEST_HOT_KEY = Some (case meta t EARLIEST_HOT_KEY of None \<Rightarrow> n | Some m \<Rightarrow> m) \<and>
     t' CF_SKIPPED_BATCHES = t CF_SKIPPED_BATCHES"

text \<open>Batches of watermark updates.\<close>

definition meta_puts :: "(bytes \<times> u64) list \<Rightarrow> write_batch" where
  "meta_puts ms = map (\<lambda>(k, n). PutCf CF_METADATA k (u64_to_be n)) ms"

lemma cf_ops_meta_puts [simp]: "cf_ops c (meta_puts ms) = (if c = CF_METADATA then meta_puts ms else [])"
  by (induction ms) (auto simp: meta_puts_def)

lemma meta_puts_append: "meta_puts (xs @ ys) = meta_puts xs @ meta_puts ys"
  by (simp add: meta_puts_def)

lemma meta_puts_view:
  assumes "t' CF_METADATA = fold table_op (meta_puts ms) (t CF_METADATA)" and "meta_ok t"
  shows "meta_ok t' \<and> (\<forall>k. meta t' k = (case map_of (rev ms) k of None \<Rightarrow> meta t k | Some n \<Rightarrow> Some n))"
  using assms
proof (induction ms arbitrary: t' rule: rev_induct)
  case (snoc m ms)
  let ?t = "t(CF_METADATA := fold table_op (meta_puts ms) (t CF_METADATA))"
  have IH: "meta_ok ?t \<and> (\<forall>k. meta ?t k = (case map_of (rev ms) k of None \<Rightarrow> meta t k | Some n \<Rightarrow> Some n))"
    by (rule snoc.IH) (simp_all add: snoc.prems(2))
  have "t' CF_METADATA = (?t CF_METADATA)(fst m \<mapsto> u64_to_be (snd m))"
    using snoc.prems(1) by (simp add: meta_puts_def split_beta fun_upd_def)
  from db_ok_meta_put [where t' = t' and t = ?t, OF conjunct1 [OF IH] this] IH show ?case by (simp split: option.splits)
qed (auto simp: meta_puts_def dest: meta_cong)

lemma u64_le_not_max: "a \<le> b \<Longrightarrow> b \<noteq> u64_MAX \<Longrightarrow> (a :: u64) \<noteq> u64_MAX"
  using word_n1_ge [of b] by (auto dest: antisym)

context persist_laws
begin

lemma gap_update_refl: "gaps_ok t \<Longrightarrow> gap_update t [] (missing t)"
  by (simp add: gap_update_def gaps_ok_def missing_def gaps_of_def)

lemma find_containing_gap_correct_iff:
  assumes "invar db" "gaps_ok (view db)"
  shows "\<exists>g. find_containing_gap R db n = Inr g \<and> (g \<noteq> None) = (n \<in> missing (view db))"
proof -
  obtain g where "find_containing_gap R db n = Inr g" "case g of None \<Rightarrow> n \<notin> missing (view db)
    | Some (s, e) \<Rightarrow> gaps_of (view db) s = Some e \<and> s \<le> n \<and> n \<le> e"
    using find_containing_gap_eq [OF assms] by blast
  then show ?thesis by (cases g) (auto simp: missing_def intro: gap_setI)
qed

lemma walk_eq:
  assumes "invar db" "gaps_ok (view db)" "limit \<noteq> u64_MAX" "c \<noteq> u64_MAX"
  shows "\<exists>h. walk R db limit (c + 1) c = Some (Inr h) \<and> walked (view db) limit c h"
  using assms(4)
proof (induction "unat limit - unat c" arbitrary: c rule: less_induct)
  case less
  obtain g where g: "find_containing_gap R db (c + 1) = Inr g"
    "case g of None \<Rightarrow> c + 1 \<notin> missing (view db)
     | Some (s, e) \<Rightarrow> gaps_of (view db) s = Some e \<and> s \<le> c + 1 \<and> c + 1 \<le> e"
    using find_containing_gap_eq [OF assms(1,2)] by blast
  have le: "c + 1 \<le> limit \<longleftrightarrow> c < limit" by (rule u64_Suc_le [OF less.prems])
  have step: "walk R db limit (c + 1) c = (if c < limit then (case g of None \<Rightarrow> walk R db limit (c + 1 + 1) (c + 1)
      | Some _ \<Rightarrow> Some (Inr c)) else Some (Inr c))"
    by (subst walk.simps) (simp add: le g(1) split: option.splits)
  show ?case
  proof (cases "c < limit \<and> g = None")
    case True
    have c1: "c + 1 \<noteq> u64_MAX" by (rule u64_le_not_max [of _ limit]) (use le True assms(3) in simp_all)
    have "unat limit - unat (c + 1) < unat limit - unat c"
      using True by (auto simp: u64_succ_unat [OF less.prems] word_less_nat_alt)
    from less.hyps [OF this c1] obtain h where h: "walk R db limit (c + 1 + 1) (c + 1) = Some (Inr h)"
      "walked (view db) limit (c + 1) h" by blast
    have "m = c + 1 \<or> c + 1 < m" if "c < m" for m
      using that u64_Suc_le [OF less.prems, of m] by auto
    then have "walked (view db) limit c h"
      using h(2) True g(2) le u64_less_Suc_le [OF less.prems, of c] unfolding walked_def
      by (auto intro: less_imp_le order_trans)
    with h(1) True show ?thesis by (simp add: step)
  next
    case False
    have "c + 1 \<in> missing (view db)" if "c < limit"
      using that False g(2) by (auto simp: missing_def intro: gap_setI)
    then have "walked (view db) limit c c" by (auto simp: walked_def)
    with False show ?thesis by (auto simp: step split: option.splits)
  qed
qed

lemma update_contiguous_eq:
  assumes inv: "invar db" and ok: "db_ok C (view db)" and lim: "limit \<noteq> u64_MAX" "n \<le> limit" "hc (view db) \<noteq> u64_MAX"
  shows "\<exists>gops ms h M. update_contiguous R db n limit batch = Some (Inr (batch @ gops @ meta_puts ms)) \<and>
    gap_update (view db) gops M \<and> contig_step (view db) n limit h M \<and>
    (ms = [] \<and> h = hc (view db) \<or> ms = [(HIGHEST_CONTIGUOUS_KEY, h)])"
proof -
  let ?t = "view db" and ?c = "hc (view db)"
  have t: "gaps_ok ?t" "meta_ok ?t" using ok by (simp_all add: db_ok_def)
  have get: "get_highest_contiguous R db = Inr ?c"
    using inv t(2) by (simp add: watermark_eqs hc_def res_simps split: option.splits)
  have set: "set_highest_contiguous R db h b = Inr (b @ meta_puts [(HIGHEST_CONTIGUOUS_KEY, h)])" for h b
    using inv by (simp add: watermark_eqs meta_puts_def)
  have nmax: "n \<noteq> u64_MAX" by (rule u64_le_not_max [OF lim(2,1)])
  consider "?c + 1 < n" | "n = ?c + 1" | "\<not> ?c + 1 < n" "n \<noteq> ?c + 1" by blast
  then show ?thesis
  proof cases
    case 1
    obtain gops where "add_gap_range R db (?c + 1) (n - 1) batch = Inr (batch @ gops)"
      "gap_update ?t gops (missing ?t \<union> {?c + 1..n - 1})" using add_gap_range_eq [OF inv t(1)] by blast
    with 1 show ?thesis
      by (intro exI [of _ gops] exI [of _ "[]"]) (auto simp: update_contiguous_def get contig_step_def meta_puts_def)
  next
    case 2
    obtain h where "walk R db limit (n + 1) n = Some (Inr h)" "walked ?t limit n h"
      using walk_eq [OF inv t(1) lim(1) nmax] by blast
    with 2 show ?thesis
      using gap_update_refl [OF t(1)] by (intro exI [of _ "[]"] exI [of _ "[(HIGHEST_CONTIGUOUS_KEY, h)]"] exI [of _ h])
        (auto simp: update_contiguous_def get set contig_step_def)
  next
    case 3
    obtain gops where "fill_gap_block R db n batch = Inr (batch @ gops)" "gap_update ?t gops (missing ?t - {n})"
      using fill_gap_block_eq [OF inv t(1)] by blast
    moreover obtain h where "walk R db limit (?c + 1) ?c = Some (Inr h)" "walked ?t limit ?c h"
      using walk_eq [OF inv t(1) lim(1,3)] by blast
    ultimately show ?thesis
      using 3 by (intro exI [of _ gops] exI [of _ "[(HIGHEST_CONTIGUOUS_KEY, h)]"] exI [of _ h])
        (auto simp: update_contiguous_def get set contig_step_def)
  qed
qed

lemma write_effect_batch:
  fixes base n :: u64 and t :: tables
  defines "m1 \<equiv> (if lp base t < max (lp base t) n then [(LATEST_PERSISTED_KEY, max (lp base t) n)] else [])"
    and "m2 \<equiv> (if meta t TRUE_EARLIEST_PERSISTED_KEY = None then [(TRUE_EARLIEST_PERSISTED_KEY, n)] else [])"
    and "m3 \<equiv> (if meta t EARLIEST_HOT_KEY = None then [(EARLIEST_HOT_KEY, n)] else [])"
  assumes ok: "db_ok C t" and b: "get_block_number b = Inr n" and v: "bincode_serialize C (encode_to_vec C b) = Inr v"
    and g: "gap_update t gops M" and ms: "ms = [] \<and> h = hc t \<or> ms = [(HIGHEST_CONTIGUOUS_KEY, h)]"
  shows "write_effect C base t b n h M (apply_batch ([PutCf CF_HOT_BLOCKS (u64_to_be n) v] @
    meta_puts m1 @ meta_puts m2 @ gops @ meta_puts ms @ meta_puts m3) t)"
proof -
  define t' where "t' = apply_batch ([PutCf CF_HOT_BLOCKS (u64_to_be n) v] @
    meta_puts m1 @ meta_puts m2 @ gops @ meta_puts ms @ meta_puts m3) t"
  have t: "gaps_ok t" "meta_ok t" "hot_ok C t" using ok by (simp_all add: db_ok_def)
  have gcf: "cf_ops CF_GAPS gops = gops" "c \<noteq> CF_GAPS \<Longrightarrow> cf_ops c gops = []" for c
    using g by (auto simp: gap_update_def cf_ops_only [where d = CF_GAPS])
  have hot: "t' CF_HOT_BLOCKS = (t CF_HOT_BLOCKS)(u64_to_be n \<mapsto> v)"
    and meta: "t' CF_METADATA = fold table_op (meta_puts (m1 @ m2 @ ms @ m3)) (t CF_METADATA)"
    and gaps: "t' CF_GAPS = fold table_op gops (t CF_GAPS)"
    and skip: "t' CF_SKIPPED_BATCHES = t CF_SKIPPED_BATCHES"
    by (simp_all add: t'_def apply_batch_cf gcf meta_puts_append)
  note mv = meta_puts_view [where t' = t' and t = t, OF meta t(2)]
  have mlook: "meta t' k = (case map_of (rev (m1 @ m2 @ ms @ m3)) k of None \<Rightarrow> meta t k | Some n \<Rightarrow> Some n)" for k
    using mv by blast
  note hp = hot_put [where t' = t' and t = t, OF hot]
  have "gaps_ok t'" "missing t' = M"
    using g gaps by (auto simp: gaps_ok_def missing_def gaps_of_def gap_update_def Let_def)
  moreover have "hot_bytes C t' = (hot_bytes C t)(n \<mapsto> encode_to_vec C b)"
    using hp(2,3) deserialize_serialize [OF v] by (auto simp: fun_eq_iff)
  moreover have "hc t' = h" using ms by (auto simp: hc_def mlook m1_def m2_def m3_def)
  moreover have "lp base t' = max (lp base t) n"
  proof (cases "lp base t < max (lp base t) n")
    case True
    then have "meta t' LATEST_PERSISTED_KEY = Some (max (lp base t) n)"
      using ms by (auto simp: mlook m1_def m2_def m3_def)
    then show ?thesis by (simp add: lp_def [of base t'])
  next
    case False
    then have "meta t' LATEST_PERSISTED_KEY = meta t LATEST_PERSISTED_KEY"
      using ms by (auto simp: mlook m1_def m2_def m3_def)
    moreover have "max (lp base t) n = lp base t" using False by (simp add: max_def split: if_splits)
    ultimately show ?thesis by (simp add: lp_def [of base t'] lp_def [of base t])
  qed
  moreover have "meta t' TRUE_EARLIEST_PERSISTED_KEY = Some (case meta t TRUE_EARLIEST_PERSISTED_KEY of None \<Rightarrow> n | Some m \<Rightarrow> m)"
    "meta t' EARLIEST_HOT_KEY = Some (case meta t EARLIEST_HOT_KEY of None \<Rightarrow> n | Some m \<Rightarrow> m)"
    using ms by (auto simp: mlook m1_def m2_def m3_def)
  ultimately have "write_effect C base t b n h M t'"
    using hp(4) [OF t(3) v b] mv hp(1) skip unfolding write_effect_def db_ok_def by blast
  then show ?thesis by (simp only: t'_def)
qed

lemma block_batch_eq:
  fixes start_block_num :: u64
  defines "base \<equiv> saturating_sub start_block_num 1"
  assumes inv: "invar db" and ok: "db_ok C (view db)" and b: "get_block_number b = Inr n"
    and max: "n \<noteq> u64_MAX" "lp base (view db) \<noteq> u64_MAX" "hc (view db) \<noteq> u64_MAX"
  shows "\<exists>batch h M. block_batch R C start_block_num db b n = Some (Inr (n \<in> missing (view db), batch)) \<and>
    contig_step (view db) n (max (lp base (view db)) n) h M \<and>
    write_effect C base (view db) b n h M (apply_batch batch (view db))"
proof -
  let ?t = "view db" and ?L = "max (lp base (view db)) n"
  have t: "gaps_ok ?t" "meta_ok ?t" using ok by (simp_all add: db_ok_def)
  obtain g where g: "find_containing_gap R db n = Inr g" "(g \<noteq> None) = (n \<in> missing ?t)"
    using find_containing_gap_correct_iff [OF inv t(1)] by blast
  obtain v where v: "add_block_to_batch R C db b n [] = Inr [PutCf CF_HOT_BLOCKS (u64_to_be n) v]"
    "bincode_serialize C (encode_to_vec C b) = Inr v"
    using add_block_to_batch_eq [OF inv, of b n "[]"] by auto
  let ?m1 = "if lp base ?t < ?L then [(LATEST_PERSISTED_KEY, ?L)] else []"
  let ?m2 = "if meta ?t TRUE_EARLIEST_PERSISTED_KEY = None then [(TRUE_EARLIEST_PERSISTED_KEY, n)] else []"
  let ?m3 = "if meta ?t EARLIEST_HOT_KEY = None then [(EARLIEST_HOT_KEY, n)] else []"
  have puts: "(if lp base ?t < ?L then set_latest_persisted R db ?L x else Inr x) = Inr (x @ meta_puts ?m1)"
    "(if meta ?t TRUE_EARLIEST_PERSISTED_KEY = None then set_true_earliest_persisted R db n x else Inr x) = Inr (x @ meta_puts ?m2)"
    "initialize_earliest_hot R db n x = Inr (x @ meta_puts ?m3)" for x
    using inv t(2) by (simp_all add: watermark_eqs initialize_earliest_hot_def meta_puts_def res_simps)
  have gets: "get_latest_persisted R db = Inr (meta ?t LATEST_PERSISTED_KEY)"
    "get_true_earliest_persisted R db = Inr (meta ?t TRUE_EARLIEST_PERSISTED_KEY)"
    "(case meta ?t LATEST_PERSISTED_KEY of None \<Rightarrow> saturating_sub start_block_num 1 | Some m \<Rightarrow> m) = lp base ?t"
    using inv t(2) by (simp_all add: watermark_eqs lp_def base_def)
  let ?b3 = "[PutCf CF_HOT_BLOCKS (u64_to_be n) v] @ meta_puts ?m1 @ meta_puts ?m2"
  have lim: "?L \<noteq> u64_MAX" "n \<le> ?L" using max(1,2) by (auto simp: max_def)
  obtain gops ms h M where u: "update_contiguous R db n ?L ?b3 = Some (Inr (?b3 @ gops @ meta_puts ms))"
    "gap_update ?t gops M" "contig_step ?t n ?L h M" "ms = [] \<and> h = hc ?t \<or> ms = [(HIGHEST_CONTIGUOUS_KEY, h)]"
    using update_contiguous_eq [OF inv ok lim max(3)] by metis
  have "block_batch R C start_block_num db b n =
      Some (Inr (n \<in> missing ?t, ?b3 @ gops @ meta_puts ms @ meta_puts ?m3))"
    by (simp only: block_batch_def g v(1) gets puts u(1) opt_then_simps Let_def append_assoc)
  with write_effect_batch [OF ok b v(2) u(2,4), of base] u(3) show ?thesis by (simp only: append_assoc) blast
qed

end

section \<open>Soundness of the contiguous watermark\<close>

text \<open>
  Above the configured first block, every block up to the watermark is stored, every block from
  there to the latest one is stored or recorded as missing, and the watermark is not beyond the
  latest block.
\<close>

definition contig_ok :: "u64 \<Rightarrow> tables \<Rightarrow> u64 set \<Rightarrow> bool" where
  "contig_ok base t S \<longleftrightarrow>
     (\<forall>n. base < n \<and> n \<le> hc t \<longrightarrow> n \<in> S) \<and>
     (\<forall>n. hc t < n \<and> n \<le> lp base t \<longrightarrow> n \<in> S \<or> n \<in> missing t) \<and>
     hc t \<le> lp base t"

lemma contig_okD:
  assumes "contig_ok base t S"
  shows "base < n \<Longrightarrow> n \<le> hc t \<Longrightarrow> n \<in> S" "hc t < n \<Longrightarrow> n \<le> lp base t \<Longrightarrow> n \<notin> missing t \<Longrightarrow> n \<in> S"
    "hc t \<le> lp base t"
  using assms by (auto simp: contig_ok_def)

lemma max_above: "n < m \<Longrightarrow> m \<le> max l n \<Longrightarrow> m \<le> (l :: u64)"
  by (auto simp: max_def not_le split: if_splits)

text \<open>The watermark after a walk is backed by stored blocks.\<close>

lemma walked_stored:
  assumes ok: "contig_ok base t S" and w: "walked t (max (lp base t) n) c h" and c: "hc t \<le> c" "n \<le> c"
    and stored: "\<And>m. base < m \<Longrightarrow> m \<le> c \<Longrightarrow> m \<in> insert n S" and top: "c \<le> max (lp base t) n"
  shows "base < m \<Longrightarrow> m \<le> h \<Longrightarrow> m \<in> insert n S"
    and "h < m \<Longrightarrow> m \<le> max (lp base t) n \<Longrightarrow> m \<in> S \<or> m \<in> missing t - {n}"
    and "h \<le> max (lp base t) n"
proof -
  show "m \<in> insert n S" if "base < m" "m \<le> h"
  proof (cases "m \<le> c")
    case False
    then have m: "c < m" by simp
    then have m': "n < m" "hc t < m" using c by (simp_all add: le_less_trans)
    have "m \<le> max (lp base t) n" using w that m top unfolding walked_def by (metis order_trans not_less)
    then have "m \<le> lp base t" by (rule max_above [OF m'(1)])
    moreover have "m \<notin> missing t" using w m that unfolding walked_def by blast
    ultimately show ?thesis using contig_okD(2) [OF ok m'(2)] by blast
  qed (use stored that in blast)
  show "m \<in> S \<or> m \<in> missing t - {n}" if "h < m" "m \<le> max (lp base t) n"
  proof -
    have "c \<le> h" using w by (simp add: walked_def)
    then have "c < m" using that(1) by (rule le_less_trans)
    then have m: "n < m" "hc t < m" using c by (simp_all add: le_less_trans)
    have "m \<le> lp base t" using that(2) by (rule max_above [OF m(1)])
    then show ?thesis using contig_okD(2) [OF ok m(2)] m(1) by auto
  qed
  show "h \<le> max (lp base t) n" using w top by (auto simp: walked_def)
qed

lemma contig_ok_write:
  assumes ok: "contig_ok base t S" and lim: "lp base t \<noteq> u64_MAX"
    and step: "contig_step t n (max (lp base t) n) h M" and eff: "write_effect C base t b n h M t'"
  shows "contig_ok base t' (insert n S)"
proof -
  have t': "hc t' = h" "lp base t' = max (lp base t) n" "missing t' = M" using eff by (auto simp: write_effect_def)
  have hmax: "hc t \<noteq> u64_MAX" using u64_le_not_max [OF contig_okD(3) [OF ok] lim] .
  consider "hc t + 1 < n" | "n = hc t + 1" | "n \<le> hc t"
    using u64_less_Suc_le [OF hmax, of n] by (cases n "hc t + 1" rule: linorder_cases) auto
  then show ?thesis
  proof cases
    case 1
    then have M: "h = hc t" "M = missing t \<union> {hc t + 1..n - 1}" using step by (auto simp: contig_step_def)
    have "n \<noteq> 0" using 1 by auto
    then have range: "m \<in> {hc t + 1..n - 1} \<longleftrightarrow> hc t < m \<and> m < n" for m
      by (simp add: u64_Suc_le [OF hmax] u64_le_pred)
    have "m \<in> insert n S \<or> m \<in> M" if "hc t < m" "m \<le> max (lp base t) n" for m
    proof (cases "n < m")
      case True
      from contig_okD(2) [OF ok that(1) max_above [OF True that(2)]] M(2) show ?thesis by auto
    next
      case False
      with that M(2) range [of m] show ?thesis by auto
    qed
    then show ?thesis
      using contig_okD(1,3) [OF ok] unfolding contig_ok_def t' M(1) by (auto intro: max.coboundedI1)
  next
    case 2
    then have "M = missing t" "walked t (max (lp base t) n) n h" using step by (auto simp: contig_step_def)
    moreover have "m \<in> insert n S" if "base < m" "m \<le> n" for m
      using contig_okD(1) [OF ok that(1)] that(2) 2 u64_less_Suc_le [OF hmax, of m] by (cases "m = n") auto
    moreover have "hc t \<le> n" using 2 u64_less_Suc_le [OF hmax, of "hc t"] by (simp add: less_imp_le)
    ultimately show ?thesis
      using walked_stored [OF ok, of n n h] unfolding contig_ok_def t' by auto
  next
    case 3
    then have "M = missing t - {n}" "walked t (max (lp base t) n) (hc t) h"
      using step u64_less_Suc_le [OF hmax, of n] by (auto simp: contig_step_def)
    moreover have "hc t \<le> max (lp base t) n" using contig_okD(3) [OF ok] by (rule max.coboundedI1)
    ultimately show ?thesis
      using walked_stored [OF ok, of n "hc t" h] contig_okD(1) [OF ok] 3 unfolding contig_ok_def t' by auto
  qed
qed

section \<open>Writing and reading\<close>

text \<open>The blocks the service holds.\<close>

definition stored :: "tables \<Rightarrow> indices \<Rightarrow> u64 set" where
  "stored t idx = hot_numbers t \<union> cold_numbers idx"

context persist_laws
begin

lemma is_batch_skipped_eq:
  "invar db \<Longrightarrow> is_batch_skipped R db n = Inr (view db CF_SKIPPED_BATCHES (u64_to_be n) \<noteq> None)"
  by (simp add: is_batch_skipped_def get_ok res_simps)

lemma write_block_eq:
  fixes start_block_num :: u64 and s :: "'db pstate"
  defines "base \<equiv> saturating_sub start_block_num 1" and "t \<equiv> view (ps_db s)"
  assumes inv: "invar (ps_db s)" and ok: "db_ok C t" and b: "get_block_number b = Inr n"
    and max: "n \<noteq> u64_MAX" "lp base t \<noteq> u64_MAX" "hc t \<noteq> u64_MAX"
  shows "\<exists>r s' h M. write_block R C cfg start_block_num b s = Some (r, s') \<and> invar (ps_db s') \<and>
    contig_step t n (max (lp base t) n) h M \<and> write_effect C base t b n h M (view (ps_db s')) \<and>
    ps_disk s' = ps_disk s \<and> ps_indices s' = ps_indices s \<and>
    (if archive_batch_size cfg = 0 \<and> n \<in> missing t then r = Inl DivisionByZero else r = Inr ())"
proof -
  obtain batch h M where bb: "block_batch R C start_block_num (ps_db s) b n = Some (Inr (n \<in> missing t, batch))"
    and st: "contig_step t n (max (lp base t) n) h M" and we: "write_effect C base t b n h M (apply_batch batch t)"
    using block_batch_eq [OF inv ok [unfolded t_def] b max [unfolded t_def base_def]] by (auto simp: t_def base_def)
  obtain db' where db': "commit_batch R (ps_db s) batch = Inr db'" "invar db'" "view db' = apply_batch batch t"
    using write_ok [OF inv, of batch] by (auto simp: commit_batch_def t_def)
  define s1 where "s1 = s\<lparr>ps_db := db'\<rparr>"
  have run: "write_block R C cfg start_block_num b s =
      Some (if n \<in> missing t then notify_gap_fill R cfg n s1 else (Inr (), s1))"
    by (simp add: write_block_def b bb db'(1) s1_def)
  obtain r s' where res: "(if n \<in> missing t then notify_gap_fill R cfg n s1 else (Inr (), s1)) = (r, s')" by fastforce
  have "ps_db s' = db' \<and> ps_disk s' = ps_disk s \<and> ps_indices s' = ps_indices s \<and>
      (if archive_batch_size cfg = 0 \<and> n \<in> missing t then r = Inl DivisionByZero else r = Inr ())"
    using res db'(2)
    by (auto simp: notify_gap_fill_def Let_def s1_def is_batch_skipped_eq notify_check_def split: if_splits)
  then show ?thesis using run res st we db'(2,3) by auto
qed

lemma read_block_eq:
  assumes "invar (ps_db s)" and "archive_ok C cfg (view (ps_db s)) (ps_disk s) (ps_indices s)"
  shows "read_block R C s n = (Inr (block_bytes C (view (ps_db s)) (ps_disk s) (ps_indices s) n), s)"
proof -
  have "hot_ok C (view (ps_db s))" "cold_ok C cfg (ps_disk s) (ps_indices s)" "faults (ps_disk s) = []"
    using assms(2) by (auto simp: archive_ok_def db_ok_def)
  then show ?thesis
    using hot_read_block_eq [OF assms(1)] cold_read_eq
    by (auto simp: read_block_def block_bytes_def split: option.splits)
qed

text \<open>Every stored block is the encoding of a block with its number.\<close>

lemma stored_bytes:
  assumes ok: "archive_ok C cfg t d idx" and n: "n \<in> stored t idx"
  shows "\<exists>b. block_bytes C t d idx n = Some (encode_to_vec C b) \<and> get_block_number b = Inr n"
proof (cases "n \<in> hot_numbers t")
  case True
  moreover have "hot_ok C t" using ok by (simp add: archive_ok_def db_ok_def)
  ultimately obtain b where "hot_bytes C t n = Some (encode_to_vec C b)" "get_block_number b = Inr n"
    using hot_entry by blast
  then show ?thesis by (auto simp: block_bytes_def)
next
  case False
  have "hot_ok C t" and cold: "cold_ok C cfg d idx" using ok by (auto simp: archive_ok_def db_ok_def)
  then have hot: "hot_bytes C t n = None" using False hot_bytes_None by blast
  from False n obtain k m where m: "(k, m) \<in> set idx" "start_block m \<le> n" "n \<le> end_block m"
    by (auto simp: stored_def cold_numbers_def)
  obtain bs where bs: "archived C d m bs" using cold_okD(3) [OF cold m(1)] by blast
  let ?i = "unat (n - start_block m)"
  have "?i < length bs" using get_record_archived(1) [OF bs m(2,3)] .
  then have "get_block_number (bs ! ?i) = Inr n" using bs by (simp add: archived_def consecutive_def)
  with cold_read_hit(1) [OF cold m(1) bs m(2,3)] hot show ?thesis by (auto simp: block_bytes_def)
qed

lemma write_read:
  assumes inv: "invar (ps_db s)" and ok: "archive_ok C cfg (view (ps_db s)) (ps_disk s) (ps_indices s)"
    and b: "get_block_number b = Inr n"
    and max: "n \<noteq> u64_MAX" "lp (saturating_sub start 1) (view (ps_db s)) \<noteq> u64_MAX" "hc (view (ps_db s)) \<noteq> u64_MAX"
    and size: "archive_batch_size cfg \<noteq> 0"
  shows "\<exists>s'. write_block R C cfg start b s = Some (Inr (), s') \<and>
    read_block R C s' n = (Inr (Some (encode_to_vec C b)), s') \<and>
    (\<forall>m. m \<noteq> n \<longrightarrow> fst (read_block R C s' m) = fst (read_block R C s m)) \<and> ps_indices s' = ps_indices s"
proof -
  have db: "db_ok C (view (ps_db s))" using ok by (simp add: archive_ok_def)
  obtain r s' h M where w: "write_block R C cfg start b s = Some (r, s')" "invar (ps_db s')"
    "write_effect C (saturating_sub start 1) (view (ps_db s)) b n h M (view (ps_db s'))"
    "ps_disk s' = ps_disk s" "ps_indices s' = ps_indices s" "r = Inr ()"
    using write_block_eq [OF inv db b max, of cfg] size by auto
  have hot: "hot_read_block R C (ps_db s') m =
      Inr (if m = n then Some (encode_to_vec C b) else hot_bytes C (view (ps_db s)) m)" for m
    using hot_read_block_eq [OF w(2)] w(3) by (simp add: write_effect_def db_ok_def)
  moreover have "hot_read_block R C (ps_db s) m = Inr (hot_bytes C (view (ps_db s)) m)" for m
    using hot_read_block_eq [OF inv] db by (simp add: db_ok_def)
  ultimately show ?thesis
    using w by (auto simp: read_block_def split: option.splits prod.splits)
qed

end

section \<open>Properties\<close>

text \<open>
  C4: the live write path keeps its books as specified. For every block number below the maximum the
  write returns; it stores the block and leaves every other block alone; it moves the latest block to
  the maximum, initialises the two earliest watermarks once, and updates gaps and contiguous watermark
  by the three cases of the specification (a new gap, the expected block, an older block). Its result
  is an error only when a gap was filled and the configured batch size is zero.
\<close>

theorem write_block_refines_spec:
  assumes "persist_laws R view invar C" and "invar (ps_db s)" and "db_ok C (view (ps_db s))"
    and "get_block_number b = Inr n" and "n \<noteq> u64_MAX"
    and "lp (saturating_sub start 1) (view (ps_db s)) \<noteq> u64_MAX" and "hc (view (ps_db s)) \<noteq> u64_MAX"
  shows "\<exists>r s' h M. write_block R C cfg start b s = Some (r, s') \<and> invar (ps_db s') \<and>
    contig_step (view (ps_db s)) n (max (lp (saturating_sub start 1) (view (ps_db s))) n) h M \<and>
    write_effect C (saturating_sub start 1) (view (ps_db s)) b n h M (view (ps_db s')) \<and>
    ps_disk s' = ps_disk s \<and> ps_indices s' = ps_indices s \<and>
    (if archive_batch_size cfg = 0 \<and> n \<in> missing (view (ps_db s)) then r = Inl DivisionByZero else r = Inr ())"
  using persist_laws.write_block_eq [OF assms] .

abbreviation empty_state :: "ref_db pstate" where
  "empty_state \<equiv> \<lparr>ps_db = ref_empty, ps_disk = empty_disk, ps_indices = [], ps_trigger = False\<rparr>"

lemma empty_state_meta: "meta (ref_view ref_empty) k = None"
  by (simp add: meta_def ref_view_def ref_empty_def)

lemma empty_state_hot: "hot_numbers (ref_view ref_empty) = {}" "hot_bytes C (ref_view ref_empty) n = None"
  by (simp_all add: hot_numbers_def hot_bytes_def ref_view_def ref_empty_def)

lemma empty_state_db_ok: "db_ok C (ref_view ref_empty)"
  by (simp add: db_ok_def hot_ok_def meta_ok_def gaps_ok_def gaps_of_def ref_view_def ref_empty_def gaps_wf_def)

lemma empty_state_archive_ok: "archive_ok C cfg (ref_view ref_empty) empty_disk []"
  by (simp add: archive_ok_def empty_state_db_ok hot_small_def empty_state_hot cold_ok_def cold_numbers_def)

lemma empty_state_marks: "hc (ref_view ref_empty) = 0" "lp base (ref_view ref_empty) = base"
  by (simp_all add: hc_def lp_def empty_state_meta)

theorem write_block_refines_spec_witness:
  "\<exists>r s' h M. write_block ref_rocksdb ref_codec default_persistence_config 0 (example_block 4) empty_state = Some (r, s') \<and>
    ref_invar (ps_db s') \<and>
    contig_step (ref_view (ps_db empty_state)) 4 (max (lp (saturating_sub 0 1) (ref_view (ps_db empty_state))) 4) h M \<and>
    write_effect ref_codec (saturating_sub 0 1) (ref_view (ps_db empty_state)) (example_block 4) 4 h M (ref_view (ps_db s')) \<and>
    ps_disk s' = ps_disk empty_state \<and> ps_indices s' = ps_indices empty_state \<and>
    (if archive_batch_size default_persistence_config = 0 \<and> 4 \<in> missing (ref_view (ps_db empty_state))
     then r = Inl DivisionByZero else r = Inr ())"
  by (rule write_block_refines_spec [OF refp.persist_laws_axioms])
    (simp_all add: empty_state_db_ok empty_state_marks get_block_number_def saturating_sub_def)

text \<open>
  C31: a written block is read back byte for byte, and every other block is read as before the write.
\<close>

theorem write_then_read:
  assumes "persist_laws R view invar C" and "invar (ps_db s)"
    and "archive_ok C cfg (view (ps_db s)) (ps_disk s) (ps_indices s)"
    and "get_block_number b = Inr n" and "n \<noteq> u64_MAX"
    and "lp (saturating_sub start 1) (view (ps_db s)) \<noteq> u64_MAX" and "hc (view (ps_db s)) \<noteq> u64_MAX"
    and "archive_batch_size cfg \<noteq> 0"
  shows "\<exists>s'. write_block R C cfg start b s = Some (Inr (), s') \<and>
    read_block R C s' n = (Inr (Some (encode_to_vec C b)), s') \<and>
    (\<forall>m. m \<noteq> n \<longrightarrow> fst (read_block R C s' m) = fst (read_block R C s m))"
  using persist_laws.write_read [OF assms] by blast

theorem write_then_read_witness:
  "\<exists>s'. write_block ref_rocksdb ref_codec default_persistence_config 0 (example_block 4) empty_state = Some (Inr (), s') \<and>
    read_block ref_rocksdb ref_codec s' 4 = (Inr (Some (encode_to_vec ref_codec (example_block 4))), s') \<and>
    (\<forall>m. m \<noteq> 4 \<longrightarrow> fst (read_block ref_rocksdb ref_codec s' m) = fst (read_block ref_rocksdb ref_codec empty_state m))"
  by (rule write_then_read [OF refp.persist_laws_axioms])
    (simp_all add: empty_state_archive_ok empty_state_marks get_block_number_def saturating_sub_def
      default_persistence_config_def)

text \<open>
  A block is announced as persisted only when it has been written: every event that handling an
  inbound event broadcasts carries that event's number and key, and follows a successful write of the
  block decoded from the cache. The cache no longer serves the key afterwards.
\<close>

lemma process_event_announces_written:
  assumes "process_event R C cfg start event bc s = Some (evs, bc', s')"
  shows "cache_get (inbound_cache_key event) bc' = None \<and>
    (evs = [] \<or> evs = [\<lparr>block_number = inbound_block_number event, cache_key = inbound_cache_key event\<rparr>] \<and>
       (\<exists>data b. cache_get (inbound_cache_key event) bc = Some data \<and> decode_block C (bd_contents data) = Inr b \<and>
          write_block R C cfg start b s = Some (Inr (), s')))"
  using assms
  by (auto simp: process_event_def Let_def cache_get_def mark_for_removal_def
      split: option.splits sum.splits prod.splits)

abbreviation example_event :: inbound_event where
  "example_event \<equiv> Verified \<lparr>block_number = 4, cache_key = 1\<rparr>"

abbreviation example_cache :: block_data_cache where
  "example_cache \<equiv> fst (cache_insert 1 0
     \<lparr>bd_block_number = 4, bd_contents = encode_to_vec ref_codec (example_block 4)\<rparr> cache_new)"

lemma example_event_runs:
  "\<exists>s'. process_event ref_rocksdb ref_codec default_persistence_config 0 example_event example_cache empty_state =
     Some ([\<lparr>block_number = 4, cache_key = 1\<rparr>], mark_for_removal 1 example_cache, s')"
proof -
  obtain s' where "write_block ref_rocksdb ref_codec default_persistence_config 0 (example_block 4) empty_state = Some (Inr (), s')"
    using refp.write_block_eq [of empty_state "example_block 4" 4 0 default_persistence_config]
    by (auto simp: empty_state_db_ok empty_state_marks get_block_number_def saturating_sub_def default_persistence_config_def)
  then show ?thesis
    by (auto simp: process_event_def cache_get_def cache_insert_def refc.decode_encode)
qed

end
