(* ===== verification/Persist_System.thy ===== *)
theory Persist_System
  imports Persist_Service
begin

text \<open>
  The persistence component as a whole: its initialisation on a fresh store, and any sequence of
  live writes, historical batches and archival cycles after it, as a step relation. The invariant
  ties the two tiers, the gaps and the watermarks together; the main result is that every block up
  to the highest contiguous one can be read.
\<close>

section \<open>Steps\<close>

text \<open>
  The environment supplies blocks of at most ten-digit numbers that fit an archive record. A live
  block does not repeat an archived one, and a historical batch is consecutive and new.
\<close>

inductive persist_step ::
    "'db rocksdb \<Rightarrow> ('db \<Rightarrow> tables) \<Rightarrow> codec \<Rightarrow> persistence_config \<Rightarrow> u64 \<Rightarrow> 'db pstate \<Rightarrow> 'db pstate \<Rightarrow> bool"
  for R view C cfg start where
  live_write: "get_block_number b = Inr n \<Longrightarrow> unat n < 10 ^ 10 \<Longrightarrow> length (compressed C b) < 2 ^ 32 \<Longrightarrow>
    n \<notin> cold_numbers (ps_indices s) \<Longrightarrow> write_block R C cfg start b s = Some (r, s') \<Longrightarrow>
    persist_step R view C cfg start s s'"
| historical_batch: "archivable C first bs \<Longrightarrow>
    {first..last_block first bs} \<inter> stored (view (ps_db s)) (ps_indices s) = {} \<Longrightarrow>
    write_block_batch R C cfg bs s = (r, s') \<Longrightarrow> persist_step R view C cfg start s s'"
| archival_cycle: "run_archival_cycle R C cfg s = Some (r, s') \<Longrightarrow> persist_step R view C cfg start s s'"
| read_request: "read_block R C s n = (r, s') \<Longrightarrow> persist_step R view C cfg start s s'"

inductive persist_reach ::
    "'db rocksdb \<Rightarrow> ('db \<Rightarrow> tables) \<Rightarrow> codec \<Rightarrow> persistence_config \<Rightarrow> u64 \<Rightarrow> 'db pstate \<Rightarrow> 'db pstate \<Rightarrow> bool"
  for R view C cfg start s0 where
  reach_start: "persist_reach R view C cfg start s0 s0"
| reach_step: "persist_reach R view C cfg start s0 s \<Longrightarrow> persist_step R view C cfg start s s' \<Longrightarrow>
    persist_reach R view C cfg start s0 s'"

section \<open>Invariant\<close>

definition persist_inv :: "codec \<Rightarrow> persistence_config \<Rightarrow> u64 \<Rightarrow> tables \<Rightarrow> disk \<Rightarrow> indices \<Rightarrow> bool" where
  "persist_inv C cfg base t d idx \<longleftrightarrow>
     archive_ok C cfg t d idx \<and> contig_ok base t (stored t idx) \<and> unat (lp base t) < 10 ^ 10"

lemma small_not_max: "unat (n :: u64) < 10 ^ 10 \<Longrightarrow> n \<noteq> u64_MAX"
  by (auto simp: unsigned_minus_1_eq_mask mask_eq_exp_minus_1)

lemma contig_ok_mono: "contig_ok base t S \<Longrightarrow> S \<subseteq> S' \<Longrightarrow> contig_ok base t S'"
  by (auto simp: contig_ok_def)

lemma contig_ok_cong:
  assumes "meta t' HIGHEST_CONTIGUOUS_KEY = meta t HIGHEST_CONTIGUOUS_KEY"
    and "meta t' LATEST_PERSISTED_KEY = meta t LATEST_PERSISTED_KEY" and "missing t' = missing t"
  shows "contig_ok base t' S = contig_ok base t S" "lp base t' = lp base t" "hc t' = hc t"
  using assms by (simp_all add: contig_ok_def hc_def lp_def)

lemma persist_inv_marks:
  assumes "persist_inv C cfg base t d idx"
  shows "lp base t \<noteq> u64_MAX" "hc t \<noteq> u64_MAX"
proof -
  show "lp base t \<noteq> u64_MAX" using assms by (intro small_not_max) (simp add: persist_inv_def)
  moreover have "hc t \<le> lp base t" using assms by (simp add: persist_inv_def contig_ok_def)
  ultimately show "hc t \<noteq> u64_MAX" using u64_le_not_max by blast
qed

context persist_laws
begin

lemmas get_u64_opt_eq' = get_u64_opt_eq

lemma get_highest_contiguous_hc:
  "invar db \<Longrightarrow> meta_ok (view db) \<Longrightarrow> get_highest_contiguous R db = Inr (hc (view db))"
  by (simp add: watermark_eqs hc_def res_simps split: option.splits)

lemma block_bytes_stored:
  "archive_ok C cfg t d idx \<Longrightarrow> block_bytes C t d idx n = None \<longleftrightarrow> n \<notin> stored t idx"
  using hot_bytes_None [of t n] cold_bytes_None [of cfg d idx n]
  by (auto simp: archive_ok_def db_ok_def block_bytes_def stored_def split: option.splits)

lemma archive_ok_write:
  assumes ok: "archive_ok C cfg t d idx" and we: "write_effect C base t b n h M t'"
    and n: "unat n < 10 ^ 10" "length (compressed C b) < 2 ^ 32" "n \<notin> cold_numbers idx"
  shows "archive_ok C cfg t' d idx"
proof -
  have inj: "x = y" if "encode_to_vec C x = encode_to_vec C y" for x y
    using arg_cong [OF that, of "decode_block C"] by (simp add: decode_encode)
  have t: "\<And>m. m \<in> hot_numbers t \<Longrightarrow> unat m < 10 ^ 10"
    "\<And>m x. hot_bytes C t m = Some (encode_to_vec C x) \<Longrightarrow> length (compressed C x) < 2 ^ 32"
    using ok by (simp_all add: archive_ok_def hot_small_def)
  have t': "hot_numbers t' = insert n (hot_numbers t)" "hot_bytes C t' = (hot_bytes C t)(n \<mapsto> encode_to_vec C b)" "db_ok C t'"
    using we by (simp_all add: write_effect_def)
  have "length (compressed C x) < 2 ^ 32" if "hot_bytes C t' m = Some (encode_to_vec C x)" for m x
  proof (cases "m = n")
    case True
    then have "encode_to_vec C x = encode_to_vec C b" using that t'(2) by simp
    then show ?thesis using inj n(2) by blast
  next
    case False
    then show ?thesis using that t(2) by (simp add: t'(2))
  qed
  then have "hot_small C t'" unfolding hot_small_def t'(1) using t(1) n(1) by blast
  moreover have "hot_numbers t' \<inter> cold_numbers idx = {}" using ok n(3) by (simp add: t'(1) archive_ok_def)
  ultimately show ?thesis using ok t'(3) by (simp add: archive_ok_def)
qed

lemma persist_inv_live_write:
  assumes inv: "invar (ps_db s)" and ok: "persist_inv C cfg (saturating_sub start 1) (view (ps_db s)) (ps_disk s) (ps_indices s)"
    and b: "get_block_number b = Inr n" "unat n < 10 ^ 10" "length (compressed C b) < 2 ^ 32" "n \<notin> cold_numbers (ps_indices s)"
    and w: "write_block R C cfg start b s = Some (r, s')"
  shows "invar (ps_db s')" "persist_inv C cfg (saturating_sub start 1) (view (ps_db s')) (ps_disk s') (ps_indices s')"
proof -
  let ?base = "saturating_sub start 1" and ?t = "view (ps_db s)"
  have db: "db_ok C ?t" and ar: "archive_ok C cfg ?t (ps_disk s) (ps_indices s)"
    using ok by (auto simp: persist_inv_def archive_ok_def)
  obtain h M where s': "invar (ps_db s')" "contig_step ?t n (max (lp ?base ?t) n) h M"
    "write_effect C ?base ?t b n h M (view (ps_db s'))" "ps_disk s' = ps_disk s" "ps_indices s' = ps_indices s"
    using write_block_eq [OF inv db b(1) small_not_max [OF b(2)] persist_inv_marks [OF ok], of cfg] w by auto
  have "contig_ok ?base (view (ps_db s')) (insert n (stored ?t (ps_indices s)))"
    using contig_ok_write [OF _ persist_inv_marks(1) [OF ok] s'(2,3)] ok by (simp add: persist_inv_def)
  moreover have "stored (view (ps_db s')) (ps_indices s') = insert n (stored ?t (ps_indices s))"
    using s'(3,5) by (simp add: stored_def write_effect_def)
  moreover have "unat (lp ?base (view (ps_db s'))) < 10 ^ 10"
    using s'(3) ok b(2) by (simp add: write_effect_def persist_inv_def max_def)
  ultimately show "persist_inv C cfg ?base (view (ps_db s')) (ps_disk s') (ps_indices s')"
    using archive_ok_write [OF ar s'(3) b(2-4)] by (simp add: persist_inv_def s'(4,5))
  show "invar (ps_db s')" by (rule s'(1))
qed

lemma persist_inv_archival:
  assumes inv: "invar (ps_db s)" and ok: "persist_inv C cfg base (view (ps_db s)) (ps_disk s) (ps_indices s)"
    and size: "archive_batch_size cfg \<noteq> 0" "unat (archive_batch_size cfg) \<le> 2 ^ 32"
    and run: "run_archival_cycle R C cfg s = Some (r, s')"
  shows "invar (ps_db s')" "persist_inv C cfg base (view (ps_db s')) (ps_disk s') (ps_indices s')"
proof -
  have ar: "archive_ok C cfg (view (ps_db s)) (ps_disk s) (ps_indices s)" using ok by (simp add: persist_inv_def)
  have s': "invar (ps_db s')" "archive_ok C cfg (view (ps_db s')) (ps_disk s') (ps_indices s')"
    "same_bookkeeping (view (ps_db s)) (view (ps_db s'))"
    "\<And>n. block_bytes C (view (ps_db s')) (ps_disk s') (ps_indices s') n =
      block_bytes C (view (ps_db s)) (ps_disk s) (ps_indices s) n"
    using cycle_keeps_blocks [OF inv ar size] run by auto
  have "stored (view (ps_db s')) (ps_indices s') = stored (view (ps_db s)) (ps_indices s)"
    using block_bytes_stored [OF ar] block_bytes_stored [OF s'(2)] s'(4) by auto
  moreover note contig_ok_cong(1,2) [of "view (ps_db s')" "view (ps_db s)" base]
  ultimately show "persist_inv C cfg base (view (ps_db s')) (ps_disk s') (ps_indices s')"
    using ok s'(2,3) by (simp add: persist_inv_def same_bookkeeping_def)
  show "invar (ps_db s')" by (rule s'(1))
qed

lemma persist_inv_batch:
  assumes inv: "invar (ps_db s)" and ok: "persist_inv C cfg base (view (ps_db s)) (ps_disk s) (ps_indices s)"
    and ar: "archivable C first bs"
    and new: "{first..last_block first bs} \<inter> stored (view (ps_db s)) (ps_indices s) = {}"
    and w: "write_block_batch R C cfg bs s = (r, s')"
  shows "invar (ps_db s')" "persist_inv C cfg base (view (ps_db s')) (ps_disk s') (ps_indices s')"
    "r = Inr ()" "stored (view (ps_db s')) (ps_indices s') = stored (view (ps_db s)) (ps_indices s) \<union> {first..last_block first bs}"
proof -
  let ?t = "view (ps_db s)" and ?idx = "ps_indices s"
  have ok': "archive_ok C cfg ?t (ps_disk s) ?idx" "cold_ok C cfg (ps_disk s) ?idx" "db_ok C ?t"
    "hot_numbers ?t \<inter> cold_numbers ?idx = {}" "hot_small C ?t" "faults (ps_disk s) = []"
    using ok by (auto simp: persist_inv_def archive_ok_def)
  note facts = archivable_facts [OF ar]
  have ne: "bs \<noteq> []" using ar by (simp add: archivable_def)
  obtain p d1 where wr: "write_archive C cfg bs (ps_disk s) = (Inr p, d1)" and f: "faults d1 = []"
    by (rule fault_freeE [OF write_archive_fault_free [OF ok'(6) ne facts(7)]])
  let ?idx1 = "index_insert first (new_index C cfg first bs) ?idx"
  have disj: "{first..last_block first bs} \<inter> cold_numbers ?idx = {}" using new by (auto simp: stored_def)
  note ext = archive_extends [OF ok'(2) ar disj wr f]
  obtain db' where db': "update_true_earliest_if_less R (ps_db s) first = Inr db'" "invar db'" "meta_ok (view db')"
    "\<And>c. c \<noteq> CF_METADATA \<Longrightarrow> view db' c = ?t c"
    "\<And>k. k \<noteq> TRUE_EARLIEST_PERSISTED_KEY \<Longrightarrow> meta (view db') k = meta ?t k"
    using update_true_earliest_eq [OF inv, of first] ok'(3) by (auto simp: db_ok_def)
  have s': "r = Inr ()" "s' = s\<lparr>ps_disk := d1, ps_indices := ?idx1, ps_db := db'\<rparr>"
    using w ne by (auto simp: write_block_batch_def wr load_written(1) [OF ar wr f] facts(5) db'(1) Let_def)
  have hot: "hot_ok C (view db') = hot_ok C ?t" "hot_bytes C (view db') = hot_bytes C ?t" "hot_numbers (view db') = hot_numbers ?t"
    using hot_table_cong [of "view db'" ?t] db'(4) by auto
  have gaps: "gaps_ok (view db') = gaps_ok ?t" "missing (view db') = missing ?t"
    using gaps_cong [of "view db'" ?t] db'(4) by auto
  have "archive_ok C cfg (view db') d1 ?idx1"
    using ok' ext(1,2) hot gaps db'(3) f new by (auto simp: archive_ok_def db_ok_def hot_small_def stored_def)
  moreover show st: "stored (view (ps_db s')) (ps_indices s') = stored ?t ?idx \<union> {first..last_block first bs}"
    using ext(2) hot(3) by (auto simp: s' stored_def)
  moreover have "contig_ok base (view db') (stored (view (ps_db s')) (ps_indices s'))"
    using contig_ok_cong(1) [of "view db'" ?t base] db'(5) gaps(2) ok contig_ok_mono unfolding st persist_inv_def by auto
  ultimately show "persist_inv C cfg base (view (ps_db s')) (ps_disk s') (ps_indices s')"
    using contig_ok_cong(2) [of "view db'" ?t base] db'(5) gaps(2) ok by (simp add: persist_inv_def s')
  show "invar (ps_db s')" "r = Inr ()" using s' db'(2) by simp_all
qed

lemma persist_inv_step:
  assumes "persist_step R view C cfg start s s'" and "invar (ps_db s)"
    and "persist_inv C cfg (saturating_sub start 1) (view (ps_db s)) (ps_disk s) (ps_indices s)"
    and "archive_batch_size cfg \<noteq> 0" "unat (archive_batch_size cfg) \<le> 2 ^ 32"
  shows "invar (ps_db s') \<and> persist_inv C cfg (saturating_sub start 1) (view (ps_db s')) (ps_disk s') (ps_indices s')"
  using assms(1)
proof cases
  case (live_write b n r)
  with persist_inv_live_write [OF assms(2,3)] show ?thesis by blast
next
  case (historical_batch first bs r)
  with persist_inv_batch [OF assms(2,3)] show ?thesis by blast
next
  case (archival_cycle r)
  with persist_inv_archival [OF assms(2,3,4,5)] show ?thesis by blast
next
  case (read_request n r)
  with read_block_eq [OF assms(2)] assms(2,3) show ?thesis by (auto simp: persist_inv_def)
qed

lemma persist_inv_reach:
  assumes "persist_reach R view C cfg start s0 s" and "invar (ps_db s0)"
    and "persist_inv C cfg (saturating_sub start 1) (view (ps_db s0)) (ps_disk s0) (ps_indices s0)"
    and "archive_batch_size cfg \<noteq> 0" "unat (archive_batch_size cfg) \<le> 2 ^ 32"
  shows "invar (ps_db s) \<and> persist_inv C cfg (saturating_sub start 1) (view (ps_db s)) (ps_disk s) (ps_indices s)"
  using assms by (induction rule: persist_reach.induct) (use persist_inv_step in blast)+

text \<open>Initialisation on a fresh store and no archives.\<close>

lemma init_db_fresh:
  assumes inv: "invar db" and fresh: "\<And>c. view db c = Map.empty"
  shows "\<exists>db'. init_db R start [] db = Inr db' \<and> invar db' \<and>
    view db' = apply_op (PutCf CF_METADATA HIGHEST_CONTIGUOUS_KEY (u64_to_be (saturating_sub start 1))) (view db)"
proof -
  have m: "meta_ok (view db)" "\<And>k. meta (view db) k = None" using fresh by (simp_all add: meta_ok_def meta_def)
  have te: "get_true_earliest_persisted R db = Inr None" and hcn: "get_u64_opt R db HIGHEST_CONTIGUOUS_KEY = Inr None"
    using inv m by (simp_all add: watermark_eqs)
  have "iterator_cf R db CF_HOT_BLOCKS IterStart = []"
    using iter_ok [OF inv, of CF_HOT_BLOCKS IterStart] fresh by (auto simp: iter_spec_def)
  then have hot: "get_earliest_block_number R db = Inr None"
    using inv by (simp add: get_earliest_block_number_def res_simps)
  show ?thesis
    by (rule put_u64_direct_eq [OF inv, of HIGHEST_CONTIGUOUS_KEY "saturating_sub start 1"])
      (simp add: init_db_def te get_earliest_indexed_block_def hot earliest_of_def initialize_highest_contiguous_def hcn)
qed

lemma initialize_fresh:
  fixes conf :: config
  defines "cfg \<equiv> persistence_service (plugins conf)" and "start \<equiv> start_block_number (core conf)"
  assumes inv: "invar db" and fresh: "\<And>c. view db c = Map.empty"
    and disk: "cold_storage_path cfg \<notin> dirs d" "faults d = []" and start: "unat start \<le> 10 ^ 10"
    and run: "persistence_initialize R C conf rd db d = (r, d')"
  shows "\<exists>s0. r = Inr s0 \<and> invar (ps_db s0) \<and>
    persist_inv C cfg (saturating_sub start 1) (view (ps_db s0)) (ps_disk s0) (ps_indices s0)"
proof -
  let ?base = "saturating_sub start 1"
  obtain db' where db': "init_db R start [] db = Inr db'" "invar db'"
    "view db' = apply_op (PutCf CF_METADATA HIGHEST_CONTIGUOUS_KEY (u64_to_be ?base)) (view db)"
    using init_db_fresh [OF inv fresh] by blast
  have r: "r = Inr \<lparr>ps_db = db', ps_disk = d, ps_indices = [], ps_trigger = False\<rparr>"
    using run disk(1) db'(1) by (auto simp: persistence_initialize_def scan_and_build_index_def cfg_def start_def)
  have hot: "hot_numbers (view db') = {}" "\<And>n. hot_bytes C (view db') n = None" "hot_ok C (view db')"
    using fresh by (simp_all add: db'(3) hot_numbers_def hot_bytes_def hot_ok_def)
  have gaps: "gaps_ok (view db')" "missing (view db') = {}"
    using fresh by (simp_all add: db'(3) gaps_ok_def gaps_of_def gaps_wf_def missing_def gap_set_def)
  have meta: "meta_ok (view db')" "hc (view db') = ?base" "lp ?base (view db') = ?base"
    using fresh by (auto simp: db'(3) meta_ok_def meta_def hc_def lp_def)
  have "unat ?base < 10 ^ 10" using start unat_gt_0 [of start] by (auto simp: saturating_sub_def u64_pred_unat)
  moreover have "contig_ok ?base (view db') (stored (view db') [])"
    unfolding contig_ok_def meta(2,3) by (auto dest: leD)
  ultimately have "persist_inv C cfg ?base (view db') d []"
    using hot gaps meta disk(2)
    by (simp add: persist_inv_def archive_ok_def db_ok_def hot_small_def cold_ok_def cold_numbers_def)
  with r db'(2) show ?thesis by simp
qed

end

text \<open>A fresh start: an empty store, no archives, a sensible configuration.\<close>

definition fresh_start :: "('db \<Rightarrow> tables) \<Rightarrow> config \<Rightarrow> 'db \<Rightarrow> disk \<Rightarrow> bool" where
  "fresh_start view conf db d \<longleftrightarrow>
     (\<forall>c. view db c = Map.empty) \<and> cold_storage_path (persistence_service (plugins conf)) \<notin> dirs d \<and>
     faults d = [] \<and> unat (start_block_number (core conf)) \<le> 10 ^ 10 \<and>
     archive_batch_size (persistence_service (plugins conf)) \<noteq> 0 \<and>
     unat (archive_batch_size (persistence_service (plugins conf))) \<le> 2 ^ 32"

lemma fresh_reach_inv:
  fixes conf :: config
  defines "cfg \<equiv> persistence_service (plugins conf)" and "start \<equiv> start_block_number (core conf)"
  assumes laws: "persist_laws R view invar C" and inv: "invar db" and fresh: "fresh_start view conf db d"
    and init: "persistence_initialize R C conf rd db d = (Inr s0, d')" and reach: "persist_reach R view C cfg start s0 s"
  shows "invar (ps_db s)" "persist_inv C cfg (saturating_sub start 1) (view (ps_db s)) (ps_disk s) (ps_indices s)"
proof -
  have "invar (ps_db s0)" "persist_inv C cfg (saturating_sub start 1) (view (ps_db s0)) (ps_disk s0) (ps_indices s0)"
    using persist_laws.initialize_fresh [OF laws inv _ _ _ _ init] fresh
    by (auto simp: fresh_start_def cfg_def start_def)
  from persist_laws.persist_inv_reach [OF laws reach this] fresh
  show "invar (ps_db s)" "persist_inv C cfg (saturating_sub start 1) (view (ps_db s)) (ps_disk s) (ps_indices s)"
    by (auto simp: fresh_start_def cfg_def)
qed

section \<open>Properties\<close>

text \<open>
  C3: Contiguous blocks are readable. In every state the persistence component reaches from a fresh store on
  a disk without faults, by live writes of blocks that are not archived, new consecutive historical
  batches, archival cycles and reads, every block from the configured start on and up to the highest
  contiguous block is read back as the encoding of a block with that number. With a start of zero this
  begins at block 1: the watermark then starts at block 0, which need not be stored.
\<close>

theorem contiguous_blocks_readable:
  assumes "persist_laws R view invar C" and "invar db" and "fresh_start view conf db d"
    and "persistence_initialize R C conf rd db d = (Inr s0, d')"
    and "persist_reach R view C (persistence_service (plugins conf)) (start_block_number (core conf)) s0 s"
    and "get_highest_contiguous_block_number R s = Inr h"
    and "saturating_sub (start_block_number (core conf)) 1 < n" and "n \<le> h"
  shows "\<exists>b. read_block R C s n = (Inr (Some (encode_to_vec C b)), s) \<and> get_block_number b = Inr n"
proof -
  note inv = fresh_reach_inv [OF assms(1-5)]
  have ar: "archive_ok C (persistence_service (plugins conf)) (view (ps_db s)) (ps_disk s) (ps_indices s)"
    using inv(2) by (simp add: persist_inv_def)
  have "h = hc (view (ps_db s))"
    using assms(6) persist_laws.get_highest_contiguous_hc [OF assms(1) inv(1)] ar
    by (simp add: get_highest_contiguous_block_number_def archive_ok_def db_ok_def)
  then have "n \<in> stored (view (ps_db s)) (ps_indices s)"
    using inv(2) assms(7,8) contig_okD(1) unfolding persist_inv_def by blast
  then show ?thesis
    using persist_laws.stored_bytes [OF assms(1) ar] persist_laws.read_block_eq [OF assms(1) inv(1) ar] by auto
qed

text \<open>The default configuration, and one live block after the start.\<close>

definition example_config :: config where
  "example_config = \<lparr>core = default_core_config, plugins = default_plugin_configs\<rparr>"

lemma example_fresh: "fresh_start ref_view example_config ref_empty empty_disk"
  by (simp add: fresh_start_def example_config_def default_core_config_def default_plugin_configs_def
      default_persistence_config_def ref_view_def ref_empty_def fun_eq_iff)

lemma example_conf_sel [simp]:
  "start_block_number (core example_config) = 0"
  "persistence_service (plugins example_config) = default_persistence_config"
  by (simp_all add: example_config_def default_core_config_def default_plugin_configs_def)

lemma example_run:
  assumes "n = 1 \<or> n = 3"
  shows "\<exists>s0 d' s. persistence_initialize ref_rocksdb ref_codec example_config (Inr []) ref_empty empty_disk = (Inr s0, d') \<and>
     persist_reach ref_rocksdb ref_view ref_codec default_persistence_config 0 s0 s \<and>
     get_highest_contiguous_block_number ref_rocksdb s = Inr (if n = 1 then 1 else 0) \<and>
     get_latest_persisted_block_number ref_rocksdb s = Inr (Some n) \<and>
     get_earliest_persisted_block_number ref_rocksdb s = Inr (Some n)"
proof -
  let ?cfg = "default_persistence_config"
  obtain r d' where init: "persistence_initialize ref_rocksdb ref_codec example_config (Inr []) ref_empty empty_disk = (r, d')"
    by fastforce
  obtain db' where db': "init_db ref_rocksdb 0 [] ref_empty = Inr db'" "ref_invar db'"
    "ref_view db' = apply_op (PutCf CF_METADATA HIGHEST_CONTIGUOUS_KEY (u64_to_be (saturating_sub 0 1))) (ref_view ref_empty)"
    using refp.init_db_fresh [OF ref_invar_empty, of 0] by (auto simp: ref_view_def ref_empty_def fun_eq_iff)
  define s0 where "s0 = \<lparr>ps_db = db', ps_disk = empty_disk, ps_indices = [], ps_trigger = False\<rparr>"
  have r: "r = Inr s0"
    using init db'(1) by (auto simp: persistence_initialize_def scan_and_build_index_def s0_def)
  have inv: "persist_inv ref_codec ?cfg 0 (ref_view (ps_db s0)) (ps_disk s0) (ps_indices s0)"
    using fresh_reach_inv(2) [of ref_rocksdb ref_view ref_invar, OF refp.persist_laws_axioms ref_invar_empty example_fresh
        init [unfolded r] reach_start] by (simp add: saturating_sub_def)
  have marks: "hc (ref_view db') = 0" "lp 0 (ref_view db') = 0" "meta (ref_view db') LATEST_PERSISTED_KEY = None"
    "meta (ref_view db') TRUE_EARLIEST_PERSISTED_KEY = None"
    using db'(3) by (auto simp: hc_def lp_def meta_def ref_view_def ref_empty_def saturating_sub_def)
  have n: "get_block_number (example_block n) = Inr n" by (simp add: get_block_number_def)
  have db: "db_ok ref_codec (ref_view db')" using inv by (simp add: persist_inv_def archive_ok_def s0_def)
  obtain r' s h M where s: "write_block ref_rocksdb ref_codec ?cfg 0 (example_block n) s0 = Some (r', s)" "ref_invar (ps_db s)"
    "contig_step (ref_view db') n (max 0 n) h M" "write_effect ref_codec 0 (ref_view db') (example_block n) n h M (ref_view (ps_db s))"
    using refp.write_block_eq [of s0 "example_block n" n 0 ?cfg] assms db'(2) db n marks
    by (auto simp: s0_def saturating_sub_def)
  have "h = (if n = 1 then 1 else 0)" using s(3) marks assms by (auto simp: contig_step_def walked_def)
  moreover have "meta_ok (ref_view (ps_db s))" "hc (ref_view (ps_db s)) = h" "lp 0 (ref_view (ps_db s)) = n"
    "meta (ref_view (ps_db s)) TRUE_EARLIEST_PERSISTED_KEY = Some n"
    using s(4) marks(2,4) by (auto simp: write_effect_def db_ok_def)
  ultimately have g: "get_highest_contiguous_block_number ref_rocksdb s = Inr (if n = 1 then 1 else 0)"
    "get_latest_persisted_block_number ref_rocksdb s = Inr (Some n)"
    "get_earliest_persisted_block_number ref_rocksdb s = Inr (Some n)"
    using assms ref.get_u64_opt_eq [OF s(2), of TRUE_EARLIEST_PERSISTED_KEY] refp.get_highest_contiguous_hc [OF s(2)] ref.get_u64_opt_eq [OF s(2), of LATEST_PERSISTED_KEY]
    by (auto simp: get_highest_contiguous_block_number_def get_latest_persisted_block_number_def lp_def
        get_latest_persisted_def get_earliest_persisted_block_number_def get_true_earliest_persisted_def split: option.splits)
  have "persist_step ref_rocksdb ref_view ref_codec ?cfg 0 s0 s"
    by (rule live_write [OF n _ _ _ s(1)]) (use example_compressed [of n] assms in \<open>auto simp: s0_def cold_numbers_def\<close>)
  with init r g reach_step [OF reach_start] show ?thesis by blast
qed

theorem contiguous_blocks_readable_witness:
  "\<exists>s b. get_highest_contiguous_block_number ref_rocksdb s = Inr 1 \<and>
     read_block ref_rocksdb ref_codec s 1 = (Inr (Some (encode_to_vec ref_codec b)), s) \<and> get_block_number b = Inr 1"
proof -
  obtain s0 d' s where r: "persistence_initialize ref_rocksdb ref_codec example_config (Inr []) ref_empty empty_disk = (Inr s0, d')"
    "persist_reach ref_rocksdb ref_view ref_codec default_persistence_config 0 s0 s"
    "get_highest_contiguous_block_number ref_rocksdb s = Inr 1" using example_run [of 1] by auto
  from contiguous_blocks_readable [of ref_rocksdb ref_view ref_invar, OF refp.persist_laws_axioms ref_invar_empty example_fresh r(1) _ r(3), of 1]
  show ?thesis using r(2,3) by (auto simp: saturating_sub_def)
qed

text \<open>
  C7: No block goes missing silently. In every state reached from a fresh store on a disk without faults,
  every block between the highest contiguous and the latest persisted one either can be read or lies in a
  recorded gap.
\<close>

theorem missing_blocks_recorded:
  assumes "persist_laws R view invar C" and "invar db" and "fresh_start view conf db d"
    and "persistence_initialize R C conf rd db d = (Inr s0, d')"
    and "persist_reach R view C (persistence_service (plugins conf)) (start_block_number (core conf)) s0 s"
    and "get_highest_contiguous_block_number R s = Inr h" and "get_latest_persisted_block_number R s = Inr (Some l)"
    and "h < n" and "n \<le> l"
  shows "(\<exists>b. read_block R C s n = (Inr (Some (encode_to_vec C b)), s) \<and> get_block_number b = Inr n) \<or>
    (\<exists>g. find_containing_gap R (ps_db s) n = Inr (Some g))"
proof -
  let ?t = "view (ps_db s)"
  note inv = fresh_reach_inv [OF assms(1-5)]
  have ar: "archive_ok C (persistence_service (plugins conf)) ?t (ps_disk s) (ps_indices s)" and ok: "gaps_ok ?t" "meta_ok ?t"
    using inv(2) by (auto simp: persist_inv_def archive_ok_def db_ok_def)
  have "h = hc ?t"
    using assms(6) persist_laws.get_highest_contiguous_hc [OF assms(1) inv(1) ok(2)]
    by (simp add: get_highest_contiguous_block_number_def)
  moreover have "meta ?t LATEST_PERSISTED_KEY = Some l"
    using assms(7) persist_laws.get_u64_opt_eq' [OF assms(1) inv(1) ok(2), of LATEST_PERSISTED_KEY]
    by (simp add: get_latest_persisted_block_number_def get_latest_persisted_def)
  ultimately have "n \<in> stored ?t (ps_indices s) \<or> n \<in> missing ?t"
    using inv(2) assms(8,9) contig_okD(2) unfolding persist_inv_def by (fastforce simp: lp_def)
  then show ?thesis
  proof
    assume "n \<in> stored ?t (ps_indices s)"
    then show ?thesis
      using persist_laws.stored_bytes [OF assms(1) ar] persist_laws.read_block_eq [OF assms(1) inv(1) ar] by auto
  next
    assume "n \<in> missing ?t"
    then show ?thesis
      using persist_laws.find_containing_gap_correct_iff [OF assms(1) inv(1) ok(1), of n] by auto
  qed
qed

text \<open>Block 3 written first: block 2 is then in a gap.\<close>

theorem missing_blocks_recorded_witness:
  "\<exists>s. get_latest_persisted_block_number ref_rocksdb s = Inr (Some 3) \<and>
    ((\<exists>b. read_block ref_rocksdb ref_codec s 2 = (Inr (Some (encode_to_vec ref_codec b)), s) \<and> get_block_number b = Inr 2) \<or>
     (\<exists>g. find_containing_gap ref_rocksdb (ps_db s) 2 = Inr (Some g)))"
proof -
  obtain s0 d' s where r: "persistence_initialize ref_rocksdb ref_codec example_config (Inr []) ref_empty empty_disk = (Inr s0, d')"
    "persist_reach ref_rocksdb ref_view ref_codec default_persistence_config 0 s0 s"
    "get_highest_contiguous_block_number ref_rocksdb s = Inr 0"
    "get_latest_persisted_block_number ref_rocksdb s = Inr (Some 3)" using example_run [of 3] by auto
  from missing_blocks_recorded [of ref_rocksdb ref_view ref_invar, OF refp.persist_laws_axioms ref_invar_empty example_fresh r(1) _ r(3,4), of 2]
  show ?thesis using r(2,4) by auto
qed

end
