(* ===== verification/Pipeline.thy ===== *)
theory Pipeline
  imports Publish_System Verifier Persist_System
begin

text \<open>
  The block pipeline as a whole: publisher sessions, the verifier, the persistence component and the
  block cache, joined by the channels of the message bus the way the node wires them. The result is
  the promise made to publishers: an acknowledged block can be read.
\<close>

section \<open>Steps of the node\<close>

record 'db node_state =
  npub :: pub_system
  verified_queue :: "block_verified list"
  nstore :: "'db pstate"

abbreviation ncache :: "'db node_state \<Rightarrow> block_data_cache" where
  "ncache nd \<equiv> block_cache (pworld (npub nd))"

abbreviation nreceived :: "'db node_state \<Rightarrow> block_items_received list" where
  "nreceived nd \<equiv> items_received (pworld (npub nd))"

text \<open>The message bus and the cache after a step of another plugin; \<open>q\<close> is what is left in the channel.\<close>

definition after_event ::
    "'db node_state \<Rightarrow> block_items_received list \<Rightarrow> block_data_cache \<Rightarrow> bus_event list \<Rightarrow> pub_system" where
  "after_event nd q bc es = (npub nd)
     \<lparr>pworld := (pworld (npub nd))\<lparr>block_cache := bc, items_received := q\<rparr>, bus := bus (npub nd) @ es\<rparr>"

text \<open>What persistence needs of a block it is to write; compare the live writes of the persistence component.\<close>

definition writable :: "codec \<Rightarrow> 'db node_state \<Rightarrow> block_event \<Rightarrow> bool" where
  "writable C nd e \<longleftrightarrow>
     (\<forall>data b n. cache_get (cache_key e) (ncache nd) = Some data \<longrightarrow> decode_block C (bd_contents data) = Inr b \<longrightarrow>
        get_block_number b = Inr n \<longrightarrow>
        unat n < 10 ^ 10 \<and> length (compressed C b) < 2 ^ 32 \<and> n \<notin> cold_numbers (ps_indices (nstore nd)))"

inductive node_step ::
    "'db rocksdb \<Rightarrow> ('db \<Rightarrow> tables) \<Rightarrow> codec \<Rightarrow> (error \<Rightarrow> string) \<Rightarrow> config \<Rightarrow> capability_registry \<Rightarrow>
     'db node_state \<Rightarrow> 'db node_state \<Rightarrow> bool"
  for R view C display conf reg where
  publisher: "pub_task C (publish_service (plugins conf)) polite (npub nd) p \<Longrightarrow>
    node_step R view C display conf reg nd (nd\<lparr>npub := p\<rparr>)"
| verifier: "is_registered ProvidesVerifiedBlocks reg \<Longrightarrow> nreceived nd = e # q \<Longrightarrow>
    verify_event C display e (ncache nd) = (r, bc) \<Longrightarrow>
    node_step R view C display conf reg nd (nd\<lparr>
      npub := after_event nd q bc (case r of Inl f \<Rightarrow> [VerificationFailedEvent f] | Inr _ \<Rightarrow> []),
      verified_queue := verified_queue nd @ (case r of Inl _ \<Rightarrow> [] | Inr v \<Rightarrow> [v])\<rparr>)"
| persist_verified: "next_event reg (Some e) rx = Some ev \<Longrightarrow> is_registered ProvidesVerifiedBlocks reg \<Longrightarrow>
    verified_queue nd = e # q \<Longrightarrow> writable C nd e \<Longrightarrow>
    process_event R C (persistence_service (plugins conf)) (start_block_number (core conf)) ev (ncache nd) (nstore nd) =
      Some (evs, bc, s) \<Longrightarrow>
    node_step R view C display conf reg nd (nd\<lparr>
      npub := after_event nd (nreceived nd) bc (map PersistedEvent evs), verified_queue := q, nstore := s\<rparr>)"
| persist_unverified: "next_event reg rx (Some (Some e)) = Some ev \<Longrightarrow> \<not> is_registered ProvidesVerifiedBlocks reg \<Longrightarrow>
    nreceived nd = e # q \<Longrightarrow> writable C nd e \<Longrightarrow>
    process_event R C (persistence_service (plugins conf)) (start_block_number (core conf)) ev (ncache nd) (nstore nd) =
      Some (evs, bc, s) \<Longrightarrow>
    node_step R view C display conf reg nd (nd\<lparr>
      npub := after_event nd q bc (map PersistedEvent evs), nstore := s\<rparr>)"
| storage: "persist_step R view C (persistence_service (plugins conf)) (start_block_number (core conf)) (nstore nd) s \<Longrightarrow>
    node_step R view C display conf reg nd (nd\<lparr>nstore := s\<rparr>)"
| cache_cleanup: "node_step R view C display conf reg nd
    (nd\<lparr>npub := after_event nd (nreceived nd) (cleanup_round now (ncache nd)) []\<rparr>)"

inductive node_reach ::
    "'db rocksdb \<Rightarrow> ('db \<Rightarrow> tables) \<Rightarrow> codec \<Rightarrow> (error \<Rightarrow> string) \<Rightarrow> config \<Rightarrow> capability_registry \<Rightarrow>
     'db node_state \<Rightarrow> 'db node_state \<Rightarrow> bool"
  for R view C display conf reg nd0 where
  node_start: "node_reach R view C display conf reg nd0 nd0"
| node_next: "node_reach R view C display conf reg nd0 nd \<Longrightarrow> node_step R view C display conf reg nd nd' \<Longrightarrow>
    node_reach R view C display conf reg nd0 nd'"

text \<open>The node starts with its storage and publisher initialised, an empty cache and empty channels.\<close>

definition node_init :: "config \<Rightarrow> u64 option res option \<Rightarrow> 'db pstate \<Rightarrow> 'db node_state option" where
  "node_init conf reader s =
     map_option (\<lambda>p. \<lparr>npub = p, verified_queue = [], nstore = s\<rparr>)
       (pub_init (publish_service (plugins conf)) reader cache_new)"

section \<open>Sessions submit the blocks they announce\<close>

text \<open>The buffer of a session holds the block it is accepted for, from its header on, or nothing.\<close>

definition buffer_ok :: "session_manager \<Rightarrow> bool" where
  "buffer_ok s \<longleftrightarrow>
     (if current_block_action s = Some Accept
      then \<exists>n r xs. item_buffer s = Some (BlockHeader n r) # xs \<and> current_block_number s = as_i64 n
      else item_buffer s = [])"

definition good_data :: "codec \<Rightarrow> block_data \<Rightarrow> bool" where
  "good_data C data \<longleftrightarrow>
     (\<exists>b. decode_block C (bd_contents data) = Inr b \<and> get_block_number b = Inr (bd_block_number data))"

text \<open>What a request does to the cache and the channel: nothing, or one good entry and at most its event.\<close>

definition good_submission :: "codec \<Rightarrow> uuid \<Rightarrow> nat \<Rightarrow> world \<Rightarrow> world \<Rightarrow> bool" where
  "good_submission C key now w w' \<longleftrightarrow>
     block_cache w' = block_cache w \<and> items_received w' = items_received w \<or>
     (\<exists>data. good_data C data \<and> block_cache w' = fst (cache_insert key now data (block_cache w)) \<and>
        (items_received w' = items_received w \<or>
         items_received w' = items_received w @ [\<lparr>block_number = bd_block_number data, cache_key = key\<rparr>]))"

lemma complete_block_good:
  assumes "codec_laws C" and "item_buffer s = Some (BlockHeader n r) # xs" "current_block_number s = as_i64 n"
    and "complete_block C key now s w = (out, s', w')"
  shows "good_submission C key now w w'"
proof -
  let ?data = "\<lparr>bd_block_number = n, bd_contents = encode_to_vec C \<lparr>items = item_buffer s\<rparr>\<rparr>"
  have "good_data C ?data"
    by (simp add: good_data_def codec_laws.decode_encode [OF assms(1)] get_block_number_def assms(2))
  moreover have "block_cache w' = fst (cache_insert key now ?data (block_cache w)) \<and>
      (items_received w' = items_received w \<or>
       items_received w' = items_received w @ [\<lparr>block_number = n, cache_key = key\<rparr>])"
    using assms(4)
    by (auto simp: complete_block_def codec_laws.encode_ok [OF assms(1)] assms(3) cache_insert_def Let_def split: if_splits)
  ultimately show ?thesis unfolding good_submission_def by (intro disjI2 exI [of _ ?data]) simp
qed

lemma accept_items_head: "buf \<noteq> [] \<Longrightarrow> \<exists>ys. fst (accept_items xs buf) = buf @ ys"
proof (induction xs buf rule: accept_items.induct)
  case (2 item rest buf)
  then show ?case by (auto split: option.split block_item_type.split)
qed simp

lemma handle_accept_good:
  assumes "codec_laws C" and "current_block_action s = Some Accept"
    and "\<exists>n r xs. fst (accept_items (block_items bset) (item_buffer s)) = Some (BlockHeader n r) # xs \<and> current_block_number s = as_i64 n"
    and "handle_accept C key now bset s w = (out, s', w')"
  shows "good_submission C key now w w' \<and> (out = Continue \<longrightarrow> buffer_ok s')"
proof (cases "snd (accept_items (block_items bset) (item_buffer s))")
  case True
  then have run: "complete_block C key now (s\<lparr>item_buffer := fst (accept_items (block_items bset) (item_buffer s))\<rparr>) w = (out, s', w')"
    using assms(4) by (simp add: handle_accept_def Let_def split_beta)
  with complete_block_good [OF assms(1) _ _ run] assms(3) complete_block_cases(5) [OF run] show ?thesis by auto
next
  case False
  then have "out = Continue" "s' = s\<lparr>item_buffer := fst (accept_items (block_items bset) (item_buffer s))\<rparr>" "w' = w"
    using assms(4) by (auto simp: handle_accept_def Let_def split_beta)
  then show ?thesis using assms(2,3) by (auto simp: buffer_ok_def good_submission_def)
qed

lemma validated_header:
  "validate_block_items v bset True = Inr u \<Longrightarrow> \<exists>n r xs. block_items bset = Some (BlockHeader n r) # xs"
  by (auto simp: validate_block_items_def Let_def split: list.splits if_splits option.splits elim: is_block_header.elims)

lemma run_action_other:
  assumes "run_action C key now bset a s w = (out, s', w')" and "a \<noteq> Accept"
  shows "block_cache w' = block_cache w \<and> items_received w' = items_received w \<and> (out = Continue \<longrightarrow> buffer_ok s')"
  using assms
  by (cases a; clarsimp simp: run_action_def handle_skip_def handle_resend_def handle_end_behind_def
      handle_end_duplicate_def handle_end_error_def reset_for_next_block_def send_response_def buffer_ok_def Let_def)

lemma run_action_good:
  assumes laws: "codec_laws C" and run: "run_action C key now bset a s w = (out, s', w')"
    and "current_block_action s = Some a"
    and "a = Accept \<Longrightarrow>
      \<exists>n r xs. fst (accept_items (block_items bset) (item_buffer s)) = Some (BlockHeader n r) # xs \<and> current_block_number s = as_i64 n"
  shows "good_submission C key now w w' \<and> (out = Continue \<longrightarrow> buffer_ok s')"
proof (cases "a = Accept")
  case True
  then show ?thesis using handle_accept_good [OF laws _ assms(4)] assms(3) run by (simp add: run_action_def)
next
  case False
  then show ?thesis using run_action_other [OF run] by (simp add: good_submission_def)
qed

lemma good_submission_frame:
  "good_submission C key now (w\<lparr>shared := sh\<rparr>) w' = good_submission C key now w w'"
  by (simp add: good_submission_def)

lemma handle_block_items_good:
  assumes laws: "codec_laws C" and buf: "buffer_ok s" and pol: "polite s (BlockItemsRequest bset)"
    and run: "handle_block_items C old key now bset s w = (out, s', w')"
  shows "good_submission C key now w w' \<and> (out = Continue \<longrightarrow> buffer_ok s')"
proof -
  let ?s = "s\<lparr>blocks_received := blocks_received s + 1\<rparr>" and ?n = "header_number (block_items bset)"
  show ?thesis
  proof (cases "validate_block_items (validator s) bset (?n \<noteq> None)")
    case (Inl e)
    then show ?thesis using run by (auto simp: handle_block_items_def send_response_def good_submission_def Let_def)
  next
    case valid: (Inr u)
    show ?thesis
    proof (cases ?n)
      case (Some num)
      obtain n r xs where b: "block_items bset = Some (BlockHeader n r) # xs"
        using validated_header [of "validator s" bset u] valid Some by auto
      have buf0: "item_buffer s = []" using buf pol Some by (auto simp: buffer_ok_def polite_def)
      obtain a s1 sh where act: "get_action_for_block old num None ?s (shared w) = (a, s1, sh)" by (rule prod_cases3)
      have "\<exists>r' ys. fst (accept_items (block_items bset) (item_buffer s1)) = Some (BlockHeader n r') # ys \<and>
          (a = Accept \<longrightarrow> current_block_number s1 = as_i64 n)"
        using get_action_for_block_cases [OF act] buf0 Some b accept_items_head [of "[Some (BlockHeader n r)]" xs] by auto
      moreover have "run_action C key now bset a (s1\<lparr>current_block_action := Some a\<rparr>) (w\<lparr>shared := sh\<rparr>) = (out, s', w')"
        using run valid Some act by (simp add: handle_block_items_def)
      ultimately show ?thesis
        using run_action_good [OF laws, of key now bset a "s1\<lparr>current_block_action := Some a\<rparr>" "w\<lparr>shared := sh\<rparr>"]
        by (auto simp: good_submission_frame)
    next
      case None
      define a where "a = (if current_block_action s = Some Accept
        then get_action_for_currently_streaming (current_block_number s) ?s (shared w) else EndError)"
      have "run_action C key now bset a (?s\<lparr>current_block_action := Some a\<rparr>) (w\<lparr>shared := shared w\<rparr>) = (out, s', w')"
      proof (cases "current_block_action s")
        case no_action: None
        then show ?thesis using run valid None by (simp add: handle_block_items_def a_def)
      next
        case (Some x)
        then show ?thesis
          using run valid None by (cases x) (simp_all add: handle_block_items_def get_action_for_block_def a_def Let_def)
      qed
      moreover have "\<exists>n r xs. fst (accept_items (block_items bset) (item_buffer s)) = Some (BlockHeader n r) # xs \<and>
          current_block_number s = as_i64 n" if "a = Accept"
        using that buf accept_items_head [of "item_buffer s" "block_items bset"]
        by (auto simp: a_def buffer_ok_def split: if_splits)
      ultimately show ?thesis
        using run_action_good [OF laws, of key now bset a "?s\<lparr>current_block_action := Some a\<rparr>" "w\<lparr>shared := shared w\<rparr>" out s' w']
        by (simp add: good_submission_frame)
    qed
  qed
qed

lemma handle_request_good:
  assumes laws: "codec_laws C" and buf: "buffer_ok s" and pol: "polite s req"
    and run: "handle_request C old key now req s w = (out, s', w')"
  shows "good_submission C key now w w' \<and> (out = Continue \<longrightarrow> buffer_ok s')"
proof (cases req)
  case (BlockItemsRequest bset)
  then show ?thesis using handle_block_items_good [OF laws buf] pol run by (simp add: handle_request_def)
next
  case (EndOfBlockRequest n)
  show ?thesis
  proof (cases "current_block_action s \<noteq> Some Accept \<or> as_i64 n \<noteq> current_block_number s")
    case True
    then show ?thesis using run EndOfBlockRequest
      by (auto simp: handle_request_def handle_block_end_def handle_end_error_def send_response_def good_submission_def Let_def)
  next
    case False
    then have "complete_block C key now s w = (out, s', w')"
      using run EndOfBlockRequest by (simp add: handle_request_def handle_block_end_def)
    with False buf complete_block_good [OF laws] complete_block_cases(5) show ?thesis
      by (fastforce simp: buffer_ok_def)
  qed
next
  case (EndStreamRequest e l)
  then show ?thesis using run by (simp add: handle_request_def good_submission_def)
qed

section \<open>Storage only grows\<close>

context persist_laws
begin

lemma persist_step_stored:
  assumes step: "persist_step R view C cfg start s s'" and inv: "invar (ps_db s)"
    and ok: "persist_inv C cfg (saturating_sub start 1) (view (ps_db s)) (ps_disk s) (ps_indices s)"
    and size: "archive_batch_size cfg \<noteq> 0" "unat (archive_batch_size cfg) \<le> 2 ^ 32"
  shows "stored (view (ps_db s)) (ps_indices s) \<subseteq> stored (view (ps_db s')) (ps_indices s')"
  using step
proof cases
  case (live_write b n r)
  let ?base = "saturating_sub start 1"
  have db: "db_ok C (view (ps_db s))" using ok by (auto simp: persist_inv_def archive_ok_def)
  obtain h M where "write_effect C ?base (view (ps_db s)) b n h M (view (ps_db s'))" "ps_indices s' = ps_indices s"
    using write_block_eq [OF inv db live_write(1) small_not_max [OF live_write(2)] persist_inv_marks [OF ok], of cfg] live_write(5)
    by auto
  then show ?thesis by (auto simp: stored_def write_effect_def)
next
  case (historical_batch first bs r)
  then show ?thesis using persist_inv_batch(4) [OF inv ok] by blast
next
  case (archival_cycle r)
  have ar: "archive_ok C cfg (view (ps_db s)) (ps_disk s) (ps_indices s)" using ok by (simp add: persist_inv_def)
  have ar': "archive_ok C cfg (view (ps_db s')) (ps_disk s') (ps_indices s')"
    "\<And>n. block_bytes C (view (ps_db s')) (ps_disk s') (ps_indices s') n = block_bytes C (view (ps_db s)) (ps_disk s) (ps_indices s) n"
    using cycle_keeps_blocks [OF inv ar size] archival_cycle by auto
  then show ?thesis using block_bytes_stored [OF ar] block_bytes_stored [OF ar'(1)] by auto
next
  case (read_request n r)
  have "archive_ok C cfg (view (ps_db s)) (ps_disk s) (ps_indices s)" using ok by (simp add: persist_inv_def)
  then show ?thesis using read_block_eq [OF inv] read_request by auto
qed

lemma write_block_stores:
  assumes inv: "invar (ps_db s)" and ok: "persist_inv C cfg (saturating_sub start 1) (view (ps_db s)) (ps_disk s) (ps_indices s)"
    and b: "get_block_number b = Inr n" "unat n < 10 ^ 10" and w: "write_block R C cfg start b s = Some (r, s')"
  shows "n \<in> stored (view (ps_db s')) (ps_indices s')"
proof -
  have db: "db_ok C (view (ps_db s))" using ok by (auto simp: persist_inv_def archive_ok_def)
  obtain h M where "write_effect C (saturating_sub start 1) (view (ps_db s)) b n h M (view (ps_db s'))"
    using write_block_eq [OF inv db b(1) small_not_max [OF b(2)] persist_inv_marks [OF ok], of cfg] w by auto
  then show ?thesis by (auto simp: stored_def write_effect_def)
qed

text \<open>Handling an event is a live write of the block its key stands for, or nothing at all.\<close>

lemma process_event_step:
  assumes run: "process_event R C cfg start ev bc s = Some (evs, bc', s')"
    and good: "\<And>data. cache_get (inbound_cache_key ev) bc = Some data \<Longrightarrow> good_data C data"
    and ok: "\<And>data b n. cache_get (inbound_cache_key ev) bc = Some data \<Longrightarrow> decode_block C (bd_contents data) = Inr b \<Longrightarrow>
      get_block_number b = Inr n \<Longrightarrow> unat n < 10 ^ 10 \<and> length (compressed C b) < 2 ^ 32 \<and> n \<notin> cold_numbers (ps_indices s)"
  obtains (nothing) "s' = s" "evs = []" "bc' = mark_for_removal (inbound_cache_key ev) bc"
  | (written) data b r where "cache_get (inbound_cache_key ev) bc = Some data"
      "get_block_number b = Inr (bd_block_number data)" "unat (bd_block_number data) < 10 ^ 10"
      "write_block R C cfg start b s = Some (r, s')" "persist_step R view C cfg start s s'"
      "bc' = mark_for_removal (inbound_cache_key ev) bc"
      "evs = [] \<or> evs = [\<lparr>block_number = inbound_block_number ev, cache_key = inbound_cache_key ev\<rparr>]"
proof (cases "cache_get (inbound_cache_key ev) bc")
  case None
  then have "s' = s" "evs = []" "bc' = mark_for_removal (inbound_cache_key ev) bc"
    using run by (auto simp: process_event_def)
  then show thesis by (rule nothing)
next
  case (Some data)
  obtain b where b: "decode_block C (bd_contents data) = Inr b" "get_block_number b = Inr (bd_block_number data)"
    using good [OF Some] by (auto simp: good_data_def)
  obtain r where w: "write_block R C cfg start b s = Some (r, s')" and out: "bc' = mark_for_removal (inbound_cache_key ev) bc"
    "evs = [] \<or> evs = [\<lparr>block_number = inbound_block_number ev, cache_key = inbound_cache_key ev\<rparr>]"
    using run Some b(1) by (auto simp: process_event_def Let_def split: option.splits sum.splits prod.splits)
  note small = ok [OF Some b]
  have step: "persist_step R view C cfg start s s'"
    using live_write [OF b(2) _ _ _ w] small by blast
  show thesis by (rule written [OF Some b(2) _ w step out]) (use small in simp)
qed

end

section \<open>Invariant\<close>

definition pipe_ok :: "codec \<Rightarrow> pub_system \<Rightarrow> block_event list \<Rightarrow> bool" where
  "pipe_ok C p es \<longleftrightarrow>
     (\<forall>i s. sessions p i = Some (s, Reading) \<longrightarrow> buffer_ok s) \<and>
     (\<forall>k data. cache_get k (block_cache (pworld p)) = Some data \<longrightarrow> k \<in> used p \<and> good_data C data) \<and>
     (\<forall>e \<in> set (items_received (pworld p)) \<union> set es. cache_key e \<in> used p \<and>
        (\<forall>data. cache_get (cache_key e) (block_cache (pworld p)) = Some data \<longrightarrow> bd_block_number data = block_number e))"

lemma pipe_okD:
  assumes "pipe_ok C p es"
  shows "sessions p i = Some (s, Reading) \<Longrightarrow> buffer_ok s"
    "cache_get k (block_cache (pworld p)) = Some data \<Longrightarrow> k \<in> used p"
    "cache_get k (block_cache (pworld p)) = Some data \<Longrightarrow> good_data C data"
    "e \<in> set (items_received (pworld p)) \<union> set es \<Longrightarrow> cache_key e \<in> used p"
    "e \<in> set (items_received (pworld p)) \<union> set es \<Longrightarrow> cache_get (cache_key e) (block_cache (pworld p)) = Some data \<Longrightarrow>
      bd_block_number data = block_number e"
  using assms unfolding pipe_ok_def by blast+

lemma pipe_ok_mono:
  assumes "pipe_ok C p es" and "sessions p' = sessions p" "used p' = used p"
    and "\<And>k data. cache_get k (block_cache (pworld p')) = Some data \<Longrightarrow> cache_get k (block_cache (pworld p)) = Some data"
    and "set (items_received (pworld p')) \<union> set es' \<subseteq> set (items_received (pworld p)) \<union> set es"
  shows "pipe_ok C p' es'"
proof -
  have "e \<in> set (items_received (pworld p)) \<union> set es" if "e \<in> set (items_received (pworld p')) \<union> set es'" for e
    using assms(5) that by blast
  then show ?thesis
    unfolding pipe_ok_def assms(2,3) using assms(4) pipe_okD [OF assms(1)] by blast
qed

lemma pipe_ok_session:
  assumes "pipe_ok C p es" and "block_cache w = block_cache (pworld p)" "items_received w = items_received (pworld p)"
    and "ph = Reading \<Longrightarrow> buffer_ok s"
  shows "pipe_ok C (p\<lparr>pworld := w, sessions := (sessions p)(i \<mapsto> (s, ph))\<rparr>) es"
  using assms unfolding pipe_ok_def by simp

lemma pipe_ok_request:
  assumes ok: "pipe_ok C p es" and key: "key \<notin> used p"
    and sub: "good_submission C key now (pworld p) w" and buf: "next_phase out = Reading \<Longrightarrow> buffer_ok s"
  shows "pipe_ok C (p\<lparr>pworld := w, sessions := (sessions p)(i \<mapsto> (s, next_phase out)), used := insert key (used p)\<rparr>) es"
proof -
  have get: "cache_get k (block_cache w) = cache_get k (block_cache (pworld p)) \<or>
      k = key \<and> (\<exists>data. good_data C data \<and> cache_get k (block_cache w) = Some data)" for k
    using sub by (auto simp: good_submission_def cache_insert_def cache_get_def split: if_splits)
  have ev: "cache_key e \<in> insert key (used p) \<and>
      (\<forall>data. cache_get (cache_key e) (block_cache w) = Some data \<longrightarrow> bd_block_number data = block_number e)"
    if "e \<in> set (items_received w) \<union> set es" for e
  proof (cases "e \<in> set (items_received (pworld p)) \<union> set es")
    case True
    then have "cache_key e \<in> used p" using pipe_okD(4) [OF ok] by blast
    moreover have "cache_key e \<noteq> key" using calculation key by blast
    ultimately show ?thesis using get [of "cache_key e"] pipe_okD(5) [OF ok True] by auto
  next
    case False
    then have "cache_key e = key \<and> (\<exists>data. cache_get key (block_cache w) = Some data \<and> bd_block_number data = block_number e)"
      using that sub by (auto simp: good_submission_def cache_insert_def cache_get_def)
    then show ?thesis by auto
  qed
  have "k \<in> insert key (used p) \<and> good_data C data" if "cache_get k (block_cache w) = Some data" for k data
    using get [of k] that pipe_okD(2,3) [OF ok, of k data] by auto
  moreover have "buffer_ok t" if "((sessions p)(i \<mapsto> (s, next_phase out))) j = Some (t, Reading)" for j t
    using that buf pipe_okD(1) [OF ok, of j t] by (cases "j = i") auto
  ultimately show ?thesis unfolding pipe_ok_def using ev by simp
qed

lemma pipe_ok_task:
  assumes laws: "codec_laws C" and "pub_task C cfg polite p p'" and ok: "pipe_ok C p es"
  shows "pipe_ok C p' es"
  using assms(2)
proof cases
  case (connect i s w)
  then show ?thesis
    by (auto intro!: pipe_ok_session [OF ok] simp: open_session_def session_new_def buffer_ok_def)
next
  case (request i s req key old now out s' w)
  have "good_submission C key now (pworld p) w \<and> (out = Continue \<longrightarrow> buffer_ok s')"
    using handle_request_good [OF laws pipe_okD(1) [OF ok request(2)] request(3,5)] .
  moreover have "out = Continue" if "next_phase out = Reading" using that by (cases out) simp_all
  ultimately show ?thesis unfolding request(1) using pipe_ok_request [OF ok request(4)] by blast
next
  case (settle i s result success w out s')
  then have "block_cache w = block_cache (pworld p)" "items_received w = items_received (pworld p)" "next_phase out = Reading \<Longrightarrow> buffer_ok s'"
    by (auto simp: settle_second_def release_winner_def broadcast_def finish_block_def reset_for_next_block_def buffer_ok_def
        split: option.splits sum.splits if_splits)
  then show ?thesis unfolding settle(1) by (rule pipe_ok_session [OF ok])
next
  case (wake i s key pos es result)
  then show ?thesis
    by (auto intro!: pipe_ok_session [OF ok] simp: settle_first_def release_winner_def broadcast_def handle_end_error_def
        send_response_def Let_def split: option.split sum.split)
next
  case (release i s n ns)
  then show ?thesis
    by (auto intro!: pipe_ok_session [OF ok] simp: release_affected_def release_winner_def broadcast_def Let_def)
next
  case (close i s)
  then show ?thesis by (auto intro!: pipe_ok_session [OF ok] simp: unregister_session_def)
qed (use ok in \<open>auto simp: pipe_ok_def publish_stop_def broadcast_def Let_def\<close>)

text \<open>The node: the pipeline, the storage, and every confirmed or acknowledged block stored.\<close>

definition node_inv ::
    "('db \<Rightarrow> bool) \<Rightarrow> ('db \<Rightarrow> tables) \<Rightarrow> codec \<Rightarrow> config \<Rightarrow> 'db node_state \<Rightarrow> bool" where
  "node_inv invar view C conf nd \<longleftrightarrow>
     pipe_ok C (npub nd) (verified_queue nd) \<and> invar (ps_db (nstore nd)) \<and>
     persist_inv C (persistence_service (plugins conf)) (saturating_sub (start_block_number (core conf)) 1)
       (view (ps_db (nstore nd))) (ps_disk (nstore nd)) (ps_indices (nstore nd)) \<and>
     confirmed (bus (npub nd)) \<subseteq> stored (view (ps_db (nstore nd))) (ps_indices (nstore nd)) \<and>
     acks (pworld (npub nd)) \<subseteq> confirmed (bus (npub nd))"

lemma after_event_sel [simp]:
  "sessions (after_event nd q bc es) = sessions (npub nd)" "used (after_event nd q bc es) = used (npub nd)"
  "block_cache (pworld (after_event nd q bc es)) = bc" "items_received (pworld (after_event nd q bc es)) = q"
  "bus (after_event nd q bc es) = bus (npub nd) @ es" "acks (pworld (after_event nd q bc es)) = acks (pworld (npub nd))"
  by (simp_all add: after_event_def acks_def)

lemma confirmed_append [simp]: "confirmed (xs @ ys) = confirmed xs \<union> confirmed ys"
  by (auto simp: confirmed_def)

context persist_laws
begin

text \<open>Persistence confirms only what it has stored.\<close>

lemma process_event_effect:
  assumes pipe: "pipe_ok C (npub nd) (verified_queue nd)" and inv: "invar (ps_db (nstore nd))"
    and pinv: "persist_inv C cfg (saturating_sub start 1) (view (ps_db (nstore nd))) (ps_disk (nstore nd)) (ps_indices (nstore nd))"
    and wr: "writable C nd e" and ev: "inbound_cache_key ev = cache_key e" "inbound_block_number ev = block_number e"
    and e: "e \<in> set (nreceived nd) \<union> set (verified_queue nd)"
    and run: "process_event R C cfg start ev (ncache nd) (nstore nd) = Some (evs, bc, s)"
  shows "bc = mark_for_removal (cache_key e) (ncache nd) \<and> (s = nstore nd \<and> evs = [] \<or>
    persist_step R view C cfg start (nstore nd) s \<and> confirmed (map PersistedEvent evs) \<subseteq> stored (view (ps_db s)) (ps_indices s))"
  using run
proof (rule process_event_step)
  show "good_data C data" if "cache_get (inbound_cache_key ev) (ncache nd) = Some data" for data
    using pipe_okD(3) [OF pipe that] .
  show "unat n < 10 ^ 10 \<and> length (compressed C b) < 2 ^ 32 \<and> n \<notin> cold_numbers (ps_indices (nstore nd))"
    if "cache_get (inbound_cache_key ev) (ncache nd) = Some data" "decode_block C (bd_contents data) = Inr b"
      "get_block_number b = Inr n" for data b n
    using wr that unfolding writable_def ev by blast
next
  fix data b r
  assume w: "cache_get (inbound_cache_key ev) (ncache nd) = Some data" "get_block_number b = Inr (bd_block_number data)"
    "unat (bd_block_number data) < 10 ^ 10" "write_block R C cfg start b (nstore nd) = Some (r, s)"
    "persist_step R view C cfg start (nstore nd) s" "bc = mark_for_removal (inbound_cache_key ev) (ncache nd)"
    "evs = [] \<or> evs = [\<lparr>block_number = inbound_block_number ev, cache_key = inbound_cache_key ev\<rparr>]"
  have "bd_block_number data = block_number e" using pipe_okD(5) [OF pipe e] w(1) unfolding ev by blast
  then have "confirmed (map PersistedEvent evs) \<subseteq> stored (view (ps_db s)) (ps_indices s)"
    using write_block_stores [OF inv pinv w(2,3,4)] w(7) by (auto simp: confirmed_def ev)
  then show ?thesis using w(5,6) by (simp add: ev)
qed (simp add: ev)

lemma node_inv_persist:
  fixes conf :: config
  defines "cfg \<equiv> persistence_service (plugins conf)" and "start \<equiv> start_block_number (core conf)"
  assumes inv: "node_inv invar view C conf nd" and wr: "writable C nd e"
    and size: "archive_batch_size cfg \<noteq> 0" "unat (archive_batch_size cfg) \<le> 2 ^ 32"
    and ev: "inbound_cache_key ev = cache_key e" "inbound_block_number ev = block_number e"
    and q: "set q \<union> set vq \<subseteq> set (nreceived nd) \<union> set (verified_queue nd)" "e \<in> set (nreceived nd) \<union> set (verified_queue nd)"
    and run: "process_event R C cfg start ev (ncache nd) (nstore nd) = Some (evs, bc, s)"
  shows "node_inv invar view C conf
    (nd\<lparr>npub := after_event nd q bc (map PersistedEvent evs), verified_queue := vq, nstore := s\<rparr>)"
proof -
  have pipe: "pipe_ok C (npub nd) (verified_queue nd)" and pinv: "invar (ps_db (nstore nd))"
    "persist_inv C cfg (saturating_sub start 1) (view (ps_db (nstore nd))) (ps_disk (nstore nd)) (ps_indices (nstore nd))"
    and conf: "confirmed (bus (npub nd)) \<subseteq> stored (view (ps_db (nstore nd))) (ps_indices (nstore nd))"
      "acks (pworld (npub nd)) \<subseteq> confirmed (bus (npub nd))"
    using inv unfolding node_inv_def cfg_def start_def by blast+
  note eff = process_event_effect [OF pipe pinv wr ev q(2) run]
  have "cache_get k (ncache nd) = Some data" if "cache_get k bc = Some data" for k data
    using that eff by (auto simp: mark_for_removal_get split: if_splits)
  then have "pipe_ok C (after_event nd q bc (map PersistedEvent evs)) vq"
    using q(1) by (intro pipe_ok_mono [OF pipe]) simp_all
  moreover have "invar (ps_db s) \<and> persist_inv C cfg (saturating_sub start 1) (view (ps_db s)) (ps_disk s) (ps_indices s) \<and>
      confirmed (bus (npub nd) @ map PersistedEvent evs) \<subseteq> stored (view (ps_db s)) (ps_indices s)"
  proof (cases "s = nstore nd \<and> evs = []")
    case True
    then show ?thesis using pinv conf(1) by (simp add: confirmed_def)
  next
    case False
    then have a: "persist_step R view C cfg start (nstore nd) s"
      "confirmed (map PersistedEvent evs) \<subseteq> stored (view (ps_db s)) (ps_indices s)"
      using eff by blast+
    then show ?thesis
      using persist_step_stored [OF a(1) pinv size] persist_inv_step [OF a(1) pinv size] conf(1) by auto
  qed
  ultimately show ?thesis using conf(2) by (auto simp: node_inv_def cfg_def start_def)
qed

lemma node_inv_step:
  fixes conf :: config
  defines "cfg \<equiv> persistence_service (plugins conf)" and "start \<equiv> start_block_number (core conf)"
  assumes step: "node_step R view C display conf reg nd nd'" and inv: "node_inv invar view C conf nd"
    and size: "archive_batch_size cfg \<noteq> 0" "unat (archive_batch_size cfg) \<le> 2 ^ 32"
  shows "node_inv invar view C conf nd'"
proof -
  have pipe: "pipe_ok C (npub nd) (verified_queue nd)" and pinv: "invar (ps_db (nstore nd))"
    "persist_inv C cfg (saturating_sub start 1) (view (ps_db (nstore nd))) (ps_disk (nstore nd)) (ps_indices (nstore nd))"
    and conf: "confirmed (bus (npub nd)) \<subseteq> stored (view (ps_db (nstore nd))) (ps_indices (nstore nd))"
      "acks (pworld (npub nd)) \<subseteq> confirmed (bus (npub nd))"
    using inv unfolding node_inv_def cfg_def start_def by blast+
  from step show ?thesis
  proof cases
    case (publisher p)
    have "acks (pworld p) \<subseteq> confirmed (bus p)" "bus p = bus (npub nd)"
      using acks_task [OF publisher(2)] conf(2) by auto
    then show ?thesis
      using publisher(1) pipe_ok_task [OF codec_laws_axioms publisher(2) pipe] inv by (simp add: node_inv_def)
  next
    case (verifier e q r bc)
    have "pipe_ok C (npub nd') (verified_queue nd')"
      using verifier(4)
    proof (cases rule: verify_event_cases)
      case (verified data b)
      then show ?thesis unfolding verifier(1) using verifier(3) by (intro pipe_ok_mono [OF pipe]) auto
    next
      case (failed f)
      then show ?thesis unfolding verifier(1) using verifier(3)
        by (intro pipe_ok_mono [OF pipe]) (auto simp: mark_for_removal_get split: if_splits)
    qed
    moreover have "confirmed (case r of Inl f \<Rightarrow> [VerificationFailedEvent f] | Inr _ \<Rightarrow> []) = {}"
      by (auto simp: confirmed_def split: sum.splits)
    ultimately show ?thesis using inv unfolding verifier(1) by (auto simp: node_inv_def)
  next
    case (persist_verified e rx ev q evs bc s)
    then have "inbound_cache_key ev = cache_key e" "inbound_block_number ev = block_number e"
      by (auto simp: next_event_def)
    from node_inv_persist [OF inv persist_verified(5) size [unfolded cfg_def] this _ _ persist_verified(6)] persist_verified
    show ?thesis by auto
  next
    case (persist_unverified rx e ev q evs bc s)
    then have "inbound_cache_key ev = cache_key e" "inbound_block_number ev = block_number e"
      by (auto simp: next_event_def)
    from node_inv_persist [OF inv persist_unverified(5) size [unfolded cfg_def] this _ _ persist_unverified(6),
        of q "verified_queue nd"] persist_unverified
    show ?thesis by auto
  next
    case (storage s)
    note st = storage(2) [folded cfg_def start_def]
    show ?thesis
      using persist_step_stored [OF st pinv size] persist_inv_step [OF st pinv size] pipe conf
      unfolding storage(1) by (auto simp: node_inv_def cfg_def start_def)
  next
    case (cache_cleanup now)
    have "pipe_ok C (after_event nd (nreceived nd) (cleanup_round now (ncache nd)) []) (verified_queue nd)"
      by (rule pipe_ok_mono [OF pipe]) (auto simp: cleanup_round_get split: if_splits)
    then show ?thesis using inv unfolding cache_cleanup by (auto simp: node_inv_def confirmed_def)
  qed
qed

lemma node_inv_reach:
  assumes "node_reach R view C display conf reg nd0 nd" and "node_inv invar view C conf nd0"
    and "archive_batch_size (persistence_service (plugins conf)) \<noteq> 0"
    and "unat (archive_batch_size (persistence_service (plugins conf))) \<le> 2 ^ 32"
  shows "node_inv invar view C conf nd"
  using assms by (induction rule: node_reach.induct) (use node_inv_step in blast)+

end

section \<open>The promise to publishers\<close>

lemma node_reach_inv:
  assumes "persist_laws R view invar C" and "invar db" and "fresh_start view conf db d"
    and "persistence_initialize R C conf rd db d = (Inr s0, d')" and "node_init conf reader s0 = Some nd0"
    and "node_reach R view C display conf reg nd0 nd"
  shows "node_inv invar view C conf nd"
proof -
  have "invar (ps_db s0)" "persist_inv C (persistence_service (plugins conf)) (saturating_sub (start_block_number (core conf)) 1)
      (view (ps_db s0)) (ps_disk s0) (ps_indices s0)"
    using fresh_reach_inv [OF assms(1-4) reach_start] by blast+
  moreover have "pipe_ok C (npub nd0) (verified_queue nd0)" "nstore nd0 = s0" "bus (npub nd0) = []" "acks (pworld (npub nd0)) = {}"
    using assms(5) by (auto simp: node_init_def pub_init_def pipe_ok_def acks_def cache_new_def cache_get_def)
  ultimately have "node_inv invar view C conf nd0" by (simp add: node_inv_def confirmed_def)
  then show ?thesis using persist_laws.node_inv_reach [OF assms(1,6)] assms(3) by (simp add: fresh_start_def)
qed

lemma acknowledged_read:
  assumes "persist_laws R view invar C" and "node_inv invar view C conf nd"
    and "(i, Acknowledgement n) \<in> set (responses (pworld (npub nd)))"
  shows "\<exists>b. read_block R C (nstore nd) n = (Inr (Some (encode_to_vec C b)), nstore nd) \<and> get_block_number b = Inr n"
proof -
  have ar: "archive_ok C (persistence_service (plugins conf)) (view (ps_db (nstore nd))) (ps_disk (nstore nd)) (ps_indices (nstore nd))"
    "invar (ps_db (nstore nd))" using assms(2) by (simp_all add: node_inv_def persist_inv_def)
  have "n \<in> stored (view (ps_db (nstore nd))) (ps_indices (nstore nd))"
    using assms(2,3) unfolding node_inv_def acks_def by blast
  then show ?thesis
    using persist_laws.stored_bytes [OF assms(1) ar(1)] persist_laws.read_block_eq [OF assms(1) ar(2,1)] by auto
qed

text \<open>
  C1: Acknowledged blocks are durable. Consider a node that starts on an empty store and a disk without
  faults, whose publishers are polite, that is, send no header in the middle of a block, and which writes
  only blocks that fit the archive and are not archived yet. In every state it reaches, whatever
  publishers, verifier, persistence, archiver and cache cleanup have done and in whatever order, a block
  acknowledged to any publisher is read back as the encoding of a block with that number.
\<close>

theorem acknowledged_blocks_readable:
  assumes "persist_laws R view invar C" and "invar db" and "fresh_start view conf db d"
    and "persistence_initialize R C conf rd db d = (Inr s0, d')" and "node_init conf reader s0 = Some nd0"
    and "node_reach R view C display conf reg nd0 nd"
    and "(i, Acknowledgement n) \<in> set (responses (pworld (npub nd)))"
  shows "\<exists>b. read_block R C (nstore nd) n = (Inr (Some (encode_to_vec C b)), nstore nd) \<and> get_block_number b = Inr n"
  using acknowledged_read [OF assms(1) node_reach_inv [OF assms(1-6)] assms(7)] .

text \<open>A node in which one publisher sends block 5 whole, and no verifier runs.\<close>

lemma tasks_node_reach:
  assumes "rtranclp (pub_task C (publish_service (plugins conf)) polite) (npub nd) p"
  shows "node_reach R view C display conf reg nd (nd\<lparr>npub := p\<rparr>)"
  using assms
proof (induction rule: rtranclp_induct)
  case base
  show ?case using node_start [of R view C display conf reg nd] by simp
next
  case (step p p')
  then show ?case using node_next [OF step.IH publisher [of C conf "nd\<lparr>npub := p\<rparr>" p']] by simp
qed

lemma pipeline_example_submitted:
  "\<exists>p s data. rtranclp (pub_task ref_codec default_publish_config polite) pub_example p \<and> sessions p 1 = Some (s, Waiting 9 0) \<and>
     block_of s = 5 \<and> bus p = [] \<and> 1 \<in> set (active_sessions (shared (pworld p))) \<and>
     items_received (pworld p) = [\<lparr>block_number = 5, cache_key = 9\<rparr>] \<and>
     cache_get 9 (block_cache (pworld p)) = Some data \<and> decode_block ref_codec (bd_contents data) = Inr (example_block 5)"
proof -
  let ?cfg = default_publish_config and ?s = "session_new default_publish_config 1"
  let ?req = "BlockItemsRequest \<lparr>block_items = items (example_block 5)\<rparr>"
  have p0: "sessions pub_example = Map.empty" "used pub_example = {}" "bus pub_example = []"
    "pworld pub_example = example_world"
    by (simp_all add: pub_example_def pub_init_def publish_initialize_def default_publish_config_def example_world_def
        shared_new_def set_latest_persisted_block_def)
  let ?w1 = "snd (open_session ?cfg 1 example_world)"
  let ?p1 = "pub_example\<lparr>pworld := ?w1, sessions := (sessions pub_example)(1 \<mapsto> (?s, Reading))\<rparr>"
  have 1: "pub_task ref_codec ?cfg polite pub_example ?p1" by (rule connect) (simp_all add: p0 open_session_def)
  obtain s2 w2 where serve: "serve_requests ref_codec 9 0 (map BlockItemsRequest [\<lparr>block_items = items (example_block 5)\<rparr>]) ?s ?w1 =
      (AwaitPersistence 9, s2, w2)" and sub: "submitted ref_codec 9 5 (example_block 5) ?w1 w2"
    and s2: "current_block_number s2 = as_i64 5" "active_sessions (shared w2) = active_sessions (shared ?w1)"
    using serve_whole_block [OF refc.codec_laws_axioms, of ?w1 5 "[\<lparr>block_items = items (example_block 5)\<rparr>]" ?s "[]"
        "[Some (OtherItem [7])]" "Some (BlockProof 5 [])" 9 0]
    by (auto simp: open_session_def example_world_def shared_new_def session_new_def default_publish_config_def as_i64_def)
  then have run: "handle_request ref_codec (shared ?w1) 9 0 ?req ?s ?w1 = (AwaitPersistence 9, s2, w2)"
    by (auto split: outcome.splits prod.splits)
  let ?p2 = "?p1\<lparr>pworld := w2, sessions := (sessions ?p1)(1 \<mapsto> (s2, next_phase (AwaitPersistence 9))), used := insert 9 (used ?p1)\<rparr>"
  have 2: "pub_task ref_codec ?cfg polite ?p1 ?p2"
    by (rule request [where old = "shared ?w1" and now = 0 and req = ?req])
      (use run in \<open>simp_all add: p0 polite_def session_new_def\<close>)
  let ?p3 = "?p2\<lparr>sessions := (sessions ?p2)(1 \<mapsto> (s2, Waiting 9 (length (bus ?p2))))\<rparr>"
  have 3: "pub_task ref_codec ?cfg polite ?p2 ?p3" by (rule subscribe) simp
  obtain data where d: "cache_get 9 (block_cache w2) = Some data" "decode_block ref_codec (bd_contents data) = Inr (example_block 5)"
    "items_received w2 = [\<lparr>block_number = 5, cache_key = 9\<rparr>]"
    using sub by (auto simp: submitted_def open_session_def example_world_def)
  have "rtranclp (pub_task ref_codec ?cfg polite) pub_example ?p3"
    using 1 2 3 by (meson rtranclp.intros)
  then show ?thesis
    using s2 d p0(3) by (intro exI [of _ ?p3] exI [of _ s2] exI [of _ data]) (simp add: open_session_def)
qed

lemma pipeline_example_store:
  "\<exists>s0 d' s. persistence_initialize ref_rocksdb ref_codec example_config (Inr []) ref_empty empty_disk = (Inr s0, d') \<and>
     cold_numbers (ps_indices s0) = {} \<and>
     write_block ref_rocksdb ref_codec default_persistence_config 0 (example_block 5) s0 = Some (Inr (), s)"
proof -
  obtain s0 d' where init: "persistence_initialize ref_rocksdb ref_codec example_config (Inr []) ref_empty empty_disk = (Inr s0, d')"
    using example_run [of 1] by blast
  have idx: "ps_indices s0 = []"
    using init by (auto simp: persistence_initialize_def scan_and_build_index_def res_simps)
  note inv = fresh_reach_inv [of ref_rocksdb ref_view ref_invar, OF refp.persist_laws_axioms ref_invar_empty example_fresh init reach_start]
  have b: "get_block_number (example_block 5) = Inr 5" by (simp add: get_block_number_def)
  have db: "db_ok ref_codec (ref_view (ps_db s0))" using inv(2) by (simp add: persist_inv_def archive_ok_def)
  have "\<exists>r s. write_block ref_rocksdb ref_codec default_persistence_config 0 (example_block 5) s0 = Some (r, s) \<and> r = Inr ()"
    using refp.write_block_eq [of s0 "example_block 5" 5 0 default_persistence_config] inv(1) db b persist_inv_marks [OF inv(2)]
    by (auto simp: default_persistence_config_def)
  then show ?thesis using init idx by (auto simp: cold_numbers_def)
qed

lemma pipeline_example_acked:
  "\<exists>s0 d' nd0 nd. persistence_initialize ref_rocksdb ref_codec example_config (Inr []) ref_empty empty_disk = (Inr s0, d') \<and>
     node_init example_config None s0 = Some nd0 \<and> node_reach ref_rocksdb ref_view ref_codec (\<lambda>_. []) example_config {} nd0 nd \<and>
     (1, Acknowledgement 5) \<in> set (responses (pworld (npub nd)))"
proof -
  let ?R = ref_rocksdb and ?C = ref_codec and ?e = "\<lparr>block_number = 5, cache_key = 9\<rparr>"
  let ?reach = "node_reach ?R ref_view ?C (\<lambda>_. []) example_config {}"
  obtain s0 d' s where init: "persistence_initialize ?R ?C example_config (Inr []) ref_empty empty_disk = (Inr s0, d')"
    "cold_numbers (ps_indices s0) = {}" "write_block ?R ?C default_persistence_config 0 (example_block 5) s0 = Some (Inr (), s)"
    using pipeline_example_store by blast
  obtain p t data where p: "rtranclp (pub_task ?C default_publish_config polite) pub_example p" "sessions p 1 = Some (t, Waiting 9 0)"
    "block_of t = 5" "bus p = []" "1 \<in> set (active_sessions (shared (pworld p)))" "items_received (pworld p) = [?e]"
    "cache_get 9 (block_cache (pworld p)) = Some data" "decode_block ?C (bd_contents data) = Inr (example_block 5)"
    using pipeline_example_submitted by blast
  define nd0 where "nd0 = \<lparr>npub = pub_example, verified_queue = [], nstore = s0\<rparr>"
  have conf: "publish_service (plugins example_config) = default_publish_config"
    by (simp add: example_config_def default_plugin_configs_def)
  have start: "node_init example_config None s0 = Some nd0"
    by (simp add: node_init_def conf pub_example_init nd0_def)
  let ?nd1 = "nd0\<lparr>npub := p\<rparr>"
  have 1: "?reach nd0 ?nd1" using p(1) by (intro tasks_node_reach) (simp add: conf nd0_def)
  let ?bc = "mark_for_removal 9 (block_cache (pworld p))"
  let ?nd2 = "?nd1\<lparr>npub := after_event ?nd1 [] ?bc (map PersistedEvent [?e]), nstore := s\<rparr>"
  have "node_step ?R ref_view ?C (\<lambda>_. []) example_config {} ?nd1 ?nd2"
  proof (rule persist_unverified [where rx = None and e = ?e and ev = "Unverified ?e"])
    show "writable ?C ?nd1 ?e"
      using p(7,8) init(2) example_compressed [of 5] by (auto simp: writable_def get_block_number_def nd0_def)
    show "process_event ?R ?C (persistence_service (plugins example_config)) (start_block_number (core example_config)) (Unverified ?e)
        (ncache ?nd1) (nstore ?nd1) = Some ([?e], ?bc, s)"
      using p(7,8) init(3) by (simp add: process_event_def nd0_def)
  qed (use p(6) in \<open>simp_all add: next_event_def is_registered_def\<close>)
  with 1 have 2: "?reach nd0 ?nd2" by (rule node_next)
  let ?r = "await_result (block_of t) 9 [PersistedEvent ?e]"
  let ?p3 = "(npub ?nd2)\<lparr>pworld := settle_first (block_of t) ?r t (pworld (npub ?nd2)),
    sessions := (sessions (npub ?nd2))(1 \<mapsto> (t, Settling ?r))\<rparr>"
  have "pub_task ?C default_publish_config polite (npub ?nd2) ?p3"
    by (rule wake [where es = "[PersistedEvent ?e]" and key = 9 and pos = 0]) (simp_all add: p)
  then have 3: "?reach nd0 (?nd2\<lparr>npub := ?p3\<rparr>)" using node_next [OF 2 publisher] by (simp add: conf)
  have ack: "(1, Acknowledgement 5) \<in> set (responses (pworld (npub (?nd2\<lparr>npub := ?p3\<rparr>))))"
    using p(3,5) by (simp add: settle_first_def broadcast_def set_latest_persisted_block_def after_event_def Let_def)
  from init(1) start 3 ack show ?thesis by blast
qed

theorem acknowledged_blocks_readable_witness:
  "\<exists>nd :: ref_db node_state. (1, Acknowledgement 5) \<in> set (responses (pworld (npub nd))) \<and>
     (\<exists>b. read_block ref_rocksdb ref_codec (nstore nd) 5 = (Inr (Some (encode_to_vec ref_codec b)), nstore nd) \<and>
        get_block_number b = Inr 5)"
proof -
  obtain s0 d' nd0 nd where e: "persistence_initialize ref_rocksdb ref_codec example_config (Inr []) ref_empty empty_disk = (Inr s0, d')"
    "node_init example_config None s0 = Some nd0" "node_reach ref_rocksdb ref_view ref_codec (\<lambda>_. []) example_config {} nd0 nd"
    "(1, Acknowledgement 5) \<in> set (responses (pworld (npub nd)))" using pipeline_example_acked by blast
  from acknowledged_blocks_readable [of ref_rocksdb ref_view ref_invar, OF refp.persist_laws_axioms ref_invar_empty example_fresh e]
  show ?thesis using e(4) by blast
qed

end
