(* ===== verification/Reader.thy ===== *)
theory Reader
  imports Persist_System
begin

text \<open>
  The interfaces through which other plugins use storage (\<^verbatim>\<open>core/src/block_reader.rs\<close> and
  \<^verbatim>\<open>core/src/block_writer.rs\<close>): a record of operations for each, the contracts the plugins rely on as
  locales, and the persistence service as their provider.
\<close>

section \<open>Interface\<close>

record 's block_reader =
  br_latest :: "'s \<Rightarrow> u64 option res"
  br_earliest :: "'s \<Rightarrow> u64 option res"
  br_read :: "'s \<Rightarrow> u64 \<Rightarrow> bytes option res"
  br_highest_contiguous :: "'s \<Rightarrow> u64 res"

text \<open>
  In a good state nothing fails, what is read as block \<open>n\<close> decodes to a block with number \<open>n\<close>, and
  every block after the base and up to the highest contiguous one can be read.
\<close>

locale block_reader_laws =
  fixes rd :: "'s block_reader" and C :: codec and good :: "'s \<Rightarrow> bool" and base :: u64
  assumes latest_ok: "good s \<Longrightarrow> \<exists>l. br_latest rd s = Inr l"
    and earliest_ok: "good s \<Longrightarrow> \<exists>e. br_earliest rd s = Inr e"
    and read_ok: "good s \<Longrightarrow> \<exists>r. br_read rd s n = Inr r"
    and read_decodes: "good s \<Longrightarrow> br_read rd s n = Inr (Some bs) \<Longrightarrow>
      bs \<noteq> [] \<and> (\<exists>b. decode_block C bs = Inr b \<and> get_block_number b = Inr n)"
    and contiguous_ok: "good s \<Longrightarrow> \<exists>h. br_highest_contiguous rd s = Inr h"
    and contiguous_read: "good s \<Longrightarrow> br_highest_contiguous rd s = Inr h \<Longrightarrow> base < n \<Longrightarrow> n \<le> h \<Longrightarrow>
      \<exists>bs. br_read rd s n = Inr (Some bs)"

text \<open>The writing interface: one live block, or a batch of historical blocks.\<close>

record 's block_writer =
  bw_write :: "block \<Rightarrow> 's \<Rightarrow> (unit res \<times> 's) option"
  bw_write_batch :: "block list \<Rightarrow> 's \<Rightarrow> unit res \<times> 's"

text \<open>
  A store with both interfaces: writing a block that fits makes it readable and leaves the others as
  they were, and what fitted before still fits. A block without a number is refused without effect.
\<close>

locale block_store_laws = block_reader_laws rd C good base
  for rd :: "'s block_reader" and C :: codec and good :: "'s \<Rightarrow> bool" and base :: u64 +
  fixes wr :: "'s block_writer" and fits :: "'s \<Rightarrow> block \<Rightarrow> bool"
  assumes write_new: "good s \<Longrightarrow> fits s b \<Longrightarrow> get_block_number b = Inr n \<Longrightarrow>
      \<exists>s'. bw_write wr b s = Some (Inr (), s') \<and> good s' \<and> (\<exists>bs. br_read rd s' n = Inr (Some bs)) \<and>
        (\<forall>m. m \<noteq> n \<longrightarrow> br_read rd s' m = br_read rd s m) \<and> (\<forall>b'. fits s b' \<longrightarrow> fits s' b')"
    and write_unnumbered: "get_block_number b = Inl e \<Longrightarrow> bw_write wr b s = Some (Inl e, s)"

section \<open>The persistence service as a store\<close>

definition persistence_reader :: "'db rocksdb \<Rightarrow> codec \<Rightarrow> 'db pstate block_reader" where
  "persistence_reader R C = \<lparr>
     br_latest = get_latest_persisted_block_number R,
     br_earliest = get_earliest_persisted_block_number R,
     br_read = (\<lambda>s n. fst (read_block R C s n)),
     br_highest_contiguous = get_highest_contiguous_block_number R\<rparr>"

definition persistence_writer ::
    "'db rocksdb \<Rightarrow> codec \<Rightarrow> persistence_config \<Rightarrow> u64 \<Rightarrow> 'db pstate block_writer" where
  "persistence_writer R C cfg start = \<lparr>
     bw_write = write_block R C cfg start,
     bw_write_batch = write_block_batch R C cfg\<rparr>"

text \<open>A block fits if its number has at most ten digits, it fits an archive record and it is not archived.\<close>

definition persist_fits :: "codec \<Rightarrow> 'db pstate \<Rightarrow> block \<Rightarrow> bool" where
  "persist_fits C s b \<longleftrightarrow>
     (case get_block_number b of
        Inr n \<Rightarrow> unat n < 10 ^ 10 \<and> length (compressed C b) < 2 ^ 32 \<and> n \<notin> cold_numbers (ps_indices s)
      | Inl _ \<Rightarrow> False)"

definition persist_good ::
    "('db \<Rightarrow> tables) \<Rightarrow> ('db \<Rightarrow> bool) \<Rightarrow> codec \<Rightarrow> persistence_config \<Rightarrow> u64 \<Rightarrow> 'db pstate \<Rightarrow> bool" where
  "persist_good view invar C cfg base s \<longleftrightarrow>
     invar (ps_db s) \<and> persist_inv C cfg base (view (ps_db s)) (ps_disk s) (ps_indices s)"

context persist_laws
begin

lemma reader_laws:
  "block_reader_laws (persistence_reader R C) C (persist_good view invar C cfg base) base"
proof
  fix s n h bs
  assume good: "persist_good view invar C cfg base s"
  have inv: "invar (ps_db s)" and pinv: "persist_inv C cfg base (view (ps_db s)) (ps_disk s) (ps_indices s)"
    and ar: "archive_ok C cfg (view (ps_db s)) (ps_disk s) (ps_indices s)" and meta: "meta_ok (view (ps_db s))"
    using good by (auto simp: persist_good_def persist_inv_def archive_ok_def db_ok_def)
  note read = read_block_eq [OF inv ar, of n]
  show "\<exists>l. br_latest (persistence_reader R C) s = Inr l" "\<exists>e. br_earliest (persistence_reader R C) s = Inr e"
    using inv meta by (simp_all add: persistence_reader_def get_latest_persisted_block_number_def
        get_earliest_persisted_block_number_def watermark_eqs)
  show "\<exists>r. br_read (persistence_reader R C) s n = Inr r" by (simp add: persistence_reader_def read)
  show "\<exists>h. br_highest_contiguous (persistence_reader R C) s = Inr h"
    using get_highest_contiguous_hc [OF inv meta] by (simp add: persistence_reader_def get_highest_contiguous_block_number_def)
  show "bs \<noteq> [] \<and> (\<exists>b. decode_block C bs = Inr b \<and> get_block_number b = Inr n)"
    if "br_read (persistence_reader R C) s n = Inr (Some bs)"
  proof -
    have "n \<in> stored (view (ps_db s)) (ps_indices s)"
      using that read block_bytes_stored [OF ar, of n] by (auto simp: persistence_reader_def)
    then have "\<exists>b. bs = encode_to_vec C b \<and> get_block_number b = Inr n"
      using that read stored_bytes [OF ar, of n] by (auto simp: persistence_reader_def)
    then obtain b where "bs = encode_to_vec C b" "get_block_number b = Inr n" by blast
    then show ?thesis using decode_encode encode_nonempty [of b] by (auto simp: get_block_number_Inr)
  qed
  show "\<exists>bs. br_read (persistence_reader R C) s n = Inr (Some bs)"
    if "br_highest_contiguous (persistence_reader R C) s = Inr h" "base < n" "n \<le> h"
  proof -
    have "h = hc (view (ps_db s))" using that(1) get_highest_contiguous_hc [OF inv meta]
      by (simp add: persistence_reader_def get_highest_contiguous_block_number_def)
    then have "n \<in> stored (view (ps_db s)) (ps_indices s)"
      using pinv that(2,3) contig_okD(1) unfolding persist_inv_def by blast
    then show ?thesis using read stored_bytes [OF ar, of n] by (auto simp: persistence_reader_def)
  qed
qed

lemma store_laws:
  assumes "archive_batch_size cfg \<noteq> 0"
  shows "block_store_laws (persistence_reader R C) C (persist_good view invar C cfg (saturating_sub start 1))
    (saturating_sub start 1) (persistence_writer R C cfg start) (persist_fits C)"
proof (intro block_store_laws.intro reader_laws block_store_laws_axioms.intro)
  fix s :: "'db pstate" and b n
  assume good: "persist_good view invar C cfg (saturating_sub start 1) s" and fits: "persist_fits C s b"
    and n: "get_block_number b = Inr n"
  have inv: "invar (ps_db s)" and pinv: "persist_inv C cfg (saturating_sub start 1) (view (ps_db s)) (ps_disk s) (ps_indices s)"
    and ar: "archive_ok C cfg (view (ps_db s)) (ps_disk s) (ps_indices s)"
    using good by (auto simp: persist_good_def persist_inv_def)
  have fit: "unat n < 10 ^ 10" "length (compressed C b) < 2 ^ 32" "n \<notin> cold_numbers (ps_indices s)"
    using fits n by (simp_all add: persist_fits_def)
  obtain s' where w: "write_block R C cfg start b s = Some (Inr (), s')" "read_block R C s' n = (Inr (Some (encode_to_vec C b)), s')"
    "\<forall>m. m \<noteq> n \<longrightarrow> fst (read_block R C s' m) = fst (read_block R C s m)" "ps_indices s' = ps_indices s"
    using write_read [OF inv ar n small_not_max [OF fit(1)] persist_inv_marks [OF pinv] assms] by blast
  have "persist_fits C s' = persist_fits C s" using w(4) by (simp add: persist_fits_def fun_eq_iff split: sum.splits)
  moreover have "persist_good view invar C cfg (saturating_sub start 1) s'"
    using persist_inv_live_write [OF inv pinv n fit w(1)] by (simp add: persist_good_def)
  ultimately show "\<exists>s'. bw_write (persistence_writer R C cfg start) b s = Some (Inr (), s') \<and>
      persist_good view invar C cfg (saturating_sub start 1) s' \<and>
      (\<exists>bs. br_read (persistence_reader R C) s' n = Inr (Some bs)) \<and>
      (\<forall>m. m \<noteq> n \<longrightarrow> br_read (persistence_reader R C) s' m = br_read (persistence_reader R C) s m) \<and>
      (\<forall>b'. persist_fits C s b' \<longrightarrow> persist_fits C s' b')"
    using w by (simp add: persistence_writer_def persistence_reader_def)
qed (simp add: persistence_writer_def write_block_def opt_then_def)

end

locale persist_provider = persist_laws R view invar C
  for R :: "'db rocksdb" and view :: "'db \<Rightarrow> tables" and invar :: "'db \<Rightarrow> bool" and C :: codec +
  fixes pcfg :: persistence_config and pbase :: u64

sublocale persist_provider \<subseteq> reader: block_reader_laws "persistence_reader R C" C "persist_good view invar C pcfg pbase" pbase
  by (rule reader_laws)

interpretation refr: persist_provider ref_rocksdb ref_view ref_invar ref_codec default_persistence_config 0
  by unfold_locales

interpretation refs: block_store_laws "persistence_reader ref_rocksdb ref_codec" ref_codec
  "persist_good ref_view ref_invar ref_codec default_persistence_config (saturating_sub 0 1)" "saturating_sub 0 1"
  "persistence_writer ref_rocksdb ref_codec default_persistence_config 0" "persist_fits ref_codec"
  by (rule refp.store_laws) (simp add: default_persistence_config_def)

text \<open>A store that holds block 1.\<close>

lemma reader_example:
  "\<exists>s. persist_good ref_view ref_invar ref_codec default_persistence_config 0 s \<and>
     get_highest_contiguous_block_number ref_rocksdb s = Inr 1 \<and>
     get_latest_persisted_block_number ref_rocksdb s = Inr (Some 1) \<and>
     get_earliest_persisted_block_number ref_rocksdb s = Inr (Some 1)"
proof -
  obtain s0 d' s where r: "persistence_initialize ref_rocksdb ref_codec example_config (Inr []) ref_empty empty_disk = (Inr s0, d')"
    "persist_reach ref_rocksdb ref_view ref_codec default_persistence_config 0 s0 s"
    "get_highest_contiguous_block_number ref_rocksdb s = Inr 1" "get_latest_persisted_block_number ref_rocksdb s = Inr (Some 1)"
    "get_earliest_persisted_block_number ref_rocksdb s = Inr (Some 1)" using example_run [of 1] by auto
  have "persist_good ref_view ref_invar ref_codec default_persistence_config 0 s"
    using fresh_reach_inv [of ref_rocksdb ref_view ref_invar, OF refp.persist_laws_axioms ref_invar_empty example_fresh r(1)] r(2)
    by (simp add: persist_good_def saturating_sub_def)
  then show ?thesis using r by blast
qed

text \<open>The empty store with one block written to it: block 2 leaves block 1 missing.\<close>

lemma empty_state_good: "persist_good ref_view ref_invar ref_codec default_persistence_config 0 empty_state"
  by (simp add: persist_good_def persist_inv_def empty_state_archive_ok empty_state_marks contig_ok_def ref_invar_empty)

lemma stored_example:
  assumes "n = 1 \<or> n = 2"
  shows "\<exists>s. persist_good ref_view ref_invar ref_codec default_persistence_config 0 s \<and> ps_indices s = [] \<and>
    missing (ref_view (ps_db s)) = (if n = 1 then {} else {1}) \<and> hc (ref_view (ps_db s)) = (if n = 1 then 1 else 0) \<and>
    meta (ref_view (ps_db s)) LATEST_PERSISTED_KEY = Some n \<and> meta (ref_view (ps_db s)) TRUE_EARLIEST_PERSISTED_KEY = Some n \<and>
    fst (read_block ref_rocksdb ref_codec s n) = Inr (Some (encode_to_vec ref_codec (example_block n)))"
proof -
  let ?cfg = "default_persistence_config"
  have num: "get_block_number (example_block n) = Inr n" "n \<noteq> u64_MAX" "unat n < 10 ^ 10" "n > 0"
    using assms by (auto simp: get_block_number_def)
  have size: "archive_batch_size ?cfg \<noteq> 0" by (simp add: default_persistence_config_def)
  have none: "missing (ref_view ref_empty) = {}"
    by (simp add: missing_def gaps_of_def gap_map_of_def gap_set_def ref_view_def ref_empty_def)
  obtain r s h M where w: "write_block ref_rocksdb ref_codec ?cfg 0 (example_block n) empty_state = Some (r, s)"
    "contig_step (ref_view ref_empty) n n h M" "write_effect ref_codec 0 (ref_view ref_empty) (example_block n) n h M (ref_view (ps_db s))"
    using refp.write_block_eq [of empty_state "example_block n" n 0 ?cfg] num
    by (auto simp: empty_state_marks empty_state_db_ok saturating_sub_def max_def ref_invar_empty)
  obtain s' where s': "write_block ref_rocksdb ref_codec ?cfg 0 (example_block n) empty_state = Some (Inr (), s')"
    "read_block ref_rocksdb ref_codec s' n = (Inr (Some (encode_to_vec ref_codec (example_block n))), s')" "ps_indices s' = []"
    using refp.write_read [of empty_state ?cfg "example_block n" n 0] num size
    by (auto simp: empty_state_marks empty_state_archive_ok saturating_sub_def ref_invar_empty)
  have eq: "s' = s" using w(1) s'(1) by simp
  have "persist_good ref_view ref_invar ref_codec ?cfg 0 s"
    using refp.persist_inv_live_write [of empty_state ?cfg 0 "example_block n" n, OF _ _ num(1,3) _ _ w(1)] example_compressed [of n]
      empty_state_good by (simp add: persist_good_def saturating_sub_def cold_numbers_def)
  moreover have "M = (if n = 1 then {} else {1})" "h = (if n = 1 then 1 else 0)"
    using w(2) assms none by (auto simp: contig_step_def walked_def empty_state_marks)
  ultimately show ?thesis
    using w(3) s' eq num(4) unfolding write_effect_def
    by (intro exI [of _ s]) (auto simp: lp_def empty_state_meta max_def split: option.splits)
qed

text \<open>
  With a start of zero the watermark begins at block 0 although nothing is stored: when block 1 is the first
  to arrive, block 0 counts as contiguous, cannot be read and is in no recorded gap.
\<close>

lemma empty_state_reads: "fst (read_block ref_rocksdb ref_codec empty_state n) = Inr None"
  using refp.read_block_eq [of empty_state default_persistence_config n]
  by (simp add: empty_state_archive_ok ref_invar_empty block_bytes_def empty_state_hot cold_bytes_def cold_read_block_def find_chunk_def)

lemma first_block_missing_unrecorded:
  "\<exists>s. write_block ref_rocksdb ref_codec default_persistence_config 0 (example_block 1) empty_state = Some (Inr (), s) \<and>
     get_highest_contiguous_block_number ref_rocksdb s = Inr 1 \<and> fst (read_block ref_rocksdb ref_codec s 0) = Inr None \<and>
     find_containing_gap ref_rocksdb (ps_db s) 0 = Inr None"
proof -
  let ?cfg = default_persistence_config
  have num: "get_block_number (example_block 1) = Inr 1" "(1 :: u64) \<noteq> u64_MAX" by (simp_all add: get_block_number_def)
  have size: "archive_batch_size ?cfg \<noteq> 0" by (simp add: default_persistence_config_def)
  obtain s where w: "write_block ref_rocksdb ref_codec ?cfg 0 (example_block 1) empty_state = Some (Inr (), s)"
    "\<And>m. m \<noteq> 1 \<Longrightarrow> fst (read_block ref_rocksdb ref_codec s m) = fst (read_block ref_rocksdb ref_codec empty_state m)"
    using refp.write_read [of empty_state ?cfg "example_block 1" 1 0] num size
    by (auto simp: empty_state_marks empty_state_archive_ok saturating_sub_def ref_invar_empty)
  have good: "persist_good ref_view ref_invar ref_codec ?cfg 0 s"
    using refp.persist_inv_live_write [of empty_state ?cfg 0 "example_block 1" 1, OF _ _ num(1) _ _ _ w(1)] example_compressed [of 1]
      empty_state_good by (simp add: persist_good_def saturating_sub_def cold_numbers_def)
  then have ok: "ref_invar (ps_db s)" "gaps_ok (ref_view (ps_db s))" "meta_ok (ref_view (ps_db s))"
    by (auto simp: persist_good_def persist_inv_def archive_ok_def db_ok_def)
  have none: "missing (ref_view ref_empty) = {}"
    by (simp add: missing_def gaps_of_def gap_map_of_def gap_set_def ref_view_def ref_empty_def)
  obtain h M where h: "contig_step (ref_view ref_empty) 1 1 h M"
    "write_effect ref_codec 0 (ref_view ref_empty) (example_block 1) 1 h M (ref_view (ps_db s))"
    using refp.write_block_eq [of empty_state "example_block 1" 1 0 ?cfg] num w(1)
    by (auto simp: empty_state_marks empty_state_db_ok saturating_sub_def max_def ref_invar_empty)
  then have "missing (ref_view (ps_db s)) = {}" "hc (ref_view (ps_db s)) = 1"
    using none by (auto simp: contig_step_def walked_def empty_state_marks write_effect_def)
  then have "find_containing_gap ref_rocksdb (ps_db s) 0 = Inr None" "get_highest_contiguous_block_number ref_rocksdb s = Inr 1"
    using find_containing_gap_correct [of ref_rocksdb ref_view ref_invar "ps_db s" 0, OF ref.rocksdb_laws_axioms ok(1,2)] refp.get_highest_contiguous_hc [OF ok(1,3)]
    by (auto simp: get_highest_contiguous_block_number_def)
  moreover have "fst (read_block ref_rocksdb ref_codec s 0) = Inr None" using w(2) [of 0] empty_state_reads [of 0] by simp
  ultimately show ?thesis using w(1) by blast
qed

end
