(* ===== verification/Subscriber.thy ===== *)
theory Subscriber
  imports Reader
begin

text \<open>
  The subscriber plugin (\<^verbatim>\<open>rock-node-subscriber-plugin\<close>): the errors of a session and their status
  codes (\<^verbatim>\<open>error.rs\<close>), and a session from the validation of its request to its final status
  (\<^verbatim>\<open>session.rs\<close>). Storage is a parameter that implements the reading interface; its state may
  differ at every turn of the session. Metrics and log messages are left out.
\<close>

section \<open>Errors\<close>

datatype sub_code =
    SubSuccess
  | SubInvalidStartBlockNumber
  | SubInvalidEndBlockNumber
  | SubNotAvailable
  | SubError
  | SubUnknown

datatype subscriber_error =
    Validation string sub_code
  | Persistence error
  | ClientDisconnected
  | StreamLagged
  | TimeoutWaitingForBlock u64
  | ServerShutdown
  | Internal string

fun to_status_code :: "subscriber_error \<Rightarrow> sub_code" where
  "to_status_code (Validation _ code) = code"
| "to_status_code (Persistence _) = SubError"
| "to_status_code StreamLagged = SubError"
| "to_status_code (TimeoutWaitingForBlock _) = SubError"
| "to_status_code ServerShutdown = SubError"
| "to_status_code ClientDisconnected = SubError"
| "to_status_code (Internal _) = SubError"

fun to_metric_label :: "subscriber_error \<Rightarrow> string" where
  "to_metric_label (Validation _ code) =
     (case code of
        SubInvalidStartBlockNumber \<Rightarrow> ''invalid_start_block''
      | SubInvalidEndBlockNumber \<Rightarrow> ''invalid_end_block''
      | SubNotAvailable \<Rightarrow> ''not_available''
      | _ \<Rightarrow> ''invalid_request'')"
| "to_metric_label (Persistence _) = ''persistence_error''"
| "to_metric_label ClientDisconnected = ''client_disconnect''"
| "to_metric_label StreamLagged = ''stream_lagged''"
| "to_metric_label (TimeoutWaitingForBlock _) = ''timeout''"
| "to_metric_label ServerShutdown = ''server_shutdown''"
| "to_metric_label (Internal _) = ''internal_error''"

section \<open>Session\<close>

record subscribe_request =
  req_start :: u64
  req_end :: u64

datatype subscribe_response =
    SubBlockItems block_item_set
  | SubStatus sub_code

definition show_u64 :: "u64 \<Rightarrow> string" where
  "show_u64 n = show_dec (unat n)"

text \<open>The block to start from, or why the request cannot be served.\<close>

definition validate_and_check_fulfillment ::
    "'s block_reader \<Rightarrow> subscriber_config \<Rightarrow> subscribe_request \<Rightarrow> 's \<Rightarrow> (subscriber_error, u64) result" where
  "validate_and_check_fulfillment rd cfg req s =
     (case br_earliest rd s of Inl e \<Rightarrow> Inl (Persistence e) | Inr earliest \<Rightarrow>
      case br_latest rd s of Inl e \<Rightarrow> Inl (Persistence e) | Inr latest \<Rightarrow>
      let start_req = req_start req; end_req = req_end req in
      if end_req \<noteq> u64_MAX \<and> start_req \<noteq> u64_MAX \<and> start_req > end_req
      then Inl (Validation (''Invalid request: start block '' @ show_u64 start_req @
             '' cannot be after end block '' @ show_u64 end_req) SubInvalidEndBlockNumber)
      else
      let start_block = (if start_req = u64_MAX then (case earliest of None \<Rightarrow> 0 | Some e \<Rightarrow> e) else start_req) in
      if start_req = u64_MAX \<and> end_req = u64_MAX then Inr start_block
      else if start_req = u64_MAX \<and> end_req \<noteq> u64_MAX
      then (case earliest of
              Some e \<Rightarrow>
                if e \<le> end_req then Inr e
                else Inl (Validation (''Cannot fulfill request: earliest available block '' @ show_u64 e @
                       '' is after requested end block '' @ show_u64 end_req) SubNotAvailable)
            | None \<Rightarrow> Inl (Validation ''Cannot fulfill request: no blocks available yet'' SubNotAvailable))
      else if (case earliest of Some e \<Rightarrow> start_block < e | None \<Rightarrow> False)
      then Inl (Validation (''Requested start block '' @ show_u64 start_block @
             '' is before earliest available block '' @ show_u64 (the earliest)) SubInvalidStartBlockNumber)
      else
      let max_permitted = map_option (\<lambda>l. l + max_future_block_lookahead cfg) latest in
      if (case max_permitted of Some m \<Rightarrow> start_block > m | None \<Rightarrow> False)
      then Inl (Validation (''Requested start block '' @ show_u64 start_block @ '' is too far in the future (latest: '' @
             show_u64 (the latest) @ '', max permitted: '' @ show_u64 (the max_permitted) @ '')'') SubNotAvailable)
      else Inr start_block)"

text \<open>
  What a wait on the bus receives: the number of a persisted block, a lag notice, the end of the
  channel, or nothing in time. The result is None while the wait goes on.
\<close>

datatype bus_recv = RecvPersisted u64 | RecvLagged | RecvClosed | RecvTimeout

fun wait_for_new_block :: "u64 \<Rightarrow> bus_recv list \<Rightarrow> (subscriber_error, unit) result option" where
  "wait_for_new_block needed [] = None"
| "wait_for_new_block needed (RecvPersisted n # rs) =
     (if n \<ge> needed then Some (Inr ()) else wait_for_new_block needed rs)"
| "wait_for_new_block needed (RecvLagged # rs) = Some (Inr ())"
| "wait_for_new_block needed (RecvClosed # rs) = Some (Inl (Internal ''Broadcast channel closed''))"
| "wait_for_new_block needed (RecvTimeout # rs) = Some (Inl (TimeoutWaitingForBlock needed))"

text \<open>Sending a block fails when it does not decode or when the client is gone.\<close>

definition send_block :: "codec \<Rightarrow> bool \<Rightarrow> bytes \<Rightarrow> (subscriber_error, block_item_set) result" where
  "send_block C client_open block_data_bytes =
     (case decode_block C block_data_bytes of
        Inl e \<Rightarrow> Inl (Persistence e)
      | Inr b \<Rightarrow> if client_open then Inr \<lparr>block_items = items b\<rparr> else Inl ClientDisconnected)"

text \<open>
  One turn of the streaming loop: the set it sends, if any, and the next block, the end of the stream
  or an error. None means that it is still waiting.
\<close>

definition process_next_block ::
    "'s block_reader \<Rightarrow> codec \<Rightarrow> subscribe_request \<Rightarrow> 's \<Rightarrow> bool \<Rightarrow> bus_recv list \<Rightarrow> u64 \<Rightarrow> bool \<Rightarrow>
     (block_item_set list \<times> (subscriber_error, u64 option) result) option" where
  "process_next_block rd C req s client_open recvs n is_finite =
     (if is_finite \<and> n > req_end req then Some ([], Inr None)
      else (case br_read rd s n of
              Inr (Some bs) \<Rightarrow>
                (case send_block C client_open bs of
                   Inl e \<Rightarrow> Some ([], Inl e)
                 | Inr item_set \<Rightarrow> Some ([item_set], Inr (Some (n + 1))))
            | Inr None \<Rightarrow>
                (case wait_for_new_block n recvs of
                   None \<Rightarrow> None
                 | Some (Inl e) \<Rightarrow> Some ([], Inl e)
                 | Some (Inr _) \<Rightarrow> Some ([], Inr (Some n)))
            | Inl e \<Rightarrow> Some ([], Inl (Persistence e))))"

text \<open>
  The inputs of the loop: a shutdown signal, which abandons the turn, or a turn with the storage it
  reads, whether the client is still there, and what the bus delivers while it waits. The result is
  None while the stream goes on.
\<close>

datatype 's turn = ShutdownSignal | Turn 's bool "bus_recv list"

fun stream_loop ::
    "'s block_reader \<Rightarrow> codec \<Rightarrow> subscribe_request \<Rightarrow> bool \<Rightarrow> u64 \<Rightarrow> 's turn list \<Rightarrow>
     block_item_set list \<times> (subscriber_error, unit) result option" where
  "stream_loop rd C req is_finite n [] = ([], None)"
| "stream_loop rd C req is_finite n (ShutdownSignal # ts) = ([], Some (Inl ServerShutdown))"
| "stream_loop rd C req is_finite n (Turn s client_open recvs # ts) =
     (case process_next_block rd C req s client_open recvs n is_finite of
        None \<Rightarrow> ([], None)
      | Some (sent, Inr (Some next)) \<Rightarrow>
          (let (rest, r) = stream_loop rd C req is_finite next ts in (sent @ rest, r))
      | Some (sent, Inr None) \<Rightarrow> (sent, Some (Inr ()))
      | Some (sent, Inl e) \<Rightarrow> (sent, Some (Inl e)))"

definition execute_stream ::
    "'s block_reader \<Rightarrow> codec \<Rightarrow> subscriber_config \<Rightarrow> subscribe_request \<Rightarrow> 's \<Rightarrow> 's turn list \<Rightarrow>
     block_item_set list \<times> (subscriber_error, unit) result option" where
  "execute_stream rd C cfg req s ts =
     (case validate_and_check_fulfillment rd cfg req s of
        Inl e \<Rightarrow> ([], Some (Inl e))
      | Inr start \<Rightarrow> stream_loop rd C req (req_end req \<noteq> u64_MAX) start ts)"

text \<open>
  The final status is lost when the client is gone. A client that has disconnected does not come back:
  after \<^term>\<open>ClientDisconnected\<close> the channel is closed for the status too.
\<close>

definition send_final_status :: "bool \<Rightarrow> sub_code \<Rightarrow> subscribe_response list" where
  "send_final_status client_open code =
     (if code = SubUnknown then [] else if client_open then [SubStatus code] else [])"

definition finalize_stream :: "bool \<Rightarrow> (subscriber_error, unit) result \<Rightarrow> subscribe_response list" where
  "finalize_stream client_open result =
     send_final_status client_open (case result of Inr _ \<Rightarrow> SubSuccess | Inl e \<Rightarrow> to_status_code e)"

text \<open>
  What a session has sent, and whether it has ended. The flag says whether the client is still there when
  the status is sent.
\<close>

definition subscriber_run ::
    "'s block_reader \<Rightarrow> codec \<Rightarrow> subscriber_config \<Rightarrow> subscribe_request \<Rightarrow> 's \<Rightarrow> 's turn list \<Rightarrow> bool \<Rightarrow>
     subscribe_response list \<times> bool" where
  "subscriber_run rd C cfg req s ts client_open =
     (case execute_stream rd C cfg req s ts of
        (sent, None) \<Rightarrow> (map SubBlockItems sent, False)
      | (sent, Some result) \<Rightarrow>
          (map SubBlockItems sent @ finalize_stream (client_open \<and> result \<noteq> Inl ClientDisconnected) result, True))"

text \<open>
  The service: without a reader the request is refused, otherwise the session is registered while it
  runs.
\<close>

definition session_create :: "'s block_reader option \<Rightarrow> (string, 's block_reader) result" where
  "session_create provider =
     (case provider of None \<Rightarrow> Inl ''BlockReaderProvider not found'' | Some rd \<Rightarrow> Inr rd)"

definition subscribe_block_stream ::
    "'s block_reader option \<Rightarrow> codec \<Rightarrow> subscriber_config \<Rightarrow> uuid \<Rightarrow> subscribe_request \<Rightarrow> 's \<Rightarrow> 's turn list \<Rightarrow>
     bool \<Rightarrow> uuid list \<Rightarrow> (string, subscribe_response list) result \<times> uuid list" where
  "subscribe_block_stream provider C cfg i req s ts client_open active =
     (case session_create provider of
        Inl e \<Rightarrow> (Inl e, active)
      | Inr rd \<Rightarrow>
          (let active1 = List.insert i active; (rs, ended) = subscriber_run rd C cfg req s ts client_open
           in (Inr rs, if ended then removeAll i active1 else active1)))"

section \<open>Streams over any reader\<close>

fun turn_state :: "('s \<Rightarrow> bool) \<Rightarrow> 's turn \<Rightarrow> bool" where
  "turn_state P ShutdownSignal \<longleftrightarrow> True"
| "turn_state P (Turn s _ _) \<longleftrightarrow> P s"

definition numbered :: "u64 \<Rightarrow> block_item_set list \<Rightarrow> bool" where
  "numbered n sent \<longleftrightarrow>
     (\<forall>i < length sent. \<exists>b. items b = block_items (sent ! i) \<and> get_block_number b = Inr (n + of_nat i))"

lemma numbered_Nil [simp]: "numbered n []"
  by (simp add: numbered_def)

lemma numbered_Cons:
  assumes "items b = block_items x" "get_block_number b = Inr n" "numbered (n + 1) xs"
  shows "numbered n (x # xs)"
  unfolding numbered_def
proof (intro allI impI)
  fix i assume "i < length (x # xs)"
  then show "\<exists>b. items b = block_items ((x # xs) ! i) \<and> get_block_number b = Inr (n + of_nat i)"
    using assms by (cases i) (auto simp: numbered_def add.assoc)
qed

lemma validate_bounds:
  assumes "validate_and_check_fulfillment rd cfg req s = Inr start"
  shows "br_earliest rd s = Inr (Some e) \<Longrightarrow> e \<le> start"
    "req_end req \<noteq> u64_MAX \<Longrightarrow> start \<le> req_end req"
    "br_latest rd s = Inr (Some l) \<Longrightarrow> req_start req \<noteq> u64_MAX \<Longrightarrow> start \<le> l + max_future_block_lookahead cfg"
  using assms
  by (auto simp: validate_and_check_fulfillment_def Let_def not_less split: sum.splits option.splits if_splits)

text \<open>The outcomes of a turn.\<close>

lemma process_next_block_cases:
  assumes "process_next_block rd C req s client_open recvs n is_finite = Some (out, res)"
  obtains (finished) "is_finite" "n > req_end req" "out = []" "res = Inr None"
  | (sent) bs x where "\<not> (is_finite \<and> n > req_end req)" "br_read rd s n = Inr (Some bs)"
      "send_block C client_open bs = Inr x" "out = [x]" "res = Inr (Some (n + 1))"
  | (again) "\<not> (is_finite \<and> n > req_end req)" "br_read rd s n = Inr None" "out = []" "res = Inr (Some n)"
  | (failed) e where "out = []" "res = Inl e"
proof (cases "is_finite \<and> n > req_end req")
  case True
  then show thesis using assms finished by (simp add: process_next_block_def)
next
  case False
  then show thesis
    using assms sent again failed
    by (auto simp: process_next_block_def split: sum.splits option.splits)
qed

lemma stream_loop_turn:
  assumes "stream_loop rd C req is_finite n (Turn s client_open recvs # ts) = (sent, r)"
  obtains (waiting) "process_next_block rd C req s client_open recvs n is_finite = None" "sent = []" "r = None"
  | (next_turn) out m rest where "process_next_block rd C req s client_open recvs n is_finite = Some (out, Inr (Some m))"
      "stream_loop rd C req is_finite m ts = (rest, r)" "sent = out @ rest"
  | (last_turn) res where "process_next_block rd C req s client_open recvs n is_finite = Some (sent, res)"
      "r = Some (map_sum id (\<lambda>_. ()) res)" "\<And>m. res \<noteq> Inr (Some m)"
proof (cases "process_next_block rd C req s client_open recvs n is_finite")
  case None
  then show thesis using assms waiting by simp
next
  case (Some p)
  then show thesis
    using assms next_turn last_turn by (cases p) (auto split: sum.splits option.splits prod.splits)
qed

definition serving :: "'s block_reader \<Rightarrow> ('s \<Rightarrow> bool) \<Rightarrow> u64 \<Rightarrow> 's turn \<Rightarrow> bool" where
  "serving rd good upto_block t \<longleftrightarrow>
     (case t of
        Turn s client_open _ \<Rightarrow> good s \<and> client_open \<and> (\<exists>h. br_highest_contiguous rd s = Inr h \<and> upto_block \<le> h)
      | ShutdownSignal \<Rightarrow> False)"

context block_reader_laws
begin

lemma send_block_read:
  assumes "good s" and "br_read rd s n = Inr (Some bs)" and "send_block C client_open bs = Inr x"
  shows "\<exists>b. items b = block_items x \<and> get_block_number b = Inr n"
proof -
  obtain b where "decode_block C bs = Inr b" "get_block_number b = Inr n" using read_decodes [OF assms(1,2)] by blast
  then show ?thesis using assms(3) by (intro exI [of _ b]) (auto simp: send_block_def split: if_splits)
qed

lemma stream_in_order:
  assumes "\<forall>t \<in> set ts. turn_state good t" and "stream_loop rd C req is_finite n ts = (sent, r)"
  shows "numbered n sent"
  using assms
proof (induction ts arbitrary: n sent r)
  case (Cons t ts)
  show ?case
  proof (cases t)
    case ShutdownSignal
    then show ?thesis using Cons.prems by simp
  next
    case (Turn s client_open recvs)
    then have good: "good s" using Cons.prems(1) by simp
    from Cons.prems(2) [unfolded Turn] show ?thesis
    proof (cases rule: stream_loop_turn)
      case waiting
      then show ?thesis by simp
    next
      case (next_turn out m rest)
      have IH: "numbered m rest" using Cons.IH [OF _ next_turn(2)] Cons.prems(1) by simp
      from next_turn(1) show ?thesis
        by (cases rule: process_next_block_cases)
          (use IH next_turn(3) send_block_read [OF good] numbered_Cons in fastforce)+
    next
      case (last_turn res)
      from last_turn(1) show ?thesis by (cases rule: process_next_block_cases) (use last_turn(3) in auto)
    qed
  qed
qed simp

text \<open>A finite stream that ends well has sent every block of the range.\<close>

lemma stream_complete:
  assumes "stream_loop rd C req True n ts = (sent, Some (Inr ()))" and "unat n \<le> unat (req_end req) + 1"
    and "req_end req \<noteq> u64_MAX"
  shows "length sent = unat (req_end req) + 1 - unat n"
  using assms(1,2)
proof (induction ts arbitrary: n sent)
  case (Cons t ts)
  show ?case
  proof (cases t)
    case ShutdownSignal
    then show ?thesis using Cons.prems by simp
  next
    case (Turn s client_open recvs)
    from Cons.prems(1) [unfolded Turn] show ?thesis
    proof (cases rule: stream_loop_turn)
      case (next_turn out m rest)
      from next_turn(1) show ?thesis
      proof (cases rule: process_next_block_cases)
        case (sent bs x)
        have le: "n \<le> req_end req" using sent(1) by simp
        then have "unat (n + 1) = unat n + 1" using u64_succ_unat [OF u64_le_not_max [OF _ assms(3)]] by simp
        with le next_turn sent Cons.IH [of "n + 1" rest] show ?thesis by (simp add: word_le_nat_alt)
      next
        case again
        then show ?thesis using Cons.IH next_turn Cons.prems(2) by simp
      qed simp_all
    next
      case (last_turn res)
      from last_turn(1) show ?thesis
        by (cases rule: process_next_block_cases) (use last_turn in \<open>auto simp: word_less_nat_alt\<close>)
    qed simp
  qed
qed simp

text \<open>A finite stream over contiguous blocks ends well after one turn per block and one more.\<close>

lemma stream_finishes:
  assumes "\<forall>t \<in> set ts. serving rd good (req_end req) t" and "req_end req \<noteq> u64_MAX"
    and "base < n" and "unat n \<le> unat (req_end req) + 1" and "unat (req_end req) + 2 - unat n \<le> length ts"
  shows "\<exists>sent. stream_loop rd C req True n ts = (sent, Some (Inr ()))"
  using assms(1,3-5)
proof (induction ts arbitrary: n)
  case Nil
  then show ?case by simp
next
  case (Cons t ts)
  then obtain s recvs h where t: "t = Turn s True recvs" "good s" "br_highest_contiguous rd s = Inr h" "req_end req \<le> h"
    by (cases t) (auto simp: serving_def)
  show ?case
  proof (cases "n > req_end req")
    case True
    then show ?thesis by (simp add: t(1) process_next_block_def)
  next
    case False
    then have le: "n \<le> req_end req" by simp
    have succ: "unat (n + 1) = Suc (unat n)" "base < n + 1"
      using u64_le_not_max [OF le assms(2)] Cons.prems(2) by (simp_all add: u64_succ_unat word_less_nat_alt)
    obtain bs where bs: "br_read rd s n = Inr (Some bs)"
      using contiguous_read [OF t(2,3) Cons.prems(2)] order_trans [OF le t(4)] by blast
    then obtain x where x: "send_block C True bs = Inr x"
      using read_decodes [OF t(2)] by (fastforce simp: send_block_def)
    have "\<exists>sent. stream_loop rd C req True (n + 1) ts = (sent, Some (Inr ()))"
      using le Cons.prems succ by (intro Cons.IH) (simp_all add: word_le_nat_alt)
    then show ?thesis using False bs x by (auto simp: t(1) process_next_block_def)
  qed
qed

end

section \<open>Properties\<close>

text \<open>
  C9: Subscribers receive blocks in order. Over the persistence service, whatever happens to the store
  between the turns of a session, the sets a subscriber receives are whole blocks with consecutive
  numbers from the start the request was validated to, and a finite stream that ends with success has
  sent exactly the blocks up to the requested end.
\<close>

theorem subscriber_streams_in_order:
  assumes "persist_laws R view invar C" and "\<forall>t \<in> set ts. turn_state (persist_good view invar C pcfg base) t"
    and "validate_and_check_fulfillment (persistence_reader R C) cfg req s = Inr start"
    and "execute_stream (persistence_reader R C) C cfg req s ts = (sent, r)"
  shows "(\<forall>i < length sent. \<exists>b. items b = block_items (sent ! i) \<and> get_block_number b = Inr (start + of_nat i)) \<and>
    (r = Some (Inr ()) \<and> req_end req \<noteq> u64_MAX \<longrightarrow> length sent = unat (req_end req) + 1 - unat start)"
proof -
  note laws = persist_laws.reader_laws [OF assms(1), of pcfg base]
  have run: "stream_loop (persistence_reader R C) C req (req_end req \<noteq> u64_MAX) start ts = (sent, r)"
    using assms(3,4) by (simp add: execute_stream_def)
  have "numbered start sent" using block_reader_laws.stream_in_order [OF laws assms(2) run] .
  moreover have "length sent = unat (req_end req) + 1 - unat start" if "r = Some (Inr ())" "req_end req \<noteq> u64_MAX"
    using block_reader_laws.stream_complete [OF laws, of req start ts sent] run that validate_bounds(2) [OF assms(3) that(2)]
    by (simp add: word_le_nat_alt)
  ultimately show ?thesis by (simp add: numbered_def)
qed

text \<open>
  C19: Finite requests are served to the end. A session whose request lies in the contiguous part of the
  chain, with a client that stays and no shutdown, sends after one turn per block all blocks of the
  range and then the success status, and ends.
\<close>

theorem finite_stream_completes:
  assumes "persist_laws R view invar C"
    and "validate_and_check_fulfillment (persistence_reader R C) cfg req s = Inr start"
    and "req_end req \<noteq> u64_MAX" and "base < start" and "unat (req_end req) + 2 - unat start \<le> length ts"
    and "\<forall>t \<in> set ts. \<exists>t' recvs h. t = Turn t' True recvs \<and> persist_good view invar C pcfg base t' \<and>
      get_highest_contiguous_block_number R t' = Inr h \<and> req_end req \<le> h"
  shows "\<exists>sent. subscriber_run (persistence_reader R C) C cfg req s ts True = (map SubBlockItems sent @ [SubStatus SubSuccess], True) \<and>
    length sent = unat (req_end req) + 1 - unat start"
proof -
  note laws = persist_laws.reader_laws [OF assms(1), of pcfg base]
  have le: "unat start \<le> unat (req_end req) + 1" using validate_bounds(2) [OF assms(2,3)] by (simp add: word_le_nat_alt)
  have "\<forall>t \<in> set ts. serving (persistence_reader R C) (persist_good view invar C pcfg base) (req_end req) t"
    using assms(6) by (fastforce simp: serving_def persistence_reader_def)
  then obtain sent where run: "stream_loop (persistence_reader R C) C req True start ts = (sent, Some (Inr ()))"
    using block_reader_laws.stream_finishes [OF laws _ assms(3,4) le assms(5)] by blast
  have "execute_stream (persistence_reader R C) C cfg req s ts = (sent, Some (Inr ()))"
    using run assms(2,3) by (simp add: execute_stream_def)
  then show ?thesis
    using block_reader_laws.stream_complete [OF laws run le assms(3)]
    by (auto simp: subscriber_run_def finalize_stream_def send_final_status_def)
qed

text \<open>A session that asks for block 1.\<close>

abbreviation example_subscription :: subscribe_request where
  "example_subscription \<equiv> \<lparr>req_start = 1, req_end = 1\<rparr>"

lemma example_subscription_valid:
  assumes "get_latest_persisted_block_number ref_rocksdb s = Inr (Some 1)" "get_earliest_persisted_block_number ref_rocksdb s = Inr (Some 1)"
  shows "validate_and_check_fulfillment (persistence_reader ref_rocksdb ref_codec) default_subscriber_config example_subscription s = Inr 1"
  using assms by (simp add: validate_and_check_fulfillment_def persistence_reader_def default_subscriber_config_def Let_def)

theorem subscriber_streams_in_order_witness:
  "\<exists>s sent r. execute_stream (persistence_reader ref_rocksdb ref_codec) ref_codec default_subscriber_config example_subscription s
      [Turn s True [], Turn s True []] = (sent, r) \<and>
    (\<forall>i < length sent. \<exists>b. items b = block_items (sent ! i) \<and> get_block_number b = Inr (1 + of_nat i)) \<and>
    (r = Some (Inr ()) \<and> req_end example_subscription \<noteq> u64_MAX \<longrightarrow>
       length sent = unat (req_end example_subscription) + 1 - unat (1 :: u64))"
proof -
  obtain s where s: "persist_good ref_view ref_invar ref_codec default_persistence_config 0 s"
    "get_latest_persisted_block_number ref_rocksdb s = Inr (Some 1)" "get_earliest_persisted_block_number ref_rocksdb s = Inr (Some 1)"
    using reader_example by blast
  obtain sent r where run: "execute_stream (persistence_reader ref_rocksdb ref_codec) ref_codec default_subscriber_config example_subscription s
      [Turn s True [], Turn s True []] = (sent, r)" by fastforce
  have turns: "\<forall>t \<in> set [Turn s True [], Turn s True []].
      turn_state (persist_good ref_view ref_invar ref_codec default_persistence_config 0) t" using s(1) by simp
  from subscriber_streams_in_order [of ref_rocksdb ref_view ref_invar, OF refp.persist_laws_axioms turns
      example_subscription_valid [OF s(2,3)] run] run show ?thesis by blast
qed

theorem finite_stream_completes_witness:
  "\<exists>s sent. subscriber_run (persistence_reader ref_rocksdb ref_codec) ref_codec default_subscriber_config example_subscription s
      [Turn s True [], Turn s True []] True = (map SubBlockItems sent @ [SubStatus SubSuccess], True) \<and>
    length sent = unat (req_end example_subscription) + 1 - unat (1 :: u64)"
proof -
  obtain s where s: "persist_good ref_view ref_invar ref_codec default_persistence_config 0 s"
    "get_highest_contiguous_block_number ref_rocksdb s = Inr 1"
    "get_latest_persisted_block_number ref_rocksdb s = Inr (Some 1)" "get_earliest_persisted_block_number ref_rocksdb s = Inr (Some 1)"
    using reader_example by blast
  have "\<exists>sent. subscriber_run (persistence_reader ref_rocksdb ref_codec) ref_codec default_subscriber_config example_subscription s
      [Turn s True [], Turn s True []] True = (map SubBlockItems sent @ [SubStatus SubSuccess], True) \<and>
    length sent = unat (req_end example_subscription) + 1 - unat (1 :: u64)"
    by (rule finite_stream_completes [of ref_rocksdb ref_view ref_invar, OF refp.persist_laws_axioms
          example_subscription_valid [OF s(3,4)], where base = 0 and pcfg = default_persistence_config])
      (use s(1,2) in auto)
  then show ?thesis by blast
qed

abbreviation request_codes :: "sub_code set" where
  "request_codes \<equiv> {SubInvalidStartBlockNumber, SubInvalidEndBlockNumber, SubNotAvailable}"

lemma validation_codes:
  "validate_and_check_fulfillment rd cfg req s = Inl e \<Longrightarrow>
    (\<exists>msg code. e = Validation msg code \<and> code \<in> request_codes) \<or> (\<exists>e'. e = Persistence e')"
  by (auto simp: validate_and_check_fulfillment_def Let_def split: sum.splits option.splits if_splits)

lemma process_next_block_errors:
  "process_next_block rd C req s client_open recvs n is_finite = Some (out, Inl e) \<Longrightarrow> to_status_code e = SubError"
proof -
  have wait: "wait_for_new_block n recvs = Some (Inl e) \<Longrightarrow> to_status_code e = SubError"
    by (induction n recvs rule: wait_for_new_block.induct) (auto split: if_splits)
  show "process_next_block rd C req s client_open recvs n is_finite = Some (out, Inl e) \<Longrightarrow> to_status_code e = SubError"
    by (auto simp: process_next_block_def send_block_def wait split: sum.splits option.splits if_splits)
qed

lemma stream_loop_errors:
  "stream_loop rd C req is_finite n ts = (sent, Some (Inl e)) \<Longrightarrow> to_status_code e = SubError"
proof (induction ts arbitrary: n sent)
  case (Cons t ts)
  show ?case
  proof (cases t)
    case ShutdownSignal
    then show ?thesis using Cons.prems by auto
  next
    case (Turn s client_open recvs)
    from Cons.prems [unfolded Turn] show ?thesis
    proof (cases rule: stream_loop_turn)
      case (last_turn res)
      then show ?thesis using process_next_block_errors by (cases res) auto
    qed (use Cons.IH in auto)
  qed
qed simp

text \<open>
  C34: An ended session reports its outcome once. If the client is still there when the stream has ended,
  the blocks sent are followed by exactly one status: the success status exactly if the stream ended
  well, one of the codes for a bad request exactly if the request was refused as such, and the error
  status otherwise. If the client is gone, or the session has not ended, nothing follows the blocks.
\<close>

theorem session_reports_once:
  "case execute_stream rd C cfg req s ts of (sent, r) \<Rightarrow>
     subscriber_run rd C cfg req s ts client_open =
       (map SubBlockItems sent @
          (if client_open \<and> r \<noteq> None \<and> r \<noteq> Some (Inl ClientDisconnected)
           then [SubStatus (case validate_and_check_fulfillment rd cfg req s of
                   Inl (Validation _ code) \<Rightarrow> code
                 | _ \<Rightarrow> if r = Some (Inr ()) then SubSuccess else SubError)]
           else []),
        r \<noteq> None) \<and>
     (case validate_and_check_fulfillment rd cfg req s of
        Inl (Validation _ code) \<Rightarrow> code \<in> request_codes \<and> sent = []
      | _ \<Rightarrow> True)"
proof (cases "validate_and_check_fulfillment rd cfg req s")
  case (Inl e)
  then show ?thesis
    using validation_codes [OF Inl] by (auto simp: subscriber_run_def execute_stream_def finalize_stream_def send_final_status_def)
next
  case (Inr start)
  obtain sent r where run: "stream_loop rd C req (req_end req \<noteq> u64_MAX) start ts = (sent, r)" by fastforce
  consider (going) "r = None" | (good) "r = Some (Inr ())" | (failed) e where "r = Some (Inl e)"
    by (metis old.sum.exhaust old.unit.exhaust option.exhaust)
  then show ?thesis
  proof cases
    case (failed e)
    then have "to_status_code e = SubError" using run stream_loop_errors by blast
    with run failed Inr show ?thesis
      by (simp add: subscriber_run_def execute_stream_def finalize_stream_def send_final_status_def)
  qed (use run Inr in \<open>simp_all add: subscriber_run_def execute_stream_def finalize_stream_def send_final_status_def\<close>)
qed

text \<open>An empty store: a request for the blocks from 3 to 2 is refused, with and without a client to tell.\<close>

theorem session_reports_once_witness:
  "\<exists>rd :: unit block_reader.
     subscriber_run rd ref_codec default_subscriber_config \<lparr>req_start = 3, req_end = 2\<rparr> () [] True =
       ([SubStatus SubInvalidEndBlockNumber], True) \<and>
     subscriber_run rd ref_codec default_subscriber_config \<lparr>req_start = 3, req_end = 2\<rparr> () [] False = ([], True)"
proof -
  let ?rd = "\<lparr>br_latest = \<lambda>_. Inr None, br_earliest = \<lambda>_. Inr None, br_read = \<lambda>_ _. Inr None,
    br_highest_contiguous = \<lambda>_. Inr 0\<rparr> :: unit block_reader"
  have v: "\<exists>msg. validate_and_check_fulfillment ?rd default_subscriber_config \<lparr>req_start = 3, req_end = 2\<rparr> () =
      Inl (Validation msg SubInvalidEndBlockNumber)"
    by (simp add: validate_and_check_fulfillment_def)
  then have "\<exists>e. execute_stream ?rd ref_codec default_subscriber_config \<lparr>req_start = 3, req_end = 2\<rparr> () [] =
      ([], Some (Inl e)) \<and> e \<noteq> ClientDisconnected"
    by (auto simp: execute_stream_def)
  with v session_reports_once [of ?rd ref_codec default_subscriber_config "\<lparr>req_start = 3, req_end = 2\<rparr>" "()" "[]" True]
    session_reports_once [of ?rd ref_codec default_subscriber_config "\<lparr>req_start = 3, req_end = 2\<rparr>" "()" "[]" False]
  have "subscriber_run ?rd ref_codec default_subscriber_config \<lparr>req_start = 3, req_end = 2\<rparr> () [] True =
       ([SubStatus SubInvalidEndBlockNumber], True) \<and>
     subscriber_run ?rd ref_codec default_subscriber_config \<lparr>req_start = 3, req_end = 2\<rparr> () [] False = ([], True)"
    by auto
  then show ?thesis by blast
qed

text \<open>
  C35: A gap stalls a stream without timeout. While the block a session waits for is missing but newer
  blocks keep being persisted, the session keeps reading and waiting: however many turns pass, it sends
  nothing and never reports the timeout.
\<close>

theorem gap_stalls_stream:
  assumes "\<forall>t \<in> set ts. \<exists>s c m rs. t = Turn s c (RecvPersisted m # rs) \<and> n < m \<and> br_read rd s n = Inr None"
    and "n \<le> req_end req"
  shows "stream_loop rd C req is_finite n ts = ([], None)"
  using assms
proof (induction ts)
  case (Cons t ts)
  then obtain s c m rs where "t = Turn s c (RecvPersisted m # rs)" "n < m" "br_read rd s n = Inr None" by auto
  moreover from this(2) \<open>n \<le> req_end req\<close> have "n \<le> m" "\<not> req_end req < n" by (simp_all add: less_imp_le not_less)
  ultimately show ?case using Cons by (simp add: process_next_block_def)
qed simp

theorem gap_stalls_stream_witness:
  "\<exists>rd :: unit block_reader.
     stream_loop rd ref_codec \<lparr>req_start = 2, req_end = 9\<rparr> True 2 [Turn () True [RecvPersisted 3], Turn () True [RecvPersisted 4]] =
       ([], None)"
  by (rule exI [of _ "\<lparr>br_latest = \<lambda>_. Inr (Some 3), br_earliest = \<lambda>_. Inr (Some 1), br_read = \<lambda>_ _. Inr None,
        br_highest_contiguous = \<lambda>_. Inr 1\<rparr>"], rule gap_stalls_stream) auto

end
