(* ===== verification/Block_Access.thy ===== *)
theory Block_Access
  imports Reader
begin

text \<open>
  The block access plugin (\<^verbatim>\<open>rock-node-block-access-plugin/src/service.rs\<close>) and the server status
  plugin (\<^verbatim>\<open>rock-node-server-status-plugin/src/service.rs\<close>): one request and one response each, over
  the reading interface. The counters and gauges the services keep are part of their state; the
  durations are left out.
\<close>

section \<open>Block access\<close>

datatype response_code = Success | InvalidRequest | NotFound | NotAvailable | Unknown | Error

record block_response =
  response_status :: response_code
  response_block :: "block option"

datatype block_specifier = BlockNumber u64 | RetrieveLatest bool

record access_metrics =
  requests_total :: "string \<times> string \<Rightarrow> nat"
  latest_available_block :: int

fun code_to_string :: "response_code \<Rightarrow> string" where
  "code_to_string Success = ''Success''"
| "code_to_string InvalidRequest = ''InvalidRequest''"
| "code_to_string NotFound = ''NotFound''"
| "code_to_string NotAvailable = ''NotAvailable''"
| "code_to_string Unknown = ''Unknown''"
| "code_to_string Error = ''Error''"

abbreviation failure :: "response_code \<Rightarrow> block_response" where
  "failure code \<equiv> \<lparr>response_status = code, response_block = None\<rparr>"

definition get_latest_block_number :: "'s block_reader \<Rightarrow> 's \<Rightarrow> (block_response, u64) result" where
  "get_latest_block_number rd s =
     (case br_latest rd s of
        Inr (Some num) \<Rightarrow> Inr num
      | Inr None \<Rightarrow> Inl (failure NotFound)
      | Inl _ \<Rightarrow> Inl (failure Unknown))"

definition get_target_block_number ::
    "'s block_reader \<Rightarrow> block_specifier option \<Rightarrow> 's \<Rightarrow> (block_response, u64 \<times> string) result" where
  "get_target_block_number rd spec s =
     (case spec of
        Some (BlockNumber num) \<Rightarrow>
          if num = u64_MAX then map_sum id (\<lambda>n. (n, ''latest'')) (get_latest_block_number rd s)
          else Inr (num, ''by_number'')
      | Some (RetrieveLatest True) \<Rightarrow> map_sum id (\<lambda>n. (n, ''latest'')) (get_latest_block_number rd s)
      | Some (RetrieveLatest False) \<Rightarrow> Inl (failure InvalidRequest)
      | None \<Rightarrow> Inl (failure InvalidRequest))"

definition handle_found_block :: "codec \<Rightarrow> bytes \<Rightarrow> block_response" where
  "handle_found_block C bs =
     (if bs = [] then failure Unknown
      else (case decode_block C bs of
              Inr b \<Rightarrow> \<lparr>response_status = Success, response_block = Some b\<rparr>
            | Inl _ \<Rightarrow> failure Unknown))"

text \<open>A read error counts as an unknown bound.\<close>

definition ok_flatten :: "'a option res \<Rightarrow> 'a option" where
  "ok_flatten r = (case r of Inr v \<Rightarrow> v | Inl _ \<Rightarrow> None)"

definition handle_not_found_block :: "'s block_reader \<Rightarrow> u64 \<Rightarrow> 's \<Rightarrow> block_response" where
  "handle_not_found_block rd n s =
     failure (case (ok_flatten (br_earliest rd s), ok_flatten (br_latest rd s)) of
                (Some e, Some l) \<Rightarrow> if n < e \<or> n > l then NotAvailable else NotFound
              | _ \<Rightarrow> NotFound)"

definition record_metrics :: "block_response \<Rightarrow> string \<Rightarrow> access_metrics \<Rightarrow> block_response \<times> access_metrics" where
  "record_metrics resp request_type m =
     (let label = (code_to_string (response_status resp), request_type);
          m1 = m\<lparr>requests_total := (requests_total m)(label := requests_total m label + 1)\<rparr>;
          m2 = (if response_status resp = Success \<and> request_type = ''latest''
                then (case response_block resp of
                        Some b \<Rightarrow>
                          (case items b of
                             Some (BlockHeader n _) # _ \<Rightarrow> m1\<lparr>latest_available_block := as_i64 n\<rparr>
                           | _ \<Rightarrow> m1)
                      | None \<Rightarrow> m1)
                else m1)
      in (resp, m2))"

definition get_block ::
    "'s block_reader \<Rightarrow> codec \<Rightarrow> block_specifier option \<Rightarrow> 's \<Rightarrow> access_metrics \<Rightarrow> block_response \<times> access_metrics" where
  "get_block rd C spec s m =
     (case get_target_block_number rd spec s of
        Inl resp \<Rightarrow> record_metrics resp ''invalid'' m
      | Inr (n, request_type) \<Rightarrow>
          (case br_read rd s n of
             Inl _ \<Rightarrow> record_metrics (failure Unknown) request_type m
           | Inr (Some bs) \<Rightarrow> record_metrics (handle_found_block C bs) request_type m
           | Inr None \<Rightarrow> record_metrics (handle_not_found_block rd n s) request_type m))"

section \<open>Server status\<close>

record server_status_response =
  first_available_block :: u64
  last_available_block :: u64
  only_latest_state :: bool
  version_information :: "bytes option"

record status_metrics =
  status_requests_total :: nat
  earliest_available_gauge :: int
  latest_available_gauge :: int

text \<open>The text of an internal error is a prefix followed by the error.\<close>

definition server_status ::
    "'s block_reader \<Rightarrow> 's \<Rightarrow> status_metrics \<Rightarrow> (string \<times> error, server_status_response) result \<times> status_metrics" where
  "server_status rd s m =
     (case br_earliest rd s of
        Inl e \<Rightarrow> (Inl (''Database error while fetching earliest block: '', e), m)
      | Inr earliest \<Rightarrow>
     (case br_latest rd s of
        Inl e \<Rightarrow> (Inl (''Database error while fetching latest block: '', e), m)
      | Inr latest \<Rightarrow>
          (let e = (case earliest of Some n \<Rightarrow> n | None \<Rightarrow> 0); l = (case latest of Some n \<Rightarrow> n | None \<Rightarrow> 0)
           in (Inr \<lparr>first_available_block = e, last_available_block = l, only_latest_state = False,
                 version_information = None\<rparr>,
               m\<lparr>status_requests_total := status_requests_total m + 1,
                 earliest_available_gauge := as_i64 e, latest_available_gauge := as_i64 l\<rparr>))))"

section \<open>Responses\<close>

lemma record_metrics_fst [simp]: "fst (record_metrics resp ty m) = resp"
  by (simp add: record_metrics_def Let_def)

lemma get_block_number_request:
  "n \<noteq> u64_MAX \<Longrightarrow> fst (get_block rd C (Some (BlockNumber n)) s m) =
     (case br_read rd s n of
        Inl _ \<Rightarrow> failure Unknown
      | Inr (Some bs) \<Rightarrow> handle_found_block C bs
      | Inr None \<Rightarrow> handle_not_found_block rd n s)"
  by (simp add: get_block_def get_target_block_number_def split: sum.splits option.splits)

lemma latest_requests:
  "fst (get_block rd C (Some (RetrieveLatest True)) s m) =
     (case get_latest_block_number rd s of
        Inl resp \<Rightarrow> resp
      | Inr n \<Rightarrow>
          (case br_read rd s n of
             Inl _ \<Rightarrow> failure Unknown
           | Inr (Some bs) \<Rightarrow> handle_found_block C bs
           | Inr None \<Rightarrow> handle_not_found_block rd n s))"
  by (simp add: get_block_def get_target_block_number_def split: sum.splits option.splits)

context block_reader_laws
begin

lemma found_block:
  assumes "good s" and "br_read rd s n = Inr (Some bs)"
  shows "\<exists>b. handle_found_block C bs = \<lparr>response_status = Success, response_block = Some b\<rparr> \<and> get_block_number b = Inr n"
  using read_decodes [OF assms] by (auto simp: handle_found_block_def)

lemma by_number:
  assumes "good s" and "n \<noteq> u64_MAX"
  shows "case br_read rd s n of
      Inr (Some _) \<Rightarrow>
        \<exists>b. fst (get_block rd C (Some (BlockNumber n)) s m) = \<lparr>response_status = Success, response_block = Some b\<rparr> \<and>
          get_block_number b = Inr n
    | Inr None \<Rightarrow>
        fst (get_block rd C (Some (BlockNumber n)) s m) =
          failure (case (br_earliest rd s, br_latest rd s) of
            (Inr (Some e), Inr (Some l)) \<Rightarrow> if e \<le> n \<and> n \<le> l then NotFound else NotAvailable | _ \<Rightarrow> NotFound)
    | Inl _ \<Rightarrow> False"
proof -
  obtain r where r: "br_read rd s n = Inr r" using read_ok [OF assms(1)] by blast
  show ?thesis
  proof (cases r)
    case None
    obtain e l where "br_earliest rd s = Inr e" "br_latest rd s = Inr l"
      using earliest_ok [OF assms(1)] latest_ok [OF assms(1)] by blast
    then show ?thesis
      using r None by (auto simp: get_block_number_request [OF assms(2)] handle_not_found_block_def ok_flatten_def
          split: option.splits)
  next
    case (Some bs)
    then show ?thesis using r found_block [OF assms(1), of n bs] by (simp add: get_block_number_request [OF assms(2)])
  qed
qed

lemma contiguous_served:
  assumes "good s" and "br_highest_contiguous rd s = Inr h" and "base < n" and "n \<le> h" and "n \<noteq> u64_MAX"
  shows "\<exists>b. fst (get_block rd C (Some (BlockNumber n)) s m) = \<lparr>response_status = Success, response_block = Some b\<rparr> \<and>
    get_block_number b = Inr n"
  using contiguous_read [OF assms(1-4)] by_number [OF assms(1,5), of m] by auto

lemma latest_served:
  assumes "good s" and "br_latest rd s = Inr (Some l)" and "br_highest_contiguous rd s = Inr h" and "base < l" and "l \<le> h"
  shows "\<exists>b. fst (get_block rd C (Some (RetrieveLatest True)) s m) = \<lparr>response_status = Success, response_block = Some b\<rparr> \<and>
    get_block_number b = Inr l"
  using contiguous_read [OF assms(1,3-5)] found_block [OF assms(1)]
  by (auto simp: latest_requests get_latest_block_number_def assms(2))

end

section \<open>Properties\<close>

text \<open>
  C23: A request by number is answered from storage. In every good state of the persistence service no
  request by number fails internally: the answer is the block with that number exactly if storage
  has it; otherwise it tells whether the number lies inside the range of the node. Every block after
  the base and up to the highest contiguous one is served.
\<close>

theorem get_block_by_number:
  assumes "persist_laws R view invar C" and "persist_good view invar C cfg base s" and "n \<noteq> u64_MAX"
    and "get_highest_contiguous_block_number R s = Inr h"
    and "get_block (persistence_reader R C) C (Some (BlockNumber n)) s m = (resp, m')"
  shows "if response_status resp = Success
    then (\<exists>b bs. response_block resp = Some b \<and> get_block_number b = Inr n \<and>
      fst (read_block R C s n) = Inr (Some bs) \<and> decode_block C bs = Inr b)
    else fst (read_block R C s n) = Inr None \<and> \<not> (base < n \<and> n \<le> h) \<and>
      resp = failure (case (get_earliest_persisted_block_number R s, get_latest_persisted_block_number R s) of
        (Inr (Some e), Inr (Some l)) \<Rightarrow> if e \<le> n \<and> n \<le> l then NotFound else NotAvailable | _ \<Rightarrow> NotFound)"
proof -
  let ?rd = "persistence_reader R C"
  note laws = persist_laws.reader_laws [OF assms(1), where cfg = cfg and base = base]
  have resp: "resp = fst (get_block ?rd C (Some (BlockNumber n)) s m)" by (simp add: assms(5))
  have read: "br_read ?rd s n = fst (read_block R C s n)" by (simp add: persistence_reader_def)
  note num = block_reader_laws.by_number [OF laws assms(2,3), of m]
  show ?thesis
  proof (cases "fst (read_block R C s n)")
    case (Inl e)
    then show ?thesis using num by (simp add: read)
  next
    case (Inr r)
    show ?thesis
    proof (cases r)
      case None
      have "\<not> (base < n \<and> n \<le> h)"
        using block_reader_laws.contiguous_read [OF laws assms(2), of h n] assms(4) read Inr None
        by (auto simp: persistence_reader_def)
      then show ?thesis
        using num Inr None
        by (auto simp: read resp persistence_reader_def split: sum.splits option.splits if_splits)
    next
      case (Some bs)
      have r: "br_read ?rd s n = Inr (Some bs)" using Inr Some read by simp
      obtain b where "decode_block C bs = Inr b" "get_block_number b = Inr n" "bs \<noteq> []"
        using block_reader_laws.read_decodes [OF laws assms(2) r] by blast
      then show ?thesis
        using Inr Some by (auto simp: resp get_block_number_request [OF assms(3)] r handle_found_block_def)
    qed
  qed
qed

text \<open>
  C24: The range a server advertises is served. When the store has no gaps, that is, when its highest
  contiguous block is the latest, the status reports that block as the last one, every number after
  the base and up to it is answered with that block, and the request for the latest block is
  answered with exactly the block the status reports.
\<close>

theorem advertised_blocks_served:
  assumes "persist_laws R view invar C" and "persist_good view invar C cfg base s"
    and "get_highest_contiguous_block_number R s = Inr l" and "get_latest_persisted_block_number R s = Inr (Some l)"
    and "base < n" and "n \<le> l" and "l \<noteq> u64_MAX"
  shows "\<exists>resp b b'. fst (server_status (persistence_reader R C) s sm) = Inr resp \<and> last_available_block resp = l \<and>
    fst (get_block (persistence_reader R C) C (Some (BlockNumber n)) s m) =
      \<lparr>response_status = Success, response_block = Some b\<rparr> \<and> get_block_number b = Inr n \<and>
    fst (get_block (persistence_reader R C) C (Some (RetrieveLatest True)) s m) =
      \<lparr>response_status = Success, response_block = Some b'\<rparr> \<and> get_block_number b' = Inr l"
proof -
  let ?rd = "persistence_reader R C"
  note laws = persist_laws.reader_laws [OF assms(1), where cfg = cfg and base = base]
  have ops: "br_highest_contiguous ?rd s = Inr l" "br_latest ?rd s = Inr (Some l)"
    using assms(3,4) by (simp_all add: persistence_reader_def)
  have n: "n \<noteq> u64_MAX" "base < l" using assms(5-7) by (auto simp: word_order.extremum_unique)
  obtain e where "br_earliest ?rd s = Inr e" using block_reader_laws.earliest_ok [OF laws assms(2)] by blast
  then have "\<exists>resp. fst (server_status ?rd s sm) = Inr resp \<and> last_available_block resp = l"
    using ops(2) by (simp add: server_status_def Let_def)
  then show ?thesis
    using block_reader_laws.contiguous_served [OF laws assms(2) ops(1) assms(5,6) n(1), of m]
      block_reader_laws.latest_served [OF laws assms(2) ops(2,1) n(2), of m] by auto
qed

abbreviation no_metrics :: access_metrics where
  "no_metrics \<equiv> \<lparr>requests_total = \<lambda>_. 0, latest_available_block = 0\<rparr>"

abbreviation no_status_metrics :: status_metrics where
  "no_status_metrics \<equiv> \<lparr>status_requests_total = 0, earliest_available_gauge = 0, latest_available_gauge = 0\<rparr>"

theorem get_block_by_number_witness:
  "\<exists>s resp m'. get_block (persistence_reader ref_rocksdb ref_codec) ref_codec (Some (BlockNumber 1)) s no_metrics = (resp, m') \<and>
    response_status resp = Success \<and> (\<exists>b. response_block resp = Some b \<and> get_block_number b = Inr 1)"
proof -
  obtain s where s: "persist_good ref_view ref_invar ref_codec default_persistence_config 0 s"
    "get_highest_contiguous_block_number ref_rocksdb s = Inr 1" using reader_example by blast
  obtain resp m' where r: "get_block (persistence_reader ref_rocksdb ref_codec) ref_codec (Some (BlockNumber 1)) s no_metrics = (resp, m')"
    by fastforce
  from get_block_by_number [of ref_rocksdb ref_view ref_invar, OF refp.persist_laws_axioms s(1) _ s(2) r] r show ?thesis
    by (auto split: if_splits)
qed

theorem advertised_blocks_served_witness:
  "\<exists>s resp b b'. fst (server_status (persistence_reader ref_rocksdb ref_codec) s no_status_metrics) = Inr resp \<and>
      last_available_block resp = 1 \<and>
    fst (get_block (persistence_reader ref_rocksdb ref_codec) ref_codec (Some (BlockNumber 1)) s no_metrics) =
      \<lparr>response_status = Success, response_block = Some b\<rparr> \<and> get_block_number b = Inr 1 \<and>
    fst (get_block (persistence_reader ref_rocksdb ref_codec) ref_codec (Some (RetrieveLatest True)) s no_metrics) =
      \<lparr>response_status = Success, response_block = Some b'\<rparr> \<and> get_block_number b' = Inr 1"
proof -
  obtain s where s: "persist_good ref_view ref_invar ref_codec default_persistence_config 0 s"
    "get_highest_contiguous_block_number ref_rocksdb s = Inr 1" "get_latest_persisted_block_number ref_rocksdb s = Inr (Some 1)"
    using reader_example by blast
  from advertised_blocks_served [of ref_rocksdb ref_view ref_invar, OF refp.persist_laws_axioms s, of 1] show ?thesis
    by (intro exI [of _ s]) simp
qed

end
