(* ===== verification/Backfill.thy ===== *)
theory Backfill
  imports Subscriber Block_Access
begin

text \<open>
  The backfill plugin (\<^verbatim>\<open>rock-node-backfill-plugin\<close>): finding gaps, asking peers for their range,
  streaming blocks from a peer into storage, the retries of both modes (\<^verbatim>\<open>worker.rs\<close>), the streams
  for external users, and the start of the plugin (\<^verbatim>\<open>lib.rs\<close>). What a peer answers is an input: a
  function of the peer and of the number of calls made so far. A stream that stays open and a loop
  that never ends give None. Delays between retries are left out.
\<close>

section \<open>Peers\<close>

definition PEER_RETRY_LIMIT :: nat where
  "PEER_RETRY_LIMIT = 3"

definition MAX_PEER_CONNECTION_ATTEMPTS :: nat where
  "MAX_PEER_CONNECTION_ATTEMPTS = 5"

text \<open>
  A message of a stream is an error status or a response, which may be empty. The flag of a stream
  says whether the peer has closed it. What a peer streams depends on the requested range.
\<close>

type_synonym stream_item = "(string, subscribe_response option) result"

datatype status_reply =
    StatusBadUri error
  | StatusUnreachable
  | StatusRefused
  | StatusReply server_status_response

datatype stream_reply =
    StreamFailed error
  | Streaming "stream_item list" bool

record peer_reply =
  on_status :: status_reply
  on_stream :: "u64 \<Rightarrow> u64 \<Rightarrow> stream_reply"

type_synonym network = "string \<Rightarrow> nat \<Rightarrow> peer_reply"

fun get_peer_status :: "status_reply \<Rightarrow> server_status_response option res" where
  "get_peer_status (StatusBadUri e) = Inl e"
| "get_peer_status StatusUnreachable = Inr None"
| "get_peer_status StatusRefused = Inr None"
| "get_peer_status (StatusReply r) = Inr (Some r)"

section \<open>Worker\<close>

record ('s, 'db) backfill_worker =
  bf_config :: config
  bf_reader :: "'s block_reader"
  bf_writer :: "'s block_writer"
  bf_db :: "'s \<Rightarrow> 'db"

definition backfill_new ::
    "config \<Rightarrow> 's block_reader option \<Rightarrow> 's block_writer option \<Rightarrow> ('s \<Rightarrow> 'db) option \<Rightarrow> ('s, 'db) backfill_worker res" where
  "backfill_new conf reader writer db_manager =
     (case reader of None \<Rightarrow> Inl (Other ''BackfillPlugin requires BlockReaderProvider'') | Some rd \<Rightarrow>
      case writer of None \<Rightarrow> Inl (Other ''BackfillPlugin requires BlockWriterProvider'') | Some wr \<Rightarrow>
      case db_manager of None \<Rightarrow> Inl (Other ''BackfillPlugin requires DatabaseManagerProvider'') | Some db \<Rightarrow>
      Inr \<lparr>bf_config = conf, bf_reader = rd, bf_writer = wr, bf_db = db\<rparr>)"

text \<open>The store and the counters of the worker.\<close>

record 's backfill_state =
  bs_store :: 's
  blocks_fetched_total :: "backfill_mode \<Rightarrow> nat"
  latest_continuous_block :: int
  gaps_found_total :: nat

definition get_block_number_from_block :: "block \<Rightarrow> u64 option" where
  "get_block_number_from_block b =
     (case items b of Some (BlockHeader n _) # _ \<Rightarrow> Some n | _ \<Rightarrow> None)"

definition count_block :: "backfill_mode \<Rightarrow> block \<Rightarrow> 's backfill_state \<Rightarrow> 's backfill_state" where
  "count_block md b bs =
     (case get_block_number_from_block b of
        None \<Rightarrow> bs
      | Some n \<Rightarrow>
          (let bs1 = bs\<lparr>blocks_fetched_total := (blocks_fetched_total bs)(md := blocks_fetched_total bs md + 1)\<rparr>
           in if md = Continuous then bs1\<lparr>latest_continuous_block := as_i64 n\<rparr> else bs1))"

fun receive_blocks ::
    "'s block_writer \<Rightarrow> backfill_mode \<Rightarrow> stream_item list \<Rightarrow> bool \<Rightarrow> 's backfill_state \<Rightarrow>
     (unit res \<times> 's backfill_state) option" where
  "receive_blocks wr md [] closed bs = (if closed then Some (Inr (), bs) else None)"
| "receive_blocks wr md (Inl status # ms) closed bs = Some (Inl (Other (''gRPC stream error: '' @ status)), bs)"
| "receive_blocks wr md (Inr (Some (SubBlockItems item_set)) # ms) closed bs =
     (let b = \<lparr>items = block_items item_set\<rparr>; bs1 = count_block md b bs in
      case bw_write wr b (bs_store bs1) of
        None \<Rightarrow> None
      | Some (Inl e, s') \<Rightarrow> Some (Inl e, bs1\<lparr>bs_store := s'\<rparr>)
      | Some (Inr _, s') \<Rightarrow> receive_blocks wr md ms closed (bs1\<lparr>bs_store := s'\<rparr>))"
| "receive_blocks wr md (Inr (Some (SubStatus _)) # ms) closed bs = receive_blocks wr md ms closed bs"
| "receive_blocks wr md (Inr None # ms) closed bs = receive_blocks wr md ms closed bs"

definition stream_from_peer ::
    "'s block_writer \<Rightarrow> backfill_mode \<Rightarrow> peer_reply \<Rightarrow> u64 \<Rightarrow> u64 \<Rightarrow> 's backfill_state \<Rightarrow>
     (unit res \<times> 's backfill_state) option" where
  "stream_from_peer wr md reply start end bs =
     (case on_stream reply start end of
        StreamFailed e \<Rightarrow> Some (Inl e, bs)
      | Streaming ms closed \<Rightarrow> receive_blocks wr md ms closed bs)"

section \<open>Gap filling\<close>

fun parse_gaps :: "(bytes \<times> bytes) res list \<Rightarrow> (u64 \<times> u64) list res" where
  "parse_gaps [] = Inr []"
| "parse_gaps (Inl e # xs) = Inl e"
| "parse_gaps (Inr (k, v) # xs) =
     and_then (parse_u64 k) (\<lambda>start.
     and_then (parse_u64 v) (\<lambda>end.
     and_then (parse_gaps xs) (\<lambda>gaps.
     Inr ((start, end) # gaps))))"

definition get_all_gaps :: "'db rocksdb \<Rightarrow> 'db \<Rightarrow> (u64 \<times> u64) list res" where
  "get_all_gaps R db =
     and_then (require_cf R db CF_GAPS) (\<lambda>_. parse_gaps (iterator_cf R db CF_GAPS IterStart))"

datatype peer_outcome = NextPeer | GapFilled

text \<open>
  The attempts at one peer for one gap, with the number of calls made so far: a peer that does not
  have the range or does not answer is left at once, an error is retried three times.
\<close>

function gap_attempts ::
    "network \<Rightarrow> 's block_writer \<Rightarrow> string \<Rightarrow> u64 \<Rightarrow> u64 \<Rightarrow> nat \<Rightarrow> nat \<Rightarrow> 's backfill_state \<Rightarrow>
     (peer_outcome \<times> nat \<times> 's backfill_state) option" where
  "gap_attempts net wr peer effective_start end retries k bs =
     (case get_peer_status (on_status (net peer k)) of
        Inr (Some status) \<Rightarrow>
          if first_available_block status > effective_start \<or> last_available_block status < end
          then Some (NextPeer, Suc k, bs)
          else (case stream_from_peer wr GapFill (net peer k) effective_start end bs of
                  None \<Rightarrow> None
                | Some (Inl _, bs') \<Rightarrow>
                    if retries + 1 > PEER_RETRY_LIMIT then Some (NextPeer, Suc k, bs')
                    else gap_attempts net wr peer effective_start end (retries + 1) (Suc k) bs'
                | Some (Inr _, bs') \<Rightarrow> Some (GapFilled, Suc k, bs'))
      | Inr None \<Rightarrow> Some (NextPeer, Suc k, bs)
      | Inl _ \<Rightarrow>
          if retries + 1 > PEER_RETRY_LIMIT then Some (NextPeer, Suc k, bs)
          else gap_attempts net wr peer effective_start end (retries + 1) (Suc k) bs)"
  by pat_completeness auto
termination
  by (relation "measure (\<lambda>(_, _, _, _, _, retries, _, _). PEER_RETRY_LIMIT + 1 - retries)") auto

declare gap_attempts.simps [simp del]

fun gap_peers ::
    "network \<Rightarrow> 's block_writer \<Rightarrow> u64 \<Rightarrow> u64 \<Rightarrow> string list \<Rightarrow> nat \<Rightarrow> 's backfill_state \<Rightarrow> (nat \<times> 's backfill_state) option" where
  "gap_peers net wr effective_start end [] k bs = Some (k, bs)"
| "gap_peers net wr effective_start end (peer # ps) k bs =
     (case gap_attempts net wr peer effective_start end 0 k bs of
        None \<Rightarrow> None
      | Some (GapFilled, k', bs') \<Rightarrow> Some (k', bs')
      | Some (NextPeer, k', bs') \<Rightarrow> gap_peers net wr effective_start end ps k' bs')"

fun fill_gaps ::
    "network \<Rightarrow> 's block_writer \<Rightarrow> u64 \<Rightarrow> string list \<Rightarrow> (u64 \<times> u64) list \<Rightarrow> nat \<Rightarrow> 's backfill_state \<Rightarrow>
     (nat \<times> 's backfill_state) option" where
  "fill_gaps net wr start_num ps [] k bs = Some (k, bs)"
| "fill_gaps net wr start_num ps ((start, end) # gaps) k bs =
     (let effective_start = max start start_num in
      if effective_start > end then fill_gaps net wr start_num ps gaps k bs
      else (case gap_peers net wr effective_start end ps k bs of
              None \<Rightarrow> None
            | Some (k', bs') \<Rightarrow> fill_gaps net wr start_num ps gaps k' bs'))"

definition run_single_gap_check ::
    "'db rocksdb \<Rightarrow> network \<Rightarrow> ('s, 'db) backfill_worker \<Rightarrow> string list \<Rightarrow> nat \<Rightarrow> 's backfill_state \<Rightarrow>
     (unit res \<times> nat \<times> 's backfill_state) option" where
  "run_single_gap_check R net w shuffled_peers k bs =
     (case get_all_gaps R (bf_db w (bs_store bs)) of
        Inl e \<Rightarrow> Some (Inl e, k, bs)
      | Inr gaps \<Rightarrow>
          if gaps = [] then Some (Inr (), k, bs)
          else map_option (\<lambda>(k', bs'). (Inr (), k', bs'))
                 (fill_gaps net (bf_writer w) (start_block_number (core (bf_config w))) shuffled_peers gaps k
                   (bs\<lparr>gaps_found_total := gaps_found_total bs + length gaps\<rparr>)))"

text \<open>
  The loop: at every tick the peers are in some order and others may have changed the store. An error
  of a check is logged and the loop goes on. A shutdown is taken between two checks.
\<close>

datatype 's backfill_input = BackfillShutdown | Tick "string list" "'s \<Rightarrow> 's"

fun run_gap_fill_loop ::
    "'db rocksdb \<Rightarrow> network \<Rightarrow> ('s, 'db) backfill_worker \<Rightarrow> 's backfill_input list \<Rightarrow> nat \<Rightarrow> 's backfill_state \<Rightarrow>
     (nat \<times> 's backfill_state) option" where
  "run_gap_fill_loop R net w [] k bs = Some (k, bs)"
| "run_gap_fill_loop R net w (BackfillShutdown # xs) k bs = Some (k, bs)"
| "run_gap_fill_loop R net w (Tick shuffled_peers others # xs) k bs =
     (case run_single_gap_check R net w shuffled_peers k (bs\<lparr>bs_store := others (bs_store bs)\<rparr>) of
        None \<Rightarrow> None
      | Some (_, k', bs') \<Rightarrow> run_gap_fill_loop R net w xs k' bs')"

section \<open>Continuous streaming\<close>

definition local_latest_block :: "'s block_reader \<Rightarrow> 's \<Rightarrow> i64" where
  "local_latest_block rd s =
     (case br_latest rd s of Inr (Some num) \<Rightarrow> as_i64 num | Inr None \<Rightarrow> -1 | Inl _ \<Rightarrow> -1)"

text \<open>Addition of 64-bit signed integers.\<close>

definition i64_succ :: "i64 \<Rightarrow> i64" where
  "i64_succ i = as_i64 (as_u64 (i + 1))"

text \<open>
  The attempts at one peer, and whether a stream ended gracefully. A peer that has not produced the
  next block yet is asked again without limit.
\<close>

partial_function (option) continuous_attempts ::
    "network \<Rightarrow> 's block_writer \<Rightarrow> string \<Rightarrow> i64 \<Rightarrow> nat \<Rightarrow> nat \<Rightarrow> 's backfill_state \<Rightarrow>
     (bool \<times> nat \<times> 's backfill_state) option" where
  "continuous_attempts net wr peer local_latest retries k bs =
     (case get_peer_status (on_status (net peer k)) of
        Inr (Some status) \<Rightarrow>
          (let peer_latest = as_i64 (last_available_block status); start_from = i64_succ local_latest in
           if peer_latest < local_latest then Some (False, Suc k, bs)
           else if start_from > peer_latest \<and> start_from > 0
           then continuous_attempts net wr peer local_latest retries (Suc k) bs
           else (case stream_from_peer wr Continuous (net peer k) (as_u64 start_from) u64_MAX bs of
                   None \<Rightarrow> None
                 | Some (Inr _, bs') \<Rightarrow> Some (True, Suc k, bs')
                 | Some (Inl _, bs') \<Rightarrow>
                     if retries + 1 > PEER_RETRY_LIMIT then Some (False, Suc k, bs')
                     else continuous_attempts net wr peer local_latest (retries + 1) (Suc k) bs'))
      | Inr None \<Rightarrow> Some (False, Suc k, bs)
      | Inl _ \<Rightarrow>
          if retries + 1 > PEER_RETRY_LIMIT then Some (False, Suc k, bs)
          else continuous_attempts net wr peer local_latest (retries + 1) (Suc k) bs)"

fun run_continuous_stream_cycle ::
    "network \<Rightarrow> ('s, 'db) backfill_worker \<Rightarrow> string list \<Rightarrow> nat \<Rightarrow> 's backfill_state \<Rightarrow> (nat \<times> 's backfill_state) option" where
  "run_continuous_stream_cycle net w [] k bs = Some (k, bs)"
| "run_continuous_stream_cycle net w (peer # ps) k bs =
     (case continuous_attempts net (bf_writer w) peer (local_latest_block (bf_reader w) (bs_store bs)) 0 k bs of
        None \<Rightarrow> None
      | Some (True, k', bs') \<Rightarrow> Some (k', bs')
      | Some (False, k', bs') \<Rightarrow> run_continuous_stream_cycle net w ps k' bs')"

text \<open>
  A shutdown ends the loop, and cancels a cycle that is running. What a cancelled cycle has done is what it
  does with the answers cut off: the call of the cancellation delivers the messages received so far, and
  no later call is answered.
\<close>

definition cut_network :: "nat \<Rightarrow> nat \<Rightarrow> network \<Rightarrow> network" where
  "cut_network last_call messages net = (\<lambda>peer k.
     if k < last_call then net peer k
     else if k = last_call
     then (net peer k)\<lparr>on_stream := \<lambda>a b.
       (case on_stream (net peer k) a b of
          StreamFailed e \<Rightarrow> StreamFailed e
        | Streaming ms closed \<Rightarrow> Streaming (take messages ms) True)\<rparr>
     else (net peer k)\<lparr>on_status := StatusUnreachable\<rparr>)"

datatype 's continuous_input =
    ContinuousShutdown
  | Cycle "string list" "'s \<Rightarrow> 's"
  | CancelledCycle "string list" "'s \<Rightarrow> 's" nat nat

fun run_continuous_loop ::
    "network \<Rightarrow> ('s, 'db) backfill_worker \<Rightarrow> 's continuous_input list \<Rightarrow> nat \<Rightarrow> 's backfill_state \<Rightarrow>
     (nat \<times> 's backfill_state) option" where
  "run_continuous_loop net w [] k bs = Some (k, bs)"
| "run_continuous_loop net w (ContinuousShutdown # xs) k bs = Some (k, bs)"
| "run_continuous_loop net w (CancelledCycle shuffled_peers others last_call messages # xs) k bs =
     run_continuous_stream_cycle (cut_network last_call messages net) w shuffled_peers k (bs\<lparr>bs_store := others (bs_store bs)\<rparr>)"
| "run_continuous_loop net w (Cycle shuffled_peers others # xs) k bs =
     (case run_continuous_stream_cycle net w shuffled_peers k (bs\<lparr>bs_store := others (bs_store bs)\<rparr>) of
        None \<Rightarrow> None
      | Some (k', bs') \<Rightarrow> run_continuous_loop net w xs k' bs')"

section \<open>Streams for external users\<close>

text \<open>The blocks a stream passes on, up to its first error.\<close>

fun forward_stream :: "stream_item list \<Rightarrow> (string, block) result list" where
  "forward_stream [] = []"
| "forward_stream (Inr (Some (SubBlockItems item_set)) # ms) = Inr \<lparr>items = block_items item_set\<rparr> # forward_stream ms"
| "forward_stream (Inr _ # ms) = forward_stream ms"
| "forward_stream (Inl status # ms) = [Inl status]"

definition peer_latest_block :: "status_reply \<Rightarrow> u64 res" where
  "peer_latest_block reply =
     (case reply of
        StatusBadUri e \<Rightarrow> Inl e
      | StatusUnreachable \<Rightarrow> Inl (Other ''transport error'')
      | StatusRefused \<Rightarrow> Inl (Other ''status error'')
      | StatusReply r \<Rightarrow> Inr (last_available_block r))"

definition try_connect_and_stream ::
    "peer_reply \<Rightarrow> u64 option \<Rightarrow> u64 option \<Rightarrow> (string, block) result list option res" where
  "try_connect_and_stream reply start_block_opt end_block_opt =
     and_then (peer_latest_block (on_status reply)) (\<lambda>peer_latest.
     let start_block = (case start_block_opt of Some n \<Rightarrow> n | None \<Rightarrow> peer_latest);
         end_block = (case end_block_opt of Some n \<Rightarrow> n | None \<Rightarrow> u64_MAX) in
     if start_block > end_block
     then Inl (Other (''Start block '' @ show_u64 start_block @ '' is after end block '' @ show_u64 end_block))
     else if \<not> (start_block > peer_latest \<and> end_block = u64_MAX) \<and> start_block > peer_latest then Inr None
     else (case on_stream reply start_block end_block of
             StreamFailed e \<Rightarrow> Inl e
           | Streaming ms _ \<Rightarrow> Inr (Some (forward_stream ms))))"

function connect_attempts ::
    "network \<Rightarrow> u64 option \<Rightarrow> u64 option \<Rightarrow> string \<Rightarrow> nat \<Rightarrow> nat \<Rightarrow> (string, block) result list option \<times> nat" where
  "connect_attempts net from_block upto_block peer retries k =
     (case try_connect_and_stream (net peer k) from_block upto_block of
        Inr (Some stream) \<Rightarrow> (Some stream, Suc k)
      | Inr None \<Rightarrow> (None, Suc k)
      | Inl _ \<Rightarrow>
          if retries \<ge> PEER_RETRY_LIMIT then (None, Suc k)
          else connect_attempts net from_block upto_block peer (retries + 1) (Suc k))"
  by pat_completeness auto
termination
  by (relation "measure (\<lambda>(_, _, _, _, retries, _). PEER_RETRY_LIMIT - retries)") auto

declare connect_attempts.simps [simp del]

fun connect_peers ::
    "network \<Rightarrow> u64 option \<Rightarrow> u64 option \<Rightarrow> string list \<Rightarrow> nat \<Rightarrow> (string, block) result list option \<times> nat" where
  "connect_peers net from_block upto_block [] k = (None, k)"
| "connect_peers net from_block upto_block (peer # ps) k =
     (case connect_attempts net from_block upto_block peer 0 k of
        (Some stream, k') \<Rightarrow> (Some stream, k')
      | (None, k') \<Rightarrow> connect_peers net from_block upto_block ps k')"

text \<open>The peers are shuffled before each of the rounds; the orders are an input.\<close>

fun connect_rounds ::
    "network \<Rightarrow> (nat \<Rightarrow> string list) \<Rightarrow> u64 option \<Rightarrow> u64 option \<Rightarrow> nat \<Rightarrow> nat \<Rightarrow> nat \<Rightarrow>
     (string, block) result list res \<times> nat" where
  "connect_rounds net order from_block upto_block 0 i k =
     (Inl (Other ''Failed to connect to any peer after 5 attempts.''), k)"
| "connect_rounds net order from_block upto_block (Suc left) i k =
     (case connect_peers net from_block upto_block (order i) k of
        (Some stream, k') \<Rightarrow> (Inr stream, k')
      | (None, k') \<Rightarrow> connect_rounds net order from_block upto_block left (Suc i) k')"

definition stream_blocks_from_peers ::
    "network \<Rightarrow> (nat \<Rightarrow> string list) \<Rightarrow> u64 option \<Rightarrow> u64 option \<Rightarrow> (string, block) result list res \<times> nat" where
  "stream_blocks_from_peers net order from_block upto_block =
     connect_rounds net order from_block upto_block MAX_PEER_CONNECTION_ATTEMPTS 0 0"

section \<open>Receiving from a peer\<close>

abbreviation set_block :: "block_item_set \<Rightarrow> block" where
  "set_block x \<equiv> \<lparr>items = block_items x\<rparr>"

abbreviation block_msgs :: "block_item_set list \<Rightarrow> stream_item list" where
  "block_msgs sent \<equiv> map (\<lambda>x. Inr (Some (SubBlockItems x))) sent"

lemma count_block_store [simp]: "bs_store (count_block md b bs) = bs_store bs"
  by (simp add: count_block_def Let_def split: option.splits)

text \<open>A peer that has the range and streams it to the end, as whole blocks that storage accepts.\<close>

definition delivers :: "peer_reply \<Rightarrow> (block \<Rightarrow> bool) \<Rightarrow> u64 \<Rightarrow> u64 \<Rightarrow> bool" where
  "delivers reply fit a b \<longleftrightarrow>
     (\<exists>r sent code. on_status reply = StatusReply r \<and> first_available_block r \<le> a \<and> b \<le> last_available_block r \<and>
        on_stream reply a b = Streaming (block_msgs sent @ [Inr (Some (SubStatus code))]) True \<and>
        numbered a sent \<and> length sent = unat b + 1 - unat a \<and> (\<forall>x \<in> set sent. fit (set_block x)))"

lemma delivers_mono:
  "delivers reply fit a b \<Longrightarrow> (\<And>x. fit x \<Longrightarrow> fit' x) \<Longrightarrow> delivers reply fit' a b"
  unfolding delivers_def by blast

lemma numbered_ConsD:
  assumes "numbered n (x # xs)"
  shows "get_block_number (set_block x) = Inr n" "numbered (n + 1) xs"
proof -
  obtain b where b: "items b = block_items x" "get_block_number b = Inr n" using assms unfolding numbered_def by force
  have "b = set_block x" using b(1) by simp
  with b(2) show "get_block_number (set_block x) = Inr n" by simp
  show "numbered (n + 1) xs" unfolding numbered_def
  proof (intro allI impI)
    fix i assume "i < length xs"
    then have "\<exists>b. items b = block_items ((x # xs) ! Suc i) \<and> get_block_number b = Inr (n + of_nat (Suc i))"
      using assms unfolding numbered_def by (metis length_Cons Suc_less_eq)
    then show "\<exists>b. items b = block_items (xs ! i) \<and> get_block_number b = Inr (n + 1 + of_nat i)" by (simp add: add.assoc)
  qed
qed

context block_store_laws
begin

definition readable :: "'s \<Rightarrow> u64 \<Rightarrow> bool" where
  "readable s n \<longleftrightarrow> (\<exists>bs. br_read rd s n = Inr (Some bs))"

definition extends :: "'s \<Rightarrow> 's \<Rightarrow> bool" where
  "extends s s' \<longleftrightarrow> good s' \<and> (\<forall>n. readable s n \<longrightarrow> readable s' n) \<and> (\<forall>b. fits s b \<longrightarrow> fits s' b)"

lemma extends_refl: "good s \<Longrightarrow> extends s s"
  by (simp add: extends_def)

lemma extends_trans: "extends s s' \<Longrightarrow> extends s' s'' \<Longrightarrow> extends s s''"
  by (simp add: extends_def)

lemma write_extends:
  assumes "good s" "fits s b" "get_block_number b = Inr n"
  obtains s' where "bw_write wr b s = Some (Inr (), s')" "extends s s'" "readable s' n"
proof -
  obtain s' where s': "bw_write wr b s = Some (Inr (), s')" "good s'" "\<exists>bs. br_read rd s' n = Inr (Some bs)"
    "\<forall>m. m \<noteq> n \<longrightarrow> br_read rd s' m = br_read rd s m" "\<forall>b'. fits s b' \<longrightarrow> fits s' b'"
    using write_new [OF assms] by blast
  then have "extends s s'" unfolding extends_def readable_def by metis
  with s' that show thesis by (auto simp: readable_def)
qed

lemma receive_all:
  assumes "good (bs_store bs)" and "numbered n sent" and "\<forall>x \<in> set sent. fits (bs_store bs) (set_block x)"
  shows "\<exists>bs'. receive_blocks wr md (block_msgs sent @ rest) closed bs = receive_blocks wr md rest closed bs' \<and>
    extends (bs_store bs) (bs_store bs') \<and> (\<forall>i < length sent. readable (bs_store bs') (n + of_nat i))"
  using assms
proof (induction sent arbitrary: n bs)
  case Nil
  then show ?case by (auto intro: extends_refl)
next
  case (Cons x sent)
  have num: "get_block_number (set_block x) = Inr n" and tl: "numbered (n + 1) sent"
    using Cons.prems(2) numbered_ConsD by blast+
  obtain s' where w: "bw_write wr (set_block x) (bs_store bs) = Some (Inr (), s')" "extends (bs_store bs) s'" "readable s' n"
    using write_extends [OF Cons.prems(1) _ num] Cons.prems(3) by auto
  let ?bs = "(count_block md (set_block x) bs)\<lparr>bs_store := s'\<rparr>"
  have "\<exists>bs'. receive_blocks wr md (block_msgs sent @ rest) closed ?bs = receive_blocks wr md rest closed bs' \<and>
    extends s' (bs_store bs') \<and> (\<forall>i < length sent. readable (bs_store bs') (n + 1 + of_nat i))"
    using Cons.IH [of ?bs "n + 1", OF _ tl] w(2) Cons.prems(3) by (simp add: extends_def)
  then obtain bs' where bs': "receive_blocks wr md (block_msgs sent @ rest) closed ?bs = receive_blocks wr md rest closed bs'"
    "extends s' (bs_store bs')" "\<forall>i < length sent. readable (bs_store bs') (n + 1 + of_nat i)" by blast
  have "readable (bs_store bs') (n + of_nat i)" if "i < length (x # sent)" for i
    using that bs'(2,3) w(3) by (cases i) (auto simp: extends_def add.assoc)
  with bs' w extends_trans [OF w(2) bs'(2)] show ?case by (auto simp: Let_def)
qed

lemma delivers_fills:
  assumes "good (bs_store bs)" and "delivers (net peer k) (fits (bs_store bs)) a b" and "a \<le> b"
  shows "\<exists>bs'. gap_attempts net wr peer a b retries k bs = Some (GapFilled, Suc k, bs') \<and>
    extends (bs_store bs) (bs_store bs') \<and> (\<forall>n. a \<le> n \<and> n \<le> b \<longrightarrow> readable (bs_store bs') n)"
proof -
  obtain r sent code where d: "on_status (net peer k) = StatusReply r" "first_available_block r \<le> a" "b \<le> last_available_block r"
    "on_stream (net peer k) a b = Streaming (block_msgs sent @ [Inr (Some (SubStatus code))]) True"
    "numbered a sent" "length sent = unat b + 1 - unat a" "\<forall>x \<in> set sent. fits (bs_store bs) (set_block x)"
    using assms(2) by (auto simp: delivers_def)
  obtain bs' where bs': "receive_blocks wr GapFill (block_msgs sent @ [Inr (Some (SubStatus code))]) True bs = Some (Inr (), bs')"
    "extends (bs_store bs) (bs_store bs')" "\<forall>i < length sent. readable (bs_store bs') (a + of_nat i)"
    using receive_all [OF assms(1) d(5,7), of GapFill "[Inr (Some (SubStatus code))]" True] by auto
  have "readable (bs_store bs') n" if n: "a \<le> n" "n \<le> b" for n
  proof -
    have "unat n - unat a < length sent" using n d(6) by (auto simp: word_le_nat_alt)
    moreover have "a + of_nat (unat n - unat a) = n" using n(1) by (simp add: word_le_nat_alt of_nat_diff)
    ultimately show ?thesis using bs'(3) by metis
  qed
  with bs' d(1-4) show ?thesis
    by (subst gap_attempts.simps) (simp add: stream_from_peer_def not_less)
qed

lemma fill_all:
  assumes "good (bs_store bs)"
    and "\<forall>(a, b) \<in> set gaps. max a start \<le> b \<longrightarrow> (\<forall>k. delivers (net peer k) (fits (bs_store bs)) (max a start) b)"
  shows "\<exists>k' bs'. fill_gaps net wr start (peer # others) gaps k bs = Some (k', bs') \<and> extends (bs_store bs) (bs_store bs') \<and>
    (\<forall>(a, b) \<in> set gaps. \<forall>n. max a start \<le> n \<and> n \<le> b \<longrightarrow> readable (bs_store bs') n)"
  using assms
proof (induction gaps arbitrary: k bs)
  case Nil
  then show ?case by (auto intro: extends_refl)
next
  case (Cons g gaps)
  obtain a b where g: "g = (a, b)" by fastforce
  show ?case
  proof (cases "max a start \<le> b")
    case False
    have "\<exists>k' bs'. fill_gaps net wr start (peer # others) gaps k bs = Some (k', bs') \<and> extends (bs_store bs) (bs_store bs') \<and>
      (\<forall>(a, b) \<in> set gaps. \<forall>n. max a start \<le> n \<and> n \<le> b \<longrightarrow> readable (bs_store bs') n)"
      by (rule Cons.IH [OF Cons.prems(1)]) (use Cons.prems(2) in simp)
    moreover have "\<not> (max a start \<le> n \<and> n \<le> b)" for n using False order_trans by blast
    ultimately show ?thesis using False by (simp only: g fill_gaps.simps Let_def not_le set_simps ball_simps if_True prod.case) blast
  next
    case True
    obtain bs1 where bs1: "gap_attempts net wr peer (max a start) b 0 k bs = Some (GapFilled, Suc k, bs1)"
      "extends (bs_store bs) (bs_store bs1)" "\<forall>n. max a start \<le> n \<and> n \<le> b \<longrightarrow> readable (bs_store bs1) n"
      using delivers_fills [OF Cons.prems(1) _ True, of net peer k 0] Cons.prems(2) True by (auto simp: g)
    have "\<forall>(a, b) \<in> set gaps. max a start \<le> b \<longrightarrow> (\<forall>k. delivers (net peer k) (fits (bs_store bs1)) (max a start) b)"
    proof (intro ballI case_prodI2 impI allI)
      fix p a b k assume p: "p \<in> set gaps" "p = (a, b)" "max a start \<le> b"
      then have "delivers (net peer k) (fits (bs_store bs)) (max a start) b" using Cons.prems(2) by fastforce
      then show "delivers (net peer k) (fits (bs_store bs1)) (max a start) b"
        by (rule delivers_mono) (use bs1(2) in \<open>simp add: extends_def\<close>)
    qed
    then obtain k' bs' where r: "fill_gaps net wr start (peer # others) gaps (Suc k) bs1 = Some (k', bs')"
      "extends (bs_store bs1) (bs_store bs')"
      "\<forall>(a, b) \<in> set gaps. \<forall>n. max a start \<le> n \<and> n \<le> b \<longrightarrow> readable (bs_store bs') n"
      using Cons.IH [of bs1 "Suc k"] bs1(2) by (auto simp: extends_def)
    have "\<forall>n. max a start \<le> n \<and> n \<le> b \<longrightarrow> readable (bs_store bs') n" using bs1(3) r(2) by (simp add: extends_def)
    moreover have "\<not> max a start > b" using True leD by blast
    ultimately show ?thesis using r bs1 extends_trans [OF bs1(2) r(2)] by (simp add: g Let_def del: max.bounded_iff)
  qed
qed

end

section \<open>Finding the gaps\<close>

lemma parse_gaps_ok:
  assumes "\<forall>(x, y) \<in> set xs. \<exists>a b. x = u64_to_be a \<and> y = u64_to_be b"
  shows "\<exists>gs. parse_gaps (map Inr xs) = Inr gs \<and> set gs = {(a, b). (u64_to_be a, u64_to_be b) \<in> set xs}"
  using assms
proof (induction xs)
  case (Cons p xs)
  then obtain a b gs where "p = (u64_to_be a, u64_to_be b)" "parse_gaps (map Inr xs) = Inr gs"
    "set gs = {(a, b). (u64_to_be a, u64_to_be b) \<in> set xs}" by auto
  then show ?case by (auto simp: parse_u64_def res_simps)
qed simp

context rocksdb_laws
begin

lemma get_all_gaps_eq:
  assumes "invar db" and "gaps_ok (view db)"
  shows "\<exists>gs. get_all_gaps R db = Inr gs \<and> set gs = {(a, b). gaps_of (view db) a = Some b}"
proof -
  obtain xs where xs: "iterator_cf R db CF_GAPS IterStart = map Inr xs" "iter_spec (view db CF_GAPS) IterStart xs"
    using iter_ok [OF assms(1)] by blast
  have "u64_table (view db CF_GAPS)" using assms(2) by (simp add: gaps_ok_def)
  then have "\<forall>(x, y) \<in> set xs. \<exists>a b. x = u64_to_be a \<and> y = u64_to_be b"
    using xs(2) unfolding iter_spec_def u64_table_def by fastforce
  then obtain gs where gs: "parse_gaps (map Inr xs) = Inr gs" "set gs = {(a, b). (u64_to_be a, u64_to_be b) \<in> set xs}"
    using parse_gaps_ok by blast
  have "(u64_to_be a, u64_to_be b) \<in> set xs \<longleftrightarrow> gaps_of (view db) a = Some b" for a b
    using xs(2) by (auto simp: iter_spec_def gaps_of_def gap_map_of_def Option.bind_eq_Some_conv u64_from_be_iff)
  with gs assms(1) show ?thesis by (simp add: get_all_gaps_def xs(1) require_cf_def cf_ok)
qed

end

section \<open>A node as a peer\<close>

text \<open>
  A peer that answers a request with a session over its own persistence service which ends well, and
  whose blocks storage accepts.
\<close>

definition serves_range ::
    "'p block_reader \<Rightarrow> codec \<Rightarrow> subscriber_config \<Rightarrow> ('p \<Rightarrow> bool) \<Rightarrow> (block \<Rightarrow> bool) \<Rightarrow> peer_reply \<Rightarrow> u64 \<Rightarrow> u64 \<Rightarrow> bool" where
  "serves_range rd C scfg good_peer fit reply a b \<longleftrightarrow>
     (\<exists>r s ts sent. on_status reply = StatusReply r \<and> first_available_block r \<le> a \<and> b \<le> last_available_block r \<and>
        (\<forall>t \<in> set ts. turn_state good_peer t) \<and>
        execute_stream rd C scfg \<lparr>req_start = a, req_end = b\<rparr> s ts = (sent, Some (Inr ())) \<and>
        on_stream reply a b =
          Streaming (map (\<lambda>m. Inr (Some m)) (fst (subscriber_run rd C scfg \<lparr>req_start = a, req_end = b\<rparr> s ts True))) True \<and>
        (\<forall>x \<in> set sent. fit (set_block x)))"

lemma validate_start:
  "validate_and_check_fulfillment rd cfg req s = Inr start \<Longrightarrow> req_start req \<noteq> u64_MAX \<Longrightarrow> start = req_start req"
  by (auto simp: validate_and_check_fulfillment_def Let_def split: sum.splits option.splits if_splits)

context block_reader_laws
begin

lemma serves_delivers:
  assumes "serves_range rd C scfg good fit reply a b" and "a \<le> b" and "b \<noteq> u64_MAX"
  shows "delivers reply fit a b"
proof -
  let ?req = "\<lparr>req_start = a, req_end = b\<rparr>"
  obtain r s ts sent where d: "on_status reply = StatusReply r" "first_available_block r \<le> a" "b \<le> last_available_block r"
    "\<forall>t \<in> set ts. turn_state good t" "execute_stream rd C scfg ?req s ts = (sent, Some (Inr ()))"
    "on_stream reply a b = Streaming (map (\<lambda>m. Inr (Some m)) (fst (subscriber_run rd C scfg ?req s ts True))) True"
    "\<forall>x \<in> set sent. fit (set_block x)"
    using assms(1) unfolding serves_range_def by blast
  obtain start where v: "validate_and_check_fulfillment rd scfg ?req s = Inr start"
    and run: "stream_loop rd C ?req True start ts = (sent, Some (Inr ()))"
    using d(5) assms(3) by (auto simp: execute_stream_def split: sum.splits)
  have start: "start = a" using validate_start [OF v] u64_le_not_max [OF assms(2,3)] by simp
  have "fst (subscriber_run rd C scfg ?req s ts True) = map SubBlockItems sent @ [SubStatus SubSuccess]"
    using d(5) by (simp add: subscriber_run_def finalize_stream_def send_final_status_def)
  then have "on_stream reply a b = Streaming (block_msgs sent @ [Inr (Some (SubStatus SubSuccess))]) True"
    using d(6) by (simp add: comp_def)
  moreover have "numbered a sent" using stream_in_order [OF d(4) run] start by simp
  moreover have "length sent = unat b + 1 - unat a"
    using stream_complete [OF run] assms(2,3) start by (simp add: word_le_nat_alt)
  ultimately show ?thesis unfolding delivers_def using d(1-3,7) by blast
qed

end

section \<open>Connections\<close>

text \<open>An external user gets a stream or an error after at most twenty connections per peer.\<close>

lemma connect_attempts_bound:
  "retries \<le> PEER_RETRY_LIMIT \<Longrightarrow>
    snd (connect_attempts net from_block upto_block peer retries k) \<le> k + (PEER_RETRY_LIMIT + 1 - retries)"
proof (induction "PEER_RETRY_LIMIT - retries" arbitrary: retries k rule: less_induct)
  case less
  then have "snd (connect_attempts net from_block upto_block peer (retries + 1) (Suc k)) \<le> k + (PEER_RETRY_LIMIT + 1 - retries)"
    if "\<not> retries \<ge> PEER_RETRY_LIMIT" using that less.hyps [of "retries + 1" "Suc k"] by fastforce
  then show ?case
    using less.prems unfolding connect_attempts.simps [of net from_block upto_block peer retries k]
    by (auto split: sum.splits option.splits simp del: One_nat_def)
qed

lemma connect_peers_bound:
  "snd (connect_peers net from_block upto_block ps k) \<le> k + (PEER_RETRY_LIMIT + 1) * length ps"
proof (induction ps arbitrary: k)
  case (Cons p ps)
  obtain r k1 where r: "connect_attempts net from_block upto_block p 0 k = (r, k1)" by fastforce
  then have "k1 \<le> k + (PEER_RETRY_LIMIT + 1)" using connect_attempts_bound [of 0 net from_block upto_block p k] by simp
  then show ?case using Cons.IH [of k1] by (auto simp: r split: option.splits)
qed simp

lemma connect_rounds_bound:
  assumes "\<forall>i. length (order i) \<le> n"
  shows "snd (connect_rounds net order from_block upto_block left i k) \<le> k + (PEER_RETRY_LIMIT + 1) * n * left"
proof (induction left arbitrary: i k)
  case (Suc left)
  obtain r k1 where r: "connect_peers net from_block upto_block (order i) k = (r, k1)" by fastforce
  have "(PEER_RETRY_LIMIT + 1) * length (order i) \<le> (PEER_RETRY_LIMIT + 1) * n" using assms mult_le_mono2 by blast
  then have "k1 \<le> k + (PEER_RETRY_LIMIT + 1) * n"
    using connect_peers_bound [of net from_block upto_block "order i" k] r by simp
  then show ?case using Suc.IH [of "Suc i" k1] by (auto simp: r split: option.splits)
qed simp

lemma stream_blocks_from_peers_bound:
  "\<forall>i. length (order i) \<le> n \<Longrightarrow> snd (stream_blocks_from_peers net order from_block upto_block) \<le> 20 * n"
  using connect_rounds_bound [of order n net from_block upto_block MAX_PEER_CONNECTION_ATTEMPTS 0 0]
  by (simp add: stream_blocks_from_peers_def PEER_RETRY_LIMIT_def MAX_PEER_CONNECTION_ATTEMPTS_def)

section \<open>Properties\<close>

text \<open>The worker over the persistence service of a node.\<close>

abbreviation persistence_worker :: "'db rocksdb \<Rightarrow> codec \<Rightarrow> config \<Rightarrow> ('db pstate, 'db) backfill_worker" where
  "persistence_worker R C conf \<equiv> \<lparr>bf_config = conf, bf_reader = persistence_reader R C,
     bf_writer = persistence_writer R C (persistence_service (plugins conf)) (start_block_number (core conf)), bf_db = ps_db\<rparr>"

text \<open>
  C10: A gap check fills the recorded gaps. When the first peer asked is a node that serves every recorded
  gap from its own storage, the check returns without error and every block that was recorded as
  missing, from the configured first block on, can then be read, as a block with that number.
\<close>

theorem gap_check_fills:
  fixes conf :: config
  defines "cfg \<equiv> persistence_service (plugins conf)" and "start \<equiv> start_block_number (core conf)"
  assumes "persist_laws R view invar C" and "persist_laws R' view' invar' C" and "archive_batch_size cfg \<noteq> 0"
    and "persist_good view invar C cfg (saturating_sub start 1) (bs_store bs)"
    and "\<forall>a b k. gaps_of (view (ps_db (bs_store bs))) a = Some b \<and> max a start \<le> b \<longrightarrow> b \<noteq> u64_MAX \<and>
      serves_range (persistence_reader R' C) C scfg (persist_good view' invar' C pcfg base) (persist_fits C (bs_store bs))
        (net peer k) (max a start) b"
  shows "\<exists>k' bs'. run_single_gap_check R net (persistence_worker R C conf) (peer # others) k bs = Some (Inr (), k', bs') \<and>
    persist_good view invar C cfg (saturating_sub start 1) (bs_store bs') \<and>
    (\<forall>n \<in> missing (view (ps_db (bs_store bs))). start \<le> n \<longrightarrow>
      (\<exists>x b. fst (read_block R C (bs_store bs') n) = Inr (Some x) \<and> decode_block C x = Inr b \<and> get_block_number b = Inr n))"
proof -
  note laws = persist_laws.store_laws [OF assms(3,5), of start]
  note peer_laws = persist_laws.reader_laws [OF assms(4), of pcfg base]
  let ?t = "view (ps_db (bs_store bs))" and ?good = "persist_good view invar C cfg (saturating_sub start 1)"
  have db: "invar (ps_db (bs_store bs))" "gaps_ok ?t"
    using assms(6) by (auto simp: persist_good_def persist_inv_def archive_ok_def db_ok_def)
  obtain gs where gs: "get_all_gaps R (ps_db (bs_store bs)) = Inr gs" "set gs = {(a, b). gaps_of ?t a = Some b}"
    using rocksdb_laws.get_all_gaps_eq [OF persist_laws.axioms(1) [OF assms(3)] db] by blast
  define bs1 where "bs1 = bs\<lparr>gaps_found_total := gaps_found_total bs + length gs\<rparr>"
  have "\<forall>(a, b) \<in> set gs. max a start \<le> b \<longrightarrow> (\<forall>k. delivers (net peer k) (persist_fits C (bs_store bs1)) (max a start) b)"
  proof (intro ballI case_prodI2 impI allI)
    fix p a b k assume "p \<in> set gs" "p = (a, b)" "max a start \<le> b"
    then have "b \<noteq> u64_MAX" "serves_range (persistence_reader R' C) C scfg (persist_good view' invar' C pcfg base)
        (persist_fits C (bs_store bs)) (net peer k) (max a start) b" using assms(7) gs(2) by blast+
    then show "delivers (net peer k) (persist_fits C (bs_store bs1)) (max a start) b"
      using block_reader_laws.serves_delivers [OF peer_laws] \<open>max a start \<le> b\<close> by (simp add: bs1_def del: max.bounded_iff)
  qed
  then obtain k' bs' where run: "fill_gaps net (persistence_writer R C cfg start) start (peer # others) gs k bs1 = Some (k', bs')"
    and ext: "block_store_laws.extends (persistence_reader R C) ?good (persist_fits C) (bs_store bs) (bs_store bs')"
    and rd: "\<forall>(a, b) \<in> set gs. \<forall>n. max a start \<le> n \<and> n \<le> b \<longrightarrow> block_store_laws.readable (persistence_reader R C) (bs_store bs') n"
    using block_store_laws.fill_all [OF laws, of bs1 gs start net peer others k] assms(6) by (auto simp: bs1_def)
  have good: "?good (bs_store bs')" using ext by (simp add: block_store_laws.extends_def [OF laws])
  have "\<exists>x b. fst (read_block R C (bs_store bs') n) = Inr (Some x) \<and> decode_block C x = Inr b \<and> get_block_number b = Inr n"
    if n: "n \<in> missing ?t" "start \<le> n" for n
  proof -
    obtain a b where "gaps_of ?t a = Some b" "a \<le> n" "n \<le> b" using n(1) by (auto simp: missing_def gap_set_def)
    then have "block_store_laws.readable (persistence_reader R C) (bs_store bs') n" using rd gs(2) n(2) by auto
    then have "\<exists>x. br_read (persistence_reader R C) (bs_store bs') n = Inr (Some x)"
      by (simp add: block_store_laws.readable_def [OF laws])
    then show ?thesis
      using block_reader_laws.read_decodes [OF block_store_laws.axioms(1) [OF laws] good]
      by (auto simp: persistence_reader_def)
  qed
  moreover have "run_single_gap_check R net (persistence_worker R C conf) (peer # others) k bs =
      Some (Inr (), if gs = [] then (k, bs) else (k', bs'))"
    using run gs(1) by (simp add: run_single_gap_check_def bs1_def cfg_def start_def)
  moreover have "missing ?t = {}" if "gs = []" using gs(2) that by (auto simp: missing_def gap_set_def)
  ultimately show ?thesis using good assms(6) by (cases "gs = []") auto
qed

text \<open>
  C36: A refused stream passes for a filled gap. A peer that reports the range but answers the request
  with a status only, whatever the code, ends the search for that gap: nothing is stored and no other
  peer is asked.
\<close>

theorem refused_gap_passes:
  assumes "on_status (net peer k) = StatusReply r" and "first_available_block r \<le> a" and "b \<le> last_available_block r"
    and "on_stream (net peer k) a b = Streaming [Inr (Some (SubStatus code))] True"
  shows "gap_peers net wr a b (peer # others) k bs = Some (Suc k, bs)"
  using assms leD [OF assms(2)] leD [OF assms(3)] by (simp add: gap_attempts.simps stream_from_peer_def)

text \<open>
  Peers that close the streams they open and whose numbered blocks storage accepts. They may refuse, fail
  half way, send blocks twice, in any order or without a number, or not answer at all.
\<close>

definition closing_streams :: "(block \<Rightarrow> bool) \<Rightarrow> network \<Rightarrow> bool" where
  "closing_streams fit net \<longleftrightarrow>
     (\<forall>p k a b ms closed. on_stream (net p k) a b = Streaming ms closed \<longrightarrow> closed \<and>
        (\<forall>x n. Inr (Some (SubBlockItems x)) \<in> set ms \<and> get_block_number (set_block x) = Inr n \<longrightarrow> fit (set_block x)))"

lemma closing_streams_mono:
  assumes "closing_streams fit net" and "\<And>x. fit x \<Longrightarrow> fit' x"
  shows "closing_streams fit' net"
  using assms unfolding closing_streams_def by meson

context block_store_laws
begin

lemma extends_streams:
  "closing_streams (fits s) net \<Longrightarrow> extends s s' \<Longrightarrow> closing_streams (fits s') net"
  using closing_streams_mono [of "fits s" net "fits s'"] by (simp add: extends_def)

lemma receive_returns:
  assumes "good (bs_store bs)"
    and "\<forall>x n. Inr (Some (SubBlockItems x)) \<in> set ms \<and> get_block_number (set_block x) = Inr n \<longrightarrow> fits (bs_store bs) (set_block x)"
  shows "\<exists>r bs'. receive_blocks wr md ms True bs = Some (r, bs') \<and> extends (bs_store bs) (bs_store bs')"
  using assms
proof (induction ms arbitrary: bs)
  case Nil
  then show ?case by (simp add: extends_refl)
next
  case (Cons m ms)
  consider (status) e where "m = Inl e" | (passed) "m = Inr None \<or> (\<exists>code. m = Inr (Some (SubStatus code)))"
    | (block) x where "m = Inr (Some (SubBlockItems x))"
    by (metis option.exhaust subscribe_response.exhaust sum.exhaust)
  then show ?case
  proof cases
    case status
    then show ?thesis using extends_refl [OF Cons.prems(1)] by simp
  next
    case passed
    then show ?thesis using Cons.IH [OF Cons.prems(1)] Cons.prems(2) by auto
  next
    case (block x)
    show ?thesis
    proof (cases "get_block_number (set_block x)")
      case (Inl e)
      then show ?thesis using extends_refl [OF Cons.prems(1)] write_unnumbered [OF Inl] by (simp add: block Let_def)
    next
      case (Inr n)
      obtain s' where w: "bw_write wr (set_block x) (bs_store bs) = Some (Inr (), s')" "extends (bs_store bs) s'"
        using write_extends [OF Cons.prems(1) _ Inr] Cons.prems(2) Inr by (auto simp: block)
      let ?bs = "(count_block md (set_block x) bs)\<lparr>bs_store := s'\<rparr>"
      have "\<exists>r bs'. receive_blocks wr md ms True ?bs = Some (r, bs') \<and> extends s' (bs_store bs')"
        using Cons.IH [of ?bs] w(2) Cons.prems(2) by (simp add: extends_def)
      then show ?thesis using w extends_trans [OF w(2)] by (auto simp: block Let_def)
    qed
  qed
qed

lemma stream_returns:
  assumes "good (bs_store bs)" and "closing_streams (fits (bs_store bs)) net"
  shows "\<exists>r bs'. stream_from_peer wr md (net p k) a b bs = Some (r, bs') \<and> extends (bs_store bs) (bs_store bs')"
proof (cases "on_stream (net p k) a b")
  case (Streaming ms c)
  then have "c = True" "\<forall>x n. Inr (Some (SubBlockItems x)) \<in> set ms \<and> get_block_number (set_block x) = Inr n \<longrightarrow>
      fits (bs_store bs) (set_block x)" using assms(2) unfolding closing_streams_def by blast+
  then show ?thesis using receive_returns [OF assms(1)] Streaming by (simp add: stream_from_peer_def)
qed (use extends_refl [OF assms(1)] in \<open>simp add: stream_from_peer_def\<close>)

lemma gap_attempts_returns:
  assumes "good (bs_store bs)" and "closing_streams (fits (bs_store bs)) net" and "retries \<le> PEER_RETRY_LIMIT"
  shows "\<exists>r k' bs'. gap_attempts net wr peer a b retries k bs = Some (r, k', bs') \<and>
    extends (bs_store bs) (bs_store bs') \<and> k' \<le> k + (PEER_RETRY_LIMIT + 1 - retries)"
  using assms
proof (induction "PEER_RETRY_LIMIT - retries" arbitrary: retries k bs rule: less_induct)
  case less
  let ?goal = "\<lambda>x. \<exists>r k' bs'. x = Some (r, k', bs') \<and> extends (bs_store bs) (bs_store bs') \<and>
    k' \<le> k + (PEER_RETRY_LIMIT + 1 - retries)"
  have stop: "?goal (Some (r, Suc k, bs'))" if "extends (bs_store bs) (bs_store bs')" for r bs' using less.prems(3) that by simp
  have again: "?goal (gap_attempts net wr peer a b (retries + 1) (Suc k) bs')"
    if le: "\<not> retries + 1 > PEER_RETRY_LIMIT" and ext: "extends (bs_store bs) (bs_store bs')" for bs'
  proof -
    have "good (bs_store bs')" "closing_streams (fits (bs_store bs')) net"
      using ext extends_streams [OF less.prems(2) ext] by (simp_all add: extends_def)
    moreover have "PEER_RETRY_LIMIT - (retries + 1) < PEER_RETRY_LIMIT - retries" "retries + 1 \<le> PEER_RETRY_LIMIT"
      using le by linarith+
    ultimately obtain r k' bs'' where
      "gap_attempts net wr peer a b (retries + 1) (Suc k) bs' = Some (r, k', bs'')" "extends (bs_store bs') (bs_store bs'')"
      "k' \<le> Suc k + (PEER_RETRY_LIMIT + 1 - (retries + 1))" using less.hyps by blast
    then show ?thesis using extends_trans [OF ext] le by (intro exI conjI) auto
  qed
  note refl = extends_refl [OF less.prems(1)]
  obtain r bs' where "stream_from_peer wr GapFill (net peer k) a b bs = Some (r, bs')" "extends (bs_store bs) (bs_store bs')"
    using stream_returns [OF less.prems(1,2)] by blast
  then show ?case
    unfolding gap_attempts.simps [of net wr peer a b retries]
    using stop again refl by (auto split: sum.splits option.splits simp del: One_nat_def)
qed

lemma gap_peers_returns:
  assumes "good (bs_store bs)" and "closing_streams (fits (bs_store bs)) net"
  shows "\<exists>k' bs'. gap_peers net wr a b ps k bs = Some (k', bs') \<and> extends (bs_store bs) (bs_store bs') \<and>
    k' \<le> k + (PEER_RETRY_LIMIT + 1) * length ps"
  using assms
proof (induction ps arbitrary: k bs)
  case Nil
  then show ?case by (simp add: extends_refl)
next
  case (Cons p ps)
  obtain r k1 bs1 where g: "gap_attempts net wr p a b 0 k bs = Some (r, k1, bs1)" "extends (bs_store bs) (bs_store bs1)"
    "k1 \<le> k + (PEER_RETRY_LIMIT + 1)"
    using gap_attempts_returns [OF Cons.prems, of 0] by fastforce
  show ?case
  proof (cases r)
    case NextPeer
    have "good (bs_store bs1)" "closing_streams (fits (bs_store bs1)) net"
      using g(2) extends_streams [OF Cons.prems(2) g(2)] by (simp_all add: extends_def)
    then obtain k2 bs2 where "gap_peers net wr a b ps k1 bs1 = Some (k2, bs2)" "extends (bs_store bs1) (bs_store bs2)"
      "k2 \<le> k1 + (PEER_RETRY_LIMIT + 1) * length ps" using Cons.IH by blast
    then show ?thesis using g NextPeer extends_trans [OF g(2)] by simp
  qed (use g in simp)
qed

lemma fill_gaps_returns:
  assumes "good (bs_store bs)" and "closing_streams (fits (bs_store bs)) net"
  shows "\<exists>k' bs'. fill_gaps net wr start ps gaps k bs = Some (k', bs') \<and> extends (bs_store bs) (bs_store bs') \<and>
    k' \<le> k + (PEER_RETRY_LIMIT + 1) * length ps * length gaps"
  using assms
proof (induction gaps arbitrary: k bs)
  case Nil
  then show ?case by (simp add: extends_refl)
next
  case (Cons g gaps)
  obtain a b where g: "g = (a, b)" by fastforce
  obtain k1 bs1 where r: "gap_peers net wr (max a start) b ps k bs = Some (k1, bs1)" "extends (bs_store bs) (bs_store bs1)"
    "k1 \<le> k + (PEER_RETRY_LIMIT + 1) * length ps"
    using gap_peers_returns [OF Cons.prems] by blast
  have "good (bs_store bs1)" "closing_streams (fits (bs_store bs1)) net"
    using r(2) extends_streams [OF Cons.prems(2) r(2)] by (simp_all add: extends_def)
  then obtain k2 bs2 where "fill_gaps net wr start ps gaps k1 bs1 = Some (k2, bs2)" "extends (bs_store bs1) (bs_store bs2)"
    "k2 \<le> k1 + (PEER_RETRY_LIMIT + 1) * length ps * length gaps" using Cons.IH by blast
  moreover obtain k3 bs3 where "fill_gaps net wr start ps gaps k bs = Some (k3, bs3)" "extends (bs_store bs) (bs_store bs3)"
    "k3 \<le> k + (PEER_RETRY_LIMIT + 1) * length ps * length gaps" using Cons.IH [OF Cons.prems] by blast
  ultimately show ?case using r extends_trans [OF r(2)] by (auto simp: g Let_def simp del: max_less_iff_conj)
qed

end

text \<open>
  C37: A gap check ends and does no harm. Over the persistence service of a node in a good state, with an
  archive batch size other than zero, and with peers that close the streams they open and send only
  numbered blocks that fit the store or blocks without a number, the check returns after at most four
  status calls per gap and peer, whatever else the peers answer; the store is in a good state again and
  every block that was readable before can still be read.
\<close>

theorem gap_check_returns:
  fixes conf :: config
  defines "cfg \<equiv> persistence_service (plugins conf)" and "start \<equiv> start_block_number (core conf)"
  assumes "persist_laws R view invar C" and "archive_batch_size cfg \<noteq> 0"
    and "persist_good view invar C cfg (saturating_sub start 1) (bs_store bs)"
    and "closing_streams (persist_fits C (bs_store bs)) net"
  shows "\<exists>gaps k' bs'. get_all_gaps R (ps_db (bs_store bs)) = Inr gaps \<and>
    run_single_gap_check R net (persistence_worker R C conf) ps k bs = Some (Inr (), k', bs') \<and>
    k' \<le> k + 4 * length ps * length gaps \<and>
    persist_good view invar C cfg (saturating_sub start 1) (bs_store bs') \<and>
    (\<forall>n. (\<exists>x. fst (read_block R C (bs_store bs) n) = Inr (Some x)) \<longrightarrow>
      (\<exists>x. fst (read_block R C (bs_store bs') n) = Inr (Some x)))"
proof -
  note laws = persist_laws.store_laws [OF assms(3,4), of start]
  let ?t = "view (ps_db (bs_store bs))"
  have db: "invar (ps_db (bs_store bs))" "gaps_ok ?t"
    using assms(5) by (auto simp: persist_good_def persist_inv_def archive_ok_def db_ok_def)
  obtain gs where gs: "get_all_gaps R (ps_db (bs_store bs)) = Inr gs"
    using rocksdb_laws.get_all_gaps_eq [OF persist_laws.axioms(1) [OF assms(3)] db] by blast
  define bs1 where "bs1 = bs\<lparr>gaps_found_total := gaps_found_total bs + length gs\<rparr>"
  obtain k' bs' where run: "fill_gaps net (persistence_writer R C cfg start) start ps gs k bs1 = Some (k', bs')"
    "block_store_laws.extends (persistence_reader R C) (persist_good view invar C cfg (saturating_sub start 1)) (persist_fits C)
      (bs_store bs1) (bs_store bs')" "k' \<le> k + (PEER_RETRY_LIMIT + 1) * length ps * length gs"
    using block_store_laws.fill_gaps_returns [OF laws, of bs1 net start ps gs k] assms(5,6) by (auto simp: bs1_def)
  have ext: "persist_good view invar C cfg (saturating_sub start 1) (bs_store bs')"
    "\<forall>n. (\<exists>x. fst (read_block R C (bs_store bs) n) = Inr (Some x)) \<longrightarrow> (\<exists>x. fst (read_block R C (bs_store bs') n) = Inr (Some x))"
    using run(2) unfolding block_store_laws.extends_def [OF laws] block_store_laws.readable_def [OF laws]
    by (simp_all add: bs1_def persistence_reader_def)
  have "run_single_gap_check R net (persistence_worker R C conf) ps k bs = Some (Inr (), if gs = [] then (k, bs) else (k', bs'))"
    using run(1) gs by (simp add: run_single_gap_check_def bs1_def cfg_def start_def)
  then show ?thesis using gs run(3) ext assms(5) by (cases "gs = []") (auto simp: PEER_RETRY_LIMIT_def)
qed

text \<open>A node with block 2 whose gap is block 1, and a peer with block 1.\<close>

definition example_peer :: "ref_db pstate \<Rightarrow> network" where
  "example_peer s = (\<lambda>_ _. \<lparr>
     on_status = StatusReply \<lparr>first_available_block = 1, last_available_block = 1, only_latest_state = False,
       version_information = None\<rparr>,
     on_stream = (\<lambda>a b. Streaming (map (\<lambda>m. Inr (Some m)) (fst (subscriber_run (persistence_reader ref_rocksdb ref_codec)
       ref_codec default_subscriber_config \<lparr>req_start = a, req_end = b\<rparr> s [Turn s True [], Turn s True []] True))) True)\<rparr>)"

abbreviation backfill_start_state :: "'s \<Rightarrow> 's backfill_state" where
  "backfill_start_state s \<equiv> \<lparr>bs_store = s, blocks_fetched_total = \<lambda>_. 0, latest_continuous_block = 0, gaps_found_total = 0\<rparr>"

lemma example_peer_serves:
  assumes s: "persist_good ref_view ref_invar ref_codec default_persistence_config 0 s"
    "meta (ref_view (ps_db s)) LATEST_PERSISTED_KEY = Some 1" "meta (ref_view (ps_db s)) TRUE_EARLIEST_PERSISTED_KEY = Some 1"
    "fst (read_block ref_rocksdb ref_codec s 1) = Inr (Some (encode_to_vec ref_codec (example_block 1)))"
    and fit: "fit (example_block 1)"
  shows "serves_range (persistence_reader ref_rocksdb ref_codec) ref_codec default_subscriber_config
    (persist_good ref_view ref_invar ref_codec default_persistence_config 0) fit (example_peer s p k) 1 1"
proof -
  let ?rd = "persistence_reader ref_rocksdb ref_codec" and ?req = "\<lparr>req_start = 1, req_end = 1\<rparr>"
    and ?ts = "[Turn s True [], Turn s True []]" and ?x = "\<lparr>block_items = items (example_block 1)\<rparr>"
  have m: "ref_invar (ps_db s)" "meta_ok (ref_view (ps_db s))"
    using s(1) by (auto simp: persist_good_def persist_inv_def archive_ok_def db_ok_def)
  have v: "validate_and_check_fulfillment ?rd default_subscriber_config ?req s = Inr 1"
    by (rule example_subscription_valid)
      (use m s(2,3) in \<open>simp_all add: get_latest_persisted_block_number_def get_earliest_persisted_block_number_def ref.watermark_eqs\<close>)
  have read: "br_read ?rd s 1 = Inr (Some (encode_to_vec ref_codec (example_block 1)))" using s(4) by (simp add: persistence_reader_def)
  have "execute_stream ?rd ref_codec default_subscriber_config ?req s ?ts = ([?x], Some (Inr ()))"
    by (simp add: execute_stream_def v process_next_block_def read send_block_def refc.decode_encode)
  with s(1) fit show ?thesis
    unfolding serves_range_def example_peer_def
    by (intro exI [of _ s] exI [of _ ?ts] exI [of _ "[?x]"] exI) auto
qed

theorem gap_check_fills_witness:
  "\<exists>s net k' bs'. missing (ref_view (ps_db s)) = {1} \<and>
    run_single_gap_check ref_rocksdb net (persistence_worker ref_rocksdb ref_codec example_config) [''peer''] 0
      (backfill_start_state s) = Some (Inr (), k', bs') \<and>
    (\<exists>x b. fst (read_block ref_rocksdb ref_codec (bs_store bs') 1) = Inr (Some x) \<and> decode_block ref_codec x = Inr b \<and>
      get_block_number b = Inr 1)"
proof -
  obtain p where p: "persist_good ref_view ref_invar ref_codec default_persistence_config 0 p"
    "meta (ref_view (ps_db p)) LATEST_PERSISTED_KEY = Some 1" "meta (ref_view (ps_db p)) TRUE_EARLIEST_PERSISTED_KEY = Some 1"
    "fst (read_block ref_rocksdb ref_codec p 1) = Inr (Some (encode_to_vec ref_codec (example_block 1)))"
    using stored_example [of 1] by auto
  obtain s where s: "persist_good ref_view ref_invar ref_codec default_persistence_config 0 s" "ps_indices s = []"
    "missing (ref_view (ps_db s)) = {1}"
    using stored_example [of 2] by auto
  have wf: "gaps_wf (gaps_of (ref_view (ps_db s)))"
    using s(1) by (simp add: persist_good_def persist_inv_def archive_ok_def db_ok_def gaps_ok_def)
  have gap: "a = 1 \<and> b = 1" if "gaps_of (ref_view (ps_db s)) a = Some b" for a b
  proof -
    have "a \<le> b" using wf that by (auto simp: gaps_wf_def)
    then have "a \<in> missing (ref_view (ps_db s))" "b \<in> missing (ref_view (ps_db s))"
      using that by (auto simp: missing_def gap_set_def)
    then show ?thesis using s(3) by simp
  qed
  have fit: "persist_fits ref_codec s (example_block 1)"
    using s(2) example_compressed [of 1] by (simp add: persist_fits_def get_block_number_def cold_numbers_def)
  have serves: "\<forall>a b k. gaps_of (ref_view (ps_db (bs_store (backfill_start_state s)))) a = Some b \<and>
      max a (start_block_number (core example_config)) \<le> b \<longrightarrow> b \<noteq> u64_MAX \<and>
    serves_range (persistence_reader ref_rocksdb ref_codec) ref_codec default_subscriber_config
      (persist_good ref_view ref_invar ref_codec default_persistence_config 0)
      (persist_fits ref_codec (bs_store (backfill_start_state s))) (example_peer p ''peer'' k)
      (max a (start_block_number (core example_config))) b"
    using example_peer_serves [OF p, of "persist_fits ref_codec s"] fit by (auto dest!: gap)
  have "\<exists>k' bs'. run_single_gap_check ref_rocksdb (example_peer p) (persistence_worker ref_rocksdb ref_codec example_config) [''peer''] 0
        (backfill_start_state s) = Some (Inr (), k', bs') \<and>
      persist_good ref_view ref_invar ref_codec (persistence_service (plugins example_config))
        (saturating_sub (start_block_number (core example_config)) 1) (bs_store bs') \<and>
      (\<forall>n \<in> missing (ref_view (ps_db (bs_store (backfill_start_state s)))). start_block_number (core example_config) \<le> n \<longrightarrow>
        (\<exists>x b. fst (read_block ref_rocksdb ref_codec (bs_store bs') n) = Inr (Some x) \<and> decode_block ref_codec x = Inr b \<and>
          get_block_number b = Inr n))"
    by (rule gap_check_fills [where conf = example_config and bs = "backfill_start_state s" and net = "example_peer p" and
          peer = "''peer''", OF refp.persist_laws_axioms refp.persist_laws_axioms _ _ serves])
      (use s(1) in \<open>simp_all add: default_persistence_config_def saturating_sub_def\<close>)
  then show ?thesis using s(3) by (intro exI [of _ s] exI [of _ "example_peer p"]) auto
qed

theorem refused_gap_passes_witness:
  "gap_peers (\<lambda>p k. \<lparr>on_status = StatusReply \<lparr>first_available_block = 0, last_available_block = 9, only_latest_state = False,
       version_information = None\<rparr>, on_stream = (\<lambda>_ _. Streaming [Inr (Some (SubStatus SubNotAvailable))] True)\<rparr>)
     (persistence_writer ref_rocksdb ref_codec default_persistence_config 0) 3 5 [''a'', ''b''] 0 (backfill_start_state empty_state) =
   Some (Suc 0, backfill_start_state empty_state)"
  by (rule refused_gap_passes [where r = "\<lparr>first_available_block = 0, last_available_block = 9, only_latest_state = False,
        version_information = None\<rparr>"]) simp_all

text \<open>A peer that sends block 1 and then breaks off, every time.\<close>

definition broken_peer :: network where
  "broken_peer = (\<lambda>_ _. \<lparr>
     on_status = StatusReply \<lparr>first_available_block = 1, last_available_block = 1, only_latest_state = False,
       version_information = None\<rparr>,
     on_stream = (\<lambda>a b. Streaming [Inr (Some (SubBlockItems \<lparr>block_items = items (example_block 1)\<rparr>)), Inl ''reset''] True)\<rparr>)"

theorem gap_check_returns_witness:
  "\<exists>s gaps k' bs'. missing (ref_view (ps_db s)) = {1} \<and> get_all_gaps ref_rocksdb (ps_db s) = Inr gaps \<and>
    run_single_gap_check ref_rocksdb broken_peer (persistence_worker ref_rocksdb ref_codec example_config) [''a'', ''b''] 0
      (backfill_start_state s) = Some (Inr (), k', bs') \<and> k' \<le> 8 * length gaps"
proof -
  obtain s where s: "persist_good ref_view ref_invar ref_codec default_persistence_config 0 s" "ps_indices s = []"
    "missing (ref_view (ps_db s)) = {1}"
    using stored_example [of 2] by auto
  have "persist_fits ref_codec s (example_block 1)"
    using s(2) example_compressed [of 1] by (simp add: persist_fits_def get_block_number_def cold_numbers_def)
  then have "closing_streams (persist_fits ref_codec (bs_store (backfill_start_state s))) broken_peer"
    by (auto simp: closing_streams_def broken_peer_def)
  from gap_check_returns [of ref_rocksdb ref_view ref_invar ref_codec example_config "backfill_start_state s" broken_peer
      "[''a'', ''b'']" 0, OF refp.persist_laws_axioms _ _ this]
  show ?thesis using s(1,3) by (auto simp: default_persistence_config_def saturating_sub_def)
qed

end
