(* ===== verification/State_Mgmt.thy ===== *)
theory State_Mgmt
  imports Reader
begin

text \<open>
  The state management plugin (\<^verbatim>\<open>rock-node-state-management-plugin\<close>): applying the state changes of a
  block to the store in one batch, from the cache or from storage (\<^verbatim>\<open>state_manager.rs\<close>), and the event
  loop that keeps the state in step with the persisted blocks (\<^verbatim>\<open>plugin.rs\<close>). The state shares the
  database of the persistence service.
\<close>

section \<open>State manager\<close>

definition STATE_LAST_PROCESSED_BLOCK :: bytes where
  "STATE_LAST_PROCESSED_BLOCK = ascii ''state_last_processed_block''"

definition get_last_processed_block :: "'db rocksdb \<Rightarrow> 'db \<Rightarrow> u64 option res" where
  "get_last_processed_block R db =
     and_then (require_cf R db CF_METADATA) (\<lambda>_.
     and_then (get_cf R db CF_METADATA STATE_LAST_PROCESSED_BLOCK) (\<lambda>v. Inr (Option.bind v u64_from_be)))"

definition construct_db_key :: "u32 \<Rightarrow> bytes option \<Rightarrow> bytes res" where
  "construct_db_key sid map_key =
     (case map_key of None \<Rightarrow> Inl (Other ''MapChangeKey is missing'') | Some k \<Rightarrow> Inr (u32_to_be sid @ k))"

text \<open>The singleton variants the code stores; any other one is skipped.\<close>

fun singleton_bytes :: "singleton_value \<Rightarrow> bytes option" where
  "singleton_bytes (PlatformStateValue v) = Some v"
| "singleton_bytes (NodeRewardsValue v) = Some v"
| "singleton_bytes (BlockStreamInfoValue v) = Some v"
| "singleton_bytes (HintsConstructionValue v) = Some v"
| "singleton_bytes (EntityCountsValue v) = Some v"
| "singleton_bytes (CrsStateValue v) = Some v"
| "singleton_bytes (EntityNumberValue v) = Some v"
| "singleton_bytes (NetworkStakingRewardsValue v) = Some v"
| "singleton_bytes (ThrottleUsageSnapshotsValue v) = Some v"
| "singleton_bytes (CongestionLevelStartsValue v) = Some v"
| "singleton_bytes (RunningHashesValue v) = Some v"
| "singleton_bytes (BlockInfoValue v) = Some v"
| "singleton_bytes (ExchangeRateSetValue v) = Some v"
| "singleton_bytes (BytesValue v) = Some v"
| "singleton_bytes (TimestampValue v) = Some v"
| "singleton_bytes (RosterStateValue v) = Some v"
| "singleton_bytes (OtherSingleton v) = None"

text \<open>
  The first key a prefix iterator finds. The column families have no prefix extractor, so the iterator
  starts at the prefix and is not bounded by it.
\<close>

definition queue_head :: "'db rocksdb \<Rightarrow> 'db \<Rightarrow> u32 \<Rightarrow> bytes option" where
  "queue_head R db sid =
     (case iterator_cf R db CF_STATE_DATA (IterFrom (u32_to_be sid) Forward) of
        Inr (k, _) # _ \<Rightarrow> Some k
      | _ \<Rightarrow> None)"

definition apply_single_state_change ::
    "'db rocksdb \<Rightarrow> 'db \<Rightarrow> bytes \<Rightarrow> state_change \<Rightarrow> write_batch \<Rightarrow> write_batch res" where
  "apply_single_state_change R db ts c batch =
     (case change_operation c of
        None \<Rightarrow> Inr batch
      | Some (MapUpdate key val) \<Rightarrow>
          and_then (construct_db_key (state_id c) key) (\<lambda>k.
          case val of
            None \<Rightarrow> Inl (Other ''MapUpdateChange is missing value'')
          | Some v \<Rightarrow> Inr (batch @ [PutCf CF_STATE_DATA k v]))
      | Some (MapDelete key) \<Rightarrow>
          and_then (construct_db_key (state_id c) key) (\<lambda>k. Inr (batch @ [DeleteCf CF_STATE_DATA k]))
      | Some (SingletonUpdate new_value) \<Rightarrow>
          (case new_value of
             None \<Rightarrow> Inl (Other ''SingletonUpdate missing value'')
           | Some v \<Rightarrow>
               (case singleton_bytes v of
                  None \<Rightarrow> Inr batch
                | Some bs \<Rightarrow> Inr (batch @ [PutCf CF_STATE_DATA (u32_to_be (state_id c)) bs])))
      | Some (QueuePush val) \<Rightarrow>
          (case val of
             None \<Rightarrow> Inl (Other ''QueuePushChange missing value'')
           | Some (TransactionReceiptEntriesElement v) \<Rightarrow>
               Inr (batch @ [PutCf CF_STATE_DATA (u32_to_be (state_id c) @ ts) v])
           | Some (OtherQueueElement _) \<Rightarrow> Inr batch)
      | Some QueuePop \<Rightarrow>
          (case queue_head R db (state_id c) of
             Some k \<Rightarrow> Inr (batch @ [DeleteCf CF_STATE_DATA k])
           | None \<Rightarrow> Inr batch)
      | Some OtherChange \<Rightarrow> Inr batch)"

fun apply_changes :: "'db rocksdb \<Rightarrow> 'db \<Rightarrow> bytes \<Rightarrow> state_change list \<Rightarrow> write_batch \<Rightarrow> write_batch res" where
  "apply_changes R db ts [] batch = Inr batch"
| "apply_changes R db ts (c # cs) batch =
     and_then (apply_single_state_change R db ts c batch) (apply_changes R db ts cs)"

fun apply_items :: "'db rocksdb \<Rightarrow> 'db \<Rightarrow> block_item list \<Rightarrow> write_batch \<Rightarrow> write_batch res" where
  "apply_items R db [] batch = Inr batch"
| "apply_items R db (Some (StateChanges sc) # xs) batch =
     (case consensus_timestamp sc of
        None \<Rightarrow> Inl (Other ''StateChanges missing timestamp'')
      | Some ts \<Rightarrow> and_then (apply_changes R db ts (changes sc) batch) (apply_items R db xs))"
| "apply_items R db (_ # xs) batch = apply_items R db xs batch"

definition apply_state_changes :: "'db rocksdb \<Rightarrow> codec \<Rightarrow> u64 \<Rightarrow> bytes \<Rightarrow> 'db \<Rightarrow> 'db res" where
  "apply_state_changes R C n bs db =
     and_then (decode_block C bs) (\<lambda>b.
     and_then (require_cf R db CF_STATE_DATA) (\<lambda>_.
     and_then (require_cf R db CF_METADATA) (\<lambda>_.
     and_then (apply_items R db (items b) []) (\<lambda>batch.
     write_db R db (batch @ [PutCf CF_METADATA STATE_LAST_PROCESSED_BLOCK (u64_to_be n)])))))"

definition apply_state_from_block_event ::
    "'db rocksdb \<Rightarrow> codec \<Rightarrow> block_persisted \<Rightarrow> block_data_cache \<Rightarrow> 'db pstate \<Rightarrow> (block_data_cache \<times> 'db pstate) res" where
  "apply_state_from_block_event R C ev bc s =
     (case cache_get (cache_key ev) bc of
        None \<Rightarrow> Inl (Other ''Block data not found in cache'')
      | Some d \<Rightarrow>
          and_then (apply_state_changes R C (block_number ev) (bd_contents d) (ps_db s)) (\<lambda>db'.
          Inr (mark_for_removal (cache_key ev) bc, s\<lparr>ps_db := db'\<rparr>)))"

definition apply_state_from_storage ::
    "'db rocksdb \<Rightarrow> codec \<Rightarrow> 'db pstate block_reader \<Rightarrow> u64 \<Rightarrow> 'db pstate \<Rightarrow> 'db pstate res" where
  "apply_state_from_storage R C rd n s =
     and_then (br_read rd s n) (\<lambda>v.
     case v of
       None \<Rightarrow> Inl (Other ''Block not found in persistence for catch-up.'')
     | Some bs \<Rightarrow> and_then (apply_state_changes R C n bs (ps_db s)) (\<lambda>db'. Inr (s\<lparr>ps_db := db'\<rparr>)))"

definition get_state_value :: "'db rocksdb \<Rightarrow> bytes \<Rightarrow> 'db \<Rightarrow> bytes option res" where
  "get_state_value R key db = and_then (require_cf R db CF_STATE_DATA) (\<lambda>_. get_cf R db CF_STATE_DATA key)"

section \<open>Event loop\<close>

definition u64_range :: "u64 \<Rightarrow> u64 \<Rightarrow> u64 list" where
  "u64_range a b = map of_nat [unat a..<unat b]"

text \<open>
  Catching up stops at the first block that fails; the error is only logged, so the caller goes on
  with the event.
\<close>

fun catch_up :: "'db rocksdb \<Rightarrow> codec \<Rightarrow> 'db pstate block_reader \<Rightarrow> u64 list \<Rightarrow> 'db pstate \<Rightarrow> 'db pstate" where
  "catch_up R C rd [] s = s"
| "catch_up R C rd (b # bs) s =
     (case apply_state_from_storage R C rd b s of Inl _ \<Rightarrow> s | Inr s' \<Rightarrow> catch_up R C rd bs s')"

record 'db state_plugin =
  sp_store :: "'db pstate"
  sp_cache :: block_data_cache
  sp_last :: "u64 option"
  sp_running :: bool

definition expected_block :: "u64 option \<Rightarrow> u64" where
  "expected_block last_processed = (case last_processed of None \<Rightarrow> 0 | Some n \<Rightarrow> n + 1)"

definition state_event ::
    "'db rocksdb \<Rightarrow> codec \<Rightarrow> 'db pstate block_reader \<Rightarrow> block_persisted \<Rightarrow> 'db state_plugin \<Rightarrow> 'db state_plugin" where
  "state_event R C rd ev p =
     (let expected = expected_block (sp_last p); n = block_number ev in
      if n < expected then p
      else
        let s1 = (if n > expected then catch_up R C rd (u64_range expected n) (sp_store p) else sp_store p) in
        case apply_state_from_block_event R C ev (sp_cache p) s1 of
          Inl _ \<Rightarrow> p\<lparr>sp_store := s1, sp_running := False\<rparr>
        | Inr (bc', s2) \<Rightarrow> p\<lparr>sp_store := s2, sp_cache := bc', sp_last := Some n\<rparr>)"

text \<open>
  The inputs of the loop: a shutdown, an event with what the other plugins have done to the store and
  the cache since, or an error of the channel.
\<close>

datatype 'db state_input =
    StateShutdown
  | StatePersisted block_persisted "'db pstate \<Rightarrow> 'db pstate" "block_data_cache \<Rightarrow> block_data_cache"
  | StateRecvError

fun state_loop ::
    "'db rocksdb \<Rightarrow> codec \<Rightarrow> 'db pstate block_reader \<Rightarrow> 'db state_input list \<Rightarrow> 'db state_plugin \<Rightarrow> 'db state_plugin" where
  "state_loop R C rd [] p = p"
| "state_loop R C rd (StateShutdown # xs) p = p\<lparr>sp_running := False\<rparr>"
| "state_loop R C rd (StateRecvError # xs) p = p\<lparr>sp_running := False\<rparr>"
| "state_loop R C rd (StatePersisted ev others_store others_cache # xs) p =
     (let p' = state_event R C rd ev (p\<lparr>sp_store := others_store (sp_store p), sp_cache := others_cache (sp_cache p)\<rparr>)
      in if sp_running p' then state_loop R C rd xs p' else p')"

text \<open>
  The start of the plugin: without a context it fails, disabled or with a later start block it does
  nothing, and otherwise the task reads the last processed block and runs the loop.
\<close>

definition start_internal ::
    "'db rocksdb \<Rightarrow> codec \<Rightarrow> config option \<Rightarrow> 'db pstate block_reader option \<Rightarrow> 'db state_input list \<Rightarrow> 'db pstate \<Rightarrow>
     block_data_cache \<Rightarrow> 'db state_plugin res" where
  "start_internal R C context manager xs s bc =
     (let p = \<lparr>sp_store = s, sp_cache = bc, sp_last = None, sp_running = False\<rparr> in
      case context of
        None \<Rightarrow> Inl (Other ''AppContext not initialized'')
      | Some conf \<Rightarrow>
          if \<not> state_management_enabled (state_management_service (plugins conf)) then Inr p
          else if start_block_number (core conf) > 0 then Inr p
          else (case manager of
                  None \<Rightarrow> Inl (Other ''StateManager not initialized'')
                | Some rd \<Rightarrow>
                    (case get_last_processed_block R (ps_db s) of
                       Inl _ \<Rightarrow> Inr p
                     | Inr l \<Rightarrow> Inr (state_loop R C rd xs (p\<lparr>sp_last := l, sp_running := True\<rparr>)))))"

section \<open>What a block does to the state\<close>

text \<open>
  The effect of a change on the state as a map, or None if the change is malformed. A pop removes the
  key that was the first of the queue when the block began, which \<open>h\<close> gives.
\<close>

definition change_effect :: "(u32 \<Rightarrow> bytes option) \<Rightarrow> bytes \<Rightarrow> state_change \<Rightarrow> table \<Rightarrow> table option" where
  "change_effect h ts c t =
     (case change_operation c of
        None \<Rightarrow> Some t
      | Some (MapUpdate (Some k) (Some v)) \<Rightarrow> Some (t(u32_to_be (state_id c) @ k \<mapsto> v))
      | Some (MapUpdate _ _) \<Rightarrow> None
      | Some (MapDelete (Some k)) \<Rightarrow> Some (t(u32_to_be (state_id c) @ k := None))
      | Some (MapDelete None) \<Rightarrow> None
      | Some (SingletonUpdate (Some v)) \<Rightarrow>
          Some (case singleton_bytes v of None \<Rightarrow> t | Some bs \<Rightarrow> t(u32_to_be (state_id c) \<mapsto> bs))
      | Some (SingletonUpdate None) \<Rightarrow> None
      | Some (QueuePush (Some (TransactionReceiptEntriesElement v))) \<Rightarrow> Some (t(u32_to_be (state_id c) @ ts \<mapsto> v))
      | Some (QueuePush (Some _)) \<Rightarrow> Some t
      | Some (QueuePush None) \<Rightarrow> None
      | Some QueuePop \<Rightarrow> Some (case h (state_id c) of None \<Rightarrow> t | Some k \<Rightarrow> t(k := None))
      | Some OtherChange \<Rightarrow> Some t)"

fun changes_effect :: "(u32 \<Rightarrow> bytes option) \<Rightarrow> bytes \<Rightarrow> state_change list \<Rightarrow> table \<Rightarrow> table option" where
  "changes_effect h ts [] t = Some t"
| "changes_effect h ts (c # cs) t = Option.bind (change_effect h ts c t) (changes_effect h ts cs)"

fun items_effect :: "(u32 \<Rightarrow> bytes option) \<Rightarrow> block_item list \<Rightarrow> table \<Rightarrow> table option" where
  "items_effect h [] t = Some t"
| "items_effect h (Some (StateChanges sc) # xs) t =
     (case consensus_timestamp sc of
        None \<Rightarrow> None
      | Some ts \<Rightarrow> Option.bind (changes_effect h ts (changes sc) t) (items_effect h xs))"
| "items_effect h (_ # xs) t = items_effect h xs t"

text \<open>\<open>h\<close> gives the first key of the table from each state id on.\<close>

definition heads :: "table \<Rightarrow> (u32 \<Rightarrow> bytes option) \<Rightarrow> bool" where
  "heads t h \<longleftrightarrow>
     (\<forall>sid. case h sid of
        None \<Rightarrow> \<forall>k. t k \<noteq> None \<longrightarrow> \<not> u32_to_be sid \<le> k
      | Some k \<Rightarrow> t k \<noteq> None \<and> u32_to_be sid \<le> k \<and> (\<forall>k'. t k' \<noteq> None \<and> u32_to_be sid \<le> k' \<longrightarrow> k \<le> k'))"

text \<open>The batch of a block touches the state only, and has the effect of its changes.\<close>

definition state_batch :: "write_batch \<Rightarrow> bool" where
  "state_batch batch \<longleftrightarrow> (\<forall>x \<in> set batch. op_cf x = CF_STATE_DATA)"

lemma state_batch_simps [simp]:
  "state_batch []" "state_batch (a @ b) \<longleftrightarrow> state_batch a \<and> state_batch b"
  "state_batch [PutCf c k v] \<longleftrightarrow> c = CF_STATE_DATA" "state_batch [DeleteCf c k] \<longleftrightarrow> c = CF_STATE_DATA"
  by (auto simp: state_batch_def)

definition batch_refines :: "write_batch \<Rightarrow> write_batch res \<Rightarrow> (table \<Rightarrow> table option) \<Rightarrow> bool" where
  "batch_refines batch r eff \<longleftrightarrow>
     (\<forall>t. case r of
        Inl _ \<Rightarrow> eff (apply_batch batch t CF_STATE_DATA) = None
      | Inr batch' \<Rightarrow> state_batch batch' \<and> eff (apply_batch batch t CF_STATE_DATA) = Some (apply_batch batch' t CF_STATE_DATA))"

lemma apply_batch_snoc [simp]: "apply_batch (b @ [x]) t = apply_op x (apply_batch b t)"
  by (simp add: apply_batch_def)

lemma single_change_refines:
  "state_batch batch \<Longrightarrow>
    batch_refines batch (apply_single_state_change R db ts c batch) (change_effect (queue_head R db) ts c)"
  by (auto simp: batch_refines_def apply_single_state_change_def change_effect_def construct_db_key_def res_simps
      split: option.splits change_operation.splits queue_value.splits)

lemma batch_refines_bind:
  assumes "batch_refines batch r e" and "\<And>batch'. state_batch batch' \<Longrightarrow> batch_refines batch' (g batch') f"
  shows "batch_refines batch (and_then r g) (\<lambda>t. Option.bind (e t) f)"
proof (cases r)
  case (Inr batch')
  have r: "state_batch batch'" "\<And>t. e (apply_batch batch t CF_STATE_DATA) = Some (apply_batch batch' t CF_STATE_DATA)"
    using assms(1) by (auto simp: Inr batch_refines_def)
  show ?thesis using assms(2) [OF r(1)] by (auto simp: batch_refines_def Inr r(2) res_simps split: sum.splits)
qed (use assms(1) in \<open>simp add: batch_refines_def res_simps\<close>)

lemma changes_refine:
  "state_batch batch \<Longrightarrow> batch_refines batch (apply_changes R db ts cs batch) (changes_effect (queue_head R db) ts cs)"
proof (induction cs arbitrary: batch)
  case (Cons c cs)
  from batch_refines_bind [OF single_change_refines [OF Cons.prems] Cons.IH] show ?case by simp
qed (simp add: batch_refines_def)

lemma items_refine:
  "state_batch batch \<Longrightarrow> batch_refines batch (apply_items R db xs batch) (items_effect (queue_head R db) xs)"
proof (induction R db xs batch rule: apply_items.induct)
  case (2 R db sc xs batch)
  show ?case
  proof (cases "consensus_timestamp sc")
    case (Some ts)
    from batch_refines_bind [OF changes_refine [OF 2(2)] 2(1) [OF Some]] Some show ?thesis by simp
  qed (simp add: batch_refines_def)
qed (auto simp: batch_refines_def split: sum.splits)

context rocksdb_laws
begin

lemma queue_heads:
  assumes "invar db"
  shows "heads (view db CF_STATE_DATA) (queue_head R db)"
  unfolding heads_def
proof
  fix sid
  obtain xs where xs: "iterator_cf R db CF_STATE_DATA (IterFrom (u32_to_be sid) Forward) = map Inr xs"
    "iter_spec (view db CF_STATE_DATA) (IterFrom (u32_to_be sid) Forward) xs"
    using iter_ok [OF assms] by blast
  have set: "set xs = {(k, v). view db CF_STATE_DATA k = Some v \<and> u32_to_be sid \<le> k}"
    using xs(2) by (simp add: iter_spec_def)
  show "case queue_head R db sid of
      None \<Rightarrow> \<forall>k. view db CF_STATE_DATA k \<noteq> None \<longrightarrow> \<not> u32_to_be sid \<le> k
    | Some k \<Rightarrow> view db CF_STATE_DATA k \<noteq> None \<and> u32_to_be sid \<le> k \<and>
        (\<forall>k'. view db CF_STATE_DATA k' \<noteq> None \<and> u32_to_be sid \<le> k' \<longrightarrow> k \<le> k')"
  proof (cases xs)
    case Nil
    then show ?thesis using xs(1) set by (auto simp: queue_head_def)
  next
    case (Cons p ps)
    obtain k v where p: "p = (k, v)" by fastforce
    have mem: "view db CF_STATE_DATA k = Some v \<and> u32_to_be sid \<le> k" using set by (auto simp: Cons p)
    have "k \<le> k'" if "view db CF_STATE_DATA k' = Some v'" "u32_to_be sid \<le> k'" for k' v'
    proof -
      have "(k', v') \<in> set xs" using that set by simp
      then show ?thesis using xs(2) by (auto simp: iter_spec_def Cons p)
    qed
    then show ?thesis using mem xs(1) by (auto simp: queue_head_def Cons p)
  qed
qed

lemma apply_state_changes_eq:
  assumes "invar db"
  shows "case decode_block C bs of
      Inl e \<Rightarrow> apply_state_changes R C n bs db = Inl e
    | Inr b \<Rightarrow>
        (case items_effect (queue_head R db) (items b) (view db CF_STATE_DATA) of
           None \<Rightarrow> \<exists>e. apply_state_changes R C n bs db = Inl e
         | Some t' \<Rightarrow> \<exists>db'. apply_state_changes R C n bs db = Inr db' \<and> invar db' \<and>
             view db' = (view db)(CF_STATE_DATA := t',
               CF_METADATA := (view db CF_METADATA)(STATE_LAST_PROCESSED_BLOCK \<mapsto> u64_to_be n)))"
proof (cases "decode_block C bs")
  case (Inl e)
  then show ?thesis by (simp add: apply_state_changes_def res_simps)
next
  case (Inr b)
  have cf: "require_cf R db c = Inr ()" for c using cf_ok [OF assms] by (simp add: require_cf_def)
  have ref: "batch_refines [] (apply_items R db (items b) []) (items_effect (queue_head R db) (items b))"
    by (rule items_refine) simp
  have t0: "apply_batch [] t = t" for t by (simp add: apply_batch_def)
  show ?thesis
  proof (cases "apply_items R db (items b) []")
    case (Inl e)
    then have "items_effect (queue_head R db) (items b) (view db CF_STATE_DATA) = None"
      using ref by (simp add: batch_refines_def t0)
    then show ?thesis using Inr Inl by (simp add: apply_state_changes_def res_simps cf)
  next
    case (Inr batch)
    have eff: "items_effect (queue_head R db) (items b) (view db CF_STATE_DATA) = Some (apply_batch batch (view db) CF_STATE_DATA)"
      and sb: "state_batch batch" using ref Inr by (auto simp: batch_refines_def t0)
    have other: "apply_batch batch (view db) c = view db c" if "c \<noteq> CF_STATE_DATA" for c
      using cf_ops_only [of batch CF_STATE_DATA c] sb that by (simp add: apply_batch_cf state_batch_def)
    obtain db' where db': "write_db R db (batch @ [PutCf CF_METADATA STATE_LAST_PROCESSED_BLOCK (u64_to_be n)]) = Inr db'"
      "invar db'" "view db' = apply_op (PutCf CF_METADATA STATE_LAST_PROCESSED_BLOCK (u64_to_be n)) (apply_batch batch (view db))"
      using write_ok [OF assms] by fastforce
    have "view db' = (view db)(CF_STATE_DATA := apply_batch batch (view db) CF_STATE_DATA,
        CF_METADATA := (view db CF_METADATA)(STATE_LAST_PROCESSED_BLOCK \<mapsto> u64_to_be n))"
      using other by (auto simp: db'(3) fun_eq_iff)
    then show ?thesis using \<open>decode_block C bs = Inr b\<close> Inr db'(1,2) eff by (simp add: apply_state_changes_def res_simps cf)
  qed
qed

end

section \<open>The state and the blocks\<close>

text \<open>Applying a block writes the state and its own mark only, so storage is as before.\<close>

definition state_write :: "tables \<Rightarrow> u64 \<Rightarrow> table \<Rightarrow> tables" where
  "state_write t n t' =
     t(CF_STATE_DATA := t', CF_METADATA := (t CF_METADATA)(STATE_LAST_PROCESSED_BLOCK \<mapsto> u64_to_be n))"

lemma state_write_other:
  "c \<noteq> CF_STATE_DATA \<Longrightarrow> c \<noteq> CF_METADATA \<Longrightarrow> state_write t n t' c = t c"
  "k \<in> watermark_keys \<Longrightarrow> state_write t n t' CF_METADATA k = t CF_METADATA k"
  by (auto simp: state_write_def watermark_keys_def STATE_LAST_PROCESSED_BLOCK_def LATEST_PERSISTED_KEY_def
      EARLIEST_HOT_KEY_def HIGHEST_CONTIGUOUS_KEY_def TRUE_EARLIEST_PERSISTED_KEY_def ascii_def)

lemma state_write_inv:
  assumes "persist_inv C cfg base t d idx"
  shows "persist_inv C cfg base (state_write t n t') d idx"
    "block_bytes C (state_write t n t') d idx = block_bytes C t d idx"
proof -
  note o = state_write_other
  have hot: "hot_ok C (state_write t n t') = hot_ok C t" "hot_bytes C (state_write t n t') = hot_bytes C t"
    "hot_numbers (state_write t n t') = hot_numbers t"
    using hot_table_cong [of "state_write t n t'" t] o(1) by auto
  have gaps: "gaps_ok (state_write t n t') = gaps_ok t" "missing (state_write t n t') = missing t"
    using gaps_cong [of "state_write t n t'" t] o(1) by auto
  have meta: "meta_ok (state_write t n t') = meta_ok t" unfolding meta_ok_def using o(2) by simp
  have marks: "meta (state_write t n t') k = meta t k" if "k \<in> watermark_keys" for k using o(2) that by (simp add: meta_def)
  note c = contig_ok_cong [OF marks marks gaps(2)]
  show "persist_inv C cfg base (state_write t n t') d idx"
    using assms c by (simp add: persist_inv_def archive_ok_def db_ok_def hot gaps meta hot_small_def stored_def)
  show "block_bytes C (state_write t n t') d idx = block_bytes C t d idx" by (simp add: block_bytes_def fun_eq_iff hot)
qed

context persist_laws
begin

lemma state_write_good:
  assumes "persist_good view invar C cfg base s" and "invar db'" and "view db' = state_write (view (ps_db s)) n t'"
  shows "persist_good view invar C cfg base (s\<lparr>ps_db := db'\<rparr>)"
    "fst (read_block R C (s\<lparr>ps_db := db'\<rparr>) m) = fst (read_block R C s m)"
proof -
  have inv: "invar (ps_db s)" "persist_inv C cfg base (view (ps_db s)) (ps_disk s) (ps_indices s)"
    using assms(1) by (simp_all add: persist_good_def)
  note w = state_write_inv [OF inv(2), of n t']
  show good: "persist_good view invar C cfg base (s\<lparr>ps_db := db'\<rparr>)" using assms(2) w(1) by (simp add: persist_good_def assms(3))
  show "fst (read_block R C (s\<lparr>ps_db := db'\<rparr>) m) = fst (read_block R C s m)"
    using read_block_eq [OF inv(1), of cfg m] read_block_eq [of "s\<lparr>ps_db := db'\<rparr>" cfg m] inv(2) w assms(2,3)
    by (simp add: persist_inv_def)
qed

end

text \<open>A block whose changes are complete, whatever the state.\<close>

definition change_ok :: "state_change \<Rightarrow> bool" where
  "change_ok c \<longleftrightarrow> (\<forall>h ts t. change_effect h ts c t \<noteq> None)"

lemma change_ok_iff:
  "change_ok c \<longleftrightarrow>
     (case change_operation c of
        Some (MapUpdate k v) \<Rightarrow> k \<noteq> None \<and> v \<noteq> None
      | Some (MapDelete k) \<Rightarrow> k \<noteq> None
      | Some (SingletonUpdate v) \<Rightarrow> v \<noteq> None
      | Some (QueuePush v) \<Rightarrow> v \<noteq> None
      | _ \<Rightarrow> True)"
  by (auto simp: change_ok_def change_effect_def split: option.splits change_operation.splits queue_value.splits)

fun item_ok :: "block_item \<Rightarrow> bool" where
  "item_ok (Some (StateChanges sc)) \<longleftrightarrow> consensus_timestamp sc \<noteq> None \<and> (\<forall>c \<in> set (changes sc). change_ok c)"
| "item_ok _ \<longleftrightarrow> True"

lemma changes_effect_ok: "\<forall>c \<in> set cs. change_ok c \<Longrightarrow> \<exists>t'. changes_effect h ts cs t = Some t'"
proof (induction cs arbitrary: t)
  case (Cons c cs)
  have "change_ok c" using Cons.prems by simp
  then have "change_effect h ts c t \<noteq> None" unfolding change_ok_def by blast
  then obtain t1 where "change_effect h ts c t = Some t1" by blast
  then show ?case using Cons by simp
qed simp

lemma items_effect_ok: "\<forall>x \<in> set xs. item_ok x \<Longrightarrow> \<exists>t'. items_effect h xs t = Some t'"
proof (induction h xs t rule: items_effect.induct)
  case (2 h sc xs t)
  then obtain ts t1 where "consensus_timestamp sc = Some ts" "changes_effect h ts (changes sc) t = Some t1"
    using changes_effect_ok by fastforce
  then show ?case using 2 by auto
qed auto

text \<open>The states a sequence of blocks goes through.\<close>

fun follows :: "(u64 \<Rightarrow> block) \<Rightarrow> u64 list \<Rightarrow> table \<Rightarrow> table \<Rightarrow> bool" where
  "follows blk [] t t' \<longleftrightarrow> t' = t"
| "follows blk (m # ms) t t' \<longleftrightarrow>
     (\<exists>h t1. heads t h \<and> items_effect h (items (blk m)) t = Some t1 \<and> follows blk ms t1 t')"

lemma follows_snoc:
  "follows blk ms t t1 \<Longrightarrow> heads t1 h \<Longrightarrow> items_effect h (items (blk m)) t1 = Some t2 \<Longrightarrow> follows blk (ms @ [m]) t t2"
  by (induction ms arbitrary: t) auto

context persist_laws
begin

lemma apply_ok:
  assumes "persist_good view invar C cfg base s" and "decode_block C bs = Inr b" and "\<forall>x \<in> set (items b). item_ok x"
  shows "\<exists>db' h t'. apply_state_changes R C n bs (ps_db s) = Inr db' \<and> invar db' \<and>
    heads (view (ps_db s) CF_STATE_DATA) h \<and> items_effect h (items b) (view (ps_db s) CF_STATE_DATA) = Some t' \<and>
    view db' = state_write (view (ps_db s)) n t'"
proof -
  have inv: "invar (ps_db s)" using assms(1) by (simp add: persist_good_def)
  obtain t' where t': "items_effect (queue_head R (ps_db s)) (items b) (view (ps_db s) CF_STATE_DATA) = Some t'"
    using items_effect_ok [OF assms(3)] by blast
  then obtain db' where "apply_state_changes R C n bs (ps_db s) = Inr db'" "invar db'" "view db' = state_write (view (ps_db s)) n t'"
    using apply_state_changes_eq [OF inv, of C n bs] assms(2) by (auto simp: state_write_def)
  with t' queue_heads [OF inv] show ?thesis by blast
qed

lemma catch_up_follows:
  assumes "persist_good view invar C cfg base s"
    and "\<forall>m \<in> set ms. \<exists>bs. fst (read_block R C s m) = Inr (Some bs) \<and> decode_block C bs = Inr (blk m) \<and>
      (\<forall>x \<in> set (items (blk m)). item_ok x)"
  shows "persist_good view invar C cfg base (catch_up R C (persistence_reader R C) ms s) \<and>
    follows blk ms (view (ps_db s) CF_STATE_DATA) (view (ps_db (catch_up R C (persistence_reader R C) ms s)) CF_STATE_DATA) \<and>
    (\<forall>m. fst (read_block R C (catch_up R C (persistence_reader R C) ms s) m) = fst (read_block R C s m))"
  using assms
proof (induction ms arbitrary: s)
  case (Cons m ms)
  obtain bs where bs: "fst (read_block R C s m) = Inr (Some bs)" "decode_block C bs = Inr (blk m)" "\<forall>x \<in> set (items (blk m)). item_ok x"
    using Cons.prems(2) by auto
  obtain db' h t' where a: "apply_state_changes R C m bs (ps_db s) = Inr db'" "invar db'"
    "heads (view (ps_db s) CF_STATE_DATA) h" "items_effect h (items (blk m)) (view (ps_db s) CF_STATE_DATA) = Some t'"
    "view db' = state_write (view (ps_db s)) m t'"
    using apply_ok [OF Cons.prems(1) bs(2,3)] by blast
  note w = state_write_good [OF Cons.prems(1) a(2,5)]
  have step: "catch_up R C (persistence_reader R C) (m # ms) s = catch_up R C (persistence_reader R C) ms (s\<lparr>ps_db := db'\<rparr>)"
    by (simp add: apply_state_from_storage_def persistence_reader_def bs(1) a(1) res_simps)
  have "\<forall>m \<in> set ms. \<exists>bs. fst (read_block R C (s\<lparr>ps_db := db'\<rparr>) m) = Inr (Some bs) \<and> decode_block C bs = Inr (blk m) \<and>
      (\<forall>x \<in> set (items (blk m)). item_ok x)" using Cons.prems(2) w(2) by simp
  note IH = Cons.IH [OF w(1) this]
  have t': "view db' CF_STATE_DATA = t'" by (simp add: a(5) state_write_def)
  have "follows blk (m # ms) (view (ps_db s) CF_STATE_DATA)
      (view (ps_db (catch_up R C (persistence_reader R C) ms (s\<lparr>ps_db := db'\<rparr>))) CF_STATE_DATA)"
    unfolding follows.simps using a(3,4) IH t' by (intro exI [of _ h] exI [of _ t']) simp
  with IH w(2) show ?case unfolding step by simp
qed simp

end

text \<open>A block with pops of one queue only.\<close>

definition pop_block :: "bytes \<Rightarrow> u32 \<Rightarrow> nat \<Rightarrow> block" where
  "pop_block ts sid k = \<lparr>items = [Some (StateChanges \<lparr>consensus_timestamp = Some ts,
     changes = replicate k \<lparr>state_id = sid, change_operation = Some QueuePop\<rparr>\<rparr>)]\<rparr>"

section \<open>The entries of one state\<close>

fun item_changes :: "block_item \<Rightarrow> state_change list" where
  "item_changes (Some (StateChanges sc)) = changes sc"
| "item_changes _ = []"

definition block_changes :: "block \<Rightarrow> state_change list" where
  "block_changes b = concat (map item_changes (items b))"

text \<open>A pop of a queue that had an element when the block began.\<close>

definition pop_filled :: "table \<Rightarrow> state_change \<Rightarrow> bool" where
  "pop_filled t c \<longleftrightarrow> (change_operation c = Some QueuePop \<longrightarrow> (\<exists>r. t (u32_to_be (state_id c) @ r) \<noteq> None))"

lemma heads_first:
  assumes "heads t h" and "t k \<noteq> None" and "u32_to_be sid \<le> k"
  shows "\<exists>k0. h sid = Some k0 \<and> t k0 \<noteq> None \<and> u32_to_be sid \<le> k0 \<and> k0 \<le> k"
proof -
  have "case h sid of
      None \<Rightarrow> \<forall>k. t k \<noteq> None \<longrightarrow> \<not> u32_to_be sid \<le> k
    | Some k \<Rightarrow> t k \<noteq> None \<and> u32_to_be sid \<le> k \<and> (\<forall>k'. t k' \<noteq> None \<and> u32_to_be sid \<le> k' \<longrightarrow> k \<le> k')"
    using assms(1) unfolding heads_def by blast
  with assms(2,3) show ?thesis by (cases "h sid") auto
qed

text \<open>The first key from the id of a filled queue on belongs to the queue.\<close>

lemma heads_filled:
  assumes "heads t h" and "t (u32_to_be sid @ r) \<noteq> None"
  shows "\<exists>r'. h sid = Some (u32_to_be sid @ r')"
proof -
  obtain k where "h sid = Some k" "u32_to_be sid \<le> k" "k \<le> u32_to_be sid @ r"
    using heads_first [OF assms le_extension] by blast
  then show ?thesis using between_extension by blast
qed

lemma change_effect_frame:
  assumes "heads t0 h" and "pop_filled t0 c" and "state_id c \<noteq> sid" and "change_effect h ts c t = Some t'"
  shows "t' (u32_to_be sid @ r) = t (u32_to_be sid @ r)"
proof -
  have "u32_to_be sid @ r \<noteq> u32_to_be (state_id c) @ []" using assms(3) by (subst append_eq_append_conv) simp_all
  then have ne: "u32_to_be sid @ r \<noteq> u32_to_be (state_id c)" "sid \<noteq> state_id c" using assms(3) by simp_all
  show ?thesis
  proof (cases "change_operation c = Some QueuePop")
    case True
    then obtain r' where "h (state_id c) = Some (u32_to_be (state_id c) @ r')"
      using assms(2) heads_filled [OF assms(1)] by (auto simp: pop_filled_def)
    then have "t' = t(u32_to_be (state_id c) @ r' := None)" using assms(4) True by (simp add: change_effect_def)
    then show ?thesis using assms(3) by simp
  next
    case False
    then show ?thesis
      using assms(4) ne
      by (auto simp: change_effect_def split: option.splits change_operation.splits queue_value.splits)
  qed
qed

lemma changes_effect_frame:
  "heads t0 h \<Longrightarrow> \<forall>c \<in> set cs. pop_filled t0 c \<and> state_id c \<noteq> sid \<Longrightarrow> changes_effect h ts cs t = Some t' \<Longrightarrow>
    t' (u32_to_be sid @ r) = t (u32_to_be sid @ r)"
  by (induction cs arbitrary: t) (auto simp: Option.bind_eq_Some_conv change_effect_frame)

lemma items_effect_frame:
  "heads t0 h \<Longrightarrow> \<forall>c \<in> set (concat (map item_changes xs)). pop_filled t0 c \<and> state_id c \<noteq> sid \<Longrightarrow>
    items_effect h xs t = Some t' \<Longrightarrow> t' (u32_to_be sid @ r) = t (u32_to_be sid @ r)"
proof (induction h xs t rule: items_effect.induct)
  case (2 h sc xs t)
  then obtain ts t1 where 1: "consensus_timestamp sc = Some ts" "changes_effect h ts (changes sc) t = Some t1"
    "items_effect h xs t1 = Some t'" by (auto simp: Option.bind_eq_Some_conv split: option.splits)
  have "t1 (u32_to_be sid @ r) = t (u32_to_be sid @ r)"
    using changes_effect_frame [OF 2(2) _ 1(2)] 2(3) by simp
  then show ?case using 2(1) [OF 1(1,2) 2(2) _ 1(3)] 2(3) by simp
qed auto

context rocksdb_laws
begin

lemma get_state_value_eq: "invar db \<Longrightarrow> get_state_value R k db = Inr (view db CF_STATE_DATA k)"
  by (simp add: get_state_value_def require_cf_def cf_ok get_ok res_simps)

end

section \<open>Properties\<close>

text \<open>
  C12: A block changes the state as specified, at once. Applying the bytes of a block fails exactly if they
  do not decode or a change is incomplete; otherwise the state is changed by the changes of the block
  in order, where every pop removes the first key its queue had before the block, the block becomes
  the last processed one, and nothing else in the database changes.
\<close>

theorem state_changes_refine:
  assumes "rocksdb_laws R view invar" and "invar db"
  shows "\<exists>h. heads (view db CF_STATE_DATA) h \<and>
    (case decode_block C bs of
       Inl e \<Rightarrow> apply_state_changes R C n bs db = Inl e
     | Inr b \<Rightarrow>
         (case items_effect h (items b) (view db CF_STATE_DATA) of
            None \<Rightarrow> \<exists>e. apply_state_changes R C n bs db = Inl e
          | Some t' \<Rightarrow> \<exists>db'. apply_state_changes R C n bs db = Inr db' \<and> invar db' \<and>
              view db' = (view db)(CF_STATE_DATA := t',
                CF_METADATA := (view db CF_METADATA)(STATE_LAST_PROCESSED_BLOCK \<mapsto> u64_to_be n))))"
  using rocksdb_laws.queue_heads [OF assms] rocksdb_laws.apply_state_changes_eq [OF assms] by blast

text \<open>
  C11: The state follows the chain. When an event arrives for a block at or after the expected one, the
  blocks in between can be read from storage, the block of the event is still in the cache, and all changes
  of these blocks are complete, the loop brings the state through every block from the expected one to that
  of the event, in order and once each, remembers that block, goes on running, and leaves every stored
  block readable as before.
\<close>

theorem state_follows_chain:
  assumes "persist_laws R view invar C" and "persist_good view invar C cfg base (sp_store p)"
    and "expected_block (sp_last p) \<le> block_number ev"
    and "\<forall>m \<in> set (u64_range (expected_block (sp_last p)) (block_number ev)).
      \<exists>bs. fst (read_block R C (sp_store p) m) = Inr (Some bs) \<and> decode_block C bs = Inr (blk m)"
    and "cache_get (cache_key ev) (sp_cache p) = Some d" and "decode_block C (bd_contents d) = Inr (blk (block_number ev))"
    and "\<forall>m. \<forall>x \<in> set (items (blk m)). item_ok x"
  shows "\<exists>p'. state_event R C (persistence_reader R C) ev p = p' \<and> sp_last p' = Some (block_number ev) \<and>
    sp_running p' = sp_running p \<and>
    follows blk (u64_range (expected_block (sp_last p)) (block_number ev) @ [block_number ev])
      (view (ps_db (sp_store p)) CF_STATE_DATA) (view (ps_db (sp_store p')) CF_STATE_DATA) \<and>
    persist_good view invar C cfg base (sp_store p') \<and>
    (\<forall>m. fst (read_block R C (sp_store p') m) = fst (read_block R C (sp_store p) m))"
proof -
  let ?e = "expected_block (sp_last p)" and ?n = "block_number ev" and ?rd = "persistence_reader R C"
  define s1 where "s1 = catch_up R C ?rd (u64_range ?e ?n) (sp_store p)"
  have "u64_range ?e ?n = []" if "?n = ?e" by (simp add: u64_range_def that)
  then have s1: "s1 = (if ?n > ?e then catch_up R C ?rd (u64_range ?e ?n) (sp_store p) else sp_store p)"
    using assms(3) by (auto simp: s1_def)
  have ready: "\<forall>m \<in> set (u64_range ?e ?n). \<exists>bs. fst (read_block R C (sp_store p) m) = Inr (Some bs) \<and>
      decode_block C bs = Inr (blk m) \<and> (\<forall>x \<in> set (items (blk m)). item_ok x)" using assms(4,7) by blast
  have c: "persist_good view invar C cfg base s1"
    "follows blk (u64_range ?e ?n) (view (ps_db (sp_store p)) CF_STATE_DATA) (view (ps_db s1) CF_STATE_DATA)"
    "\<And>m. fst (read_block R C s1 m) = fst (read_block R C (sp_store p) m)"
    using persist_laws.catch_up_follows [OF assms(1,2) ready] by (simp_all add: s1_def)
  obtain db' h t' where a: "apply_state_changes R C ?n (bd_contents d) (ps_db s1) = Inr db'" "invar db'"
    "heads (view (ps_db s1) CF_STATE_DATA) h" "items_effect h (items (blk ?n)) (view (ps_db s1) CF_STATE_DATA) = Some t'"
    "view db' = state_write (view (ps_db s1)) ?n t'"
    using persist_laws.apply_ok [OF assms(1) c(1) assms(6)] assms(7) by blast
  note w = persist_laws.state_write_good [OF assms(1) c(1) a(2,5)]
  have run: "state_event R C ?rd ev p =
      p\<lparr>sp_store := s1\<lparr>ps_db := db'\<rparr>, sp_cache := mark_for_removal (cache_key ev) (sp_cache p), sp_last := Some ?n\<rparr>"
    using assms(3) unfolding state_event_def Let_def s1 [symmetric]
    by (simp add: apply_state_from_block_event_def assms(5) a(1) res_simps not_less [symmetric])
  have "follows blk (u64_range ?e ?n @ [?n]) (view (ps_db (sp_store p)) CF_STATE_DATA) (view db' CF_STATE_DATA)"
    using follows_snoc [OF c(2) a(3,4)] by (simp add: a(5) state_write_def)
  then show ?thesis unfolding run using w c(3) by simp
qed

text \<open>
  C21: Catching up from storage is the same as following events. Once the persistence service has stored a
  block from the cache, applying it from storage has the same result, and the same error if any, as
  applying the cached contents for its event.
\<close>

theorem storage_equals_event:
  assumes "persist_laws R view invar C" and "archive_batch_size cfg \<noteq> 0"
    and "persist_good view invar C cfg (saturating_sub start 1) s"
    and "cache_get (inbound_cache_key event) bc = Some d" and "decode_block C (bd_contents d) = Inr b"
    and "get_block_number b = Inr (inbound_block_number event)" and "persist_fits C s b"
    and "process_event R C cfg start event bc s = Some ([ev], bc', s')"
  shows "apply_state_from_storage R C (persistence_reader R C) (block_number ev) s' =
    map_sum id snd (apply_state_from_block_event R C ev bc s')"
proof -
  let ?n = "inbound_block_number event"
  have inv: "invar (ps_db s)" "persist_inv C cfg (saturating_sub start 1) (view (ps_db s)) (ps_disk s) (ps_indices s)"
    "archive_ok C cfg (view (ps_db s)) (ps_disk s) (ps_indices s)"
    using assms(3) by (auto simp: persist_good_def persist_inv_def)
  have n: "?n \<noteq> u64_MAX" using assms(6,7) small_not_max by (simp add: persist_fits_def)
  obtain s1 where w: "write_block R C cfg start b s = Some (Inr (), s1)"
    "read_block R C s1 ?n = (Inr (Some (encode_to_vec C b)), s1)"
    using persist_laws.write_read [OF assms(1) inv(1,3) assms(6) n persist_inv_marks [OF inv(2)] assms(2)] by blast
  have ev: "ev = \<lparr>block_number = ?n, cache_key = inbound_cache_key event\<rparr>" "s' = s1"
    using assms(8) by (simp_all add: process_event_def Let_def assms(4,5) w(1))
  have "apply_state_changes R C ?n (encode_to_vec C b) db = apply_state_changes R C ?n (bd_contents d) db" for db
    by (simp add: apply_state_changes_def assms(5) codec_laws.decode_encode [OF persist_laws.axioms(2) [OF assms(1)]])
  then show ?thesis
    by (cases "apply_state_changes R C ?n (bd_contents d) (ps_db s1)")
      (simp_all add: apply_state_from_storage_def apply_state_from_block_event_def persistence_reader_def ev w(2) assms(4) res_simps)
qed

text \<open>
  The state plugin can lose its block to the cleanup of the persistence service. Once the service has
  announced a block and finished with it, its contents are gone from the cache, so the event loop, even if
  it is exactly at that block, stops with the state unchanged.
\<close>

lemma persisted_event_halts_state:
  assumes "process_event R C cfg start event bc s = Some ([ev], bc', s')"
    and "expected_block (sp_last p) = block_number ev" and "sp_cache p = bc'"
  shows "state_event R C rd ev p = p\<lparr>sp_running := False\<rparr>"
proof -
  have "cache_get (cache_key ev) bc' = None"
    using assms(1) by (auto simp: process_event_def Let_def mark_for_removal_def cache_get_def split: option.splits sum.splits)
  then show ?thesis using assms(2,3) by (simp add: state_event_def Let_def apply_state_from_block_event_def)
qed

text \<open>
  C38: A failed catch-up skips blocks for good. When the expected block cannot be read from storage, the loop
  still applies the later block of the event to the old state, takes it as the last processed one, and
  ignores the skipped blocks when their events come.
\<close>

theorem failed_catch_up_skips:
  assumes "expected_block (sp_last p) < block_number ev"
    and "br_read rd (sp_store p) (expected_block (sp_last p)) = Inr None"
    and "apply_state_from_block_event R C ev (sp_cache p) (sp_store p) = Inr (bc', s')"
    and "block_number ev \<noteq> u64_MAX" and "block_number late \<le> block_number ev"
  shows "state_event R C rd ev p = p\<lparr>sp_store := s', sp_cache := bc', sp_last := Some (block_number ev)\<rparr> \<and>
    state_event R C rd late (state_event R C rd ev p) = state_event R C rd ev p"
proof -
  let ?e = "expected_block (sp_last p)"
  have "[unat ?e..<unat (block_number ev)] = unat ?e # [Suc (unat ?e)..<unat (block_number ev)]"
    using assms(1) by (simp add: word_less_nat_alt upt_conv_Cons)
  then have "catch_up R C rd (u64_range ?e (block_number ev)) (sp_store p) = sp_store p"
    using assms(2) by (simp add: u64_range_def apply_state_from_storage_def res_simps)
  then have step: "state_event R C rd ev p = p\<lparr>sp_store := s', sp_cache := bc', sp_last := Some (block_number ev)\<rparr>"
    using assms(1,3) by (simp add: state_event_def Let_def)
  have "block_number late < block_number ev + 1"
    using assms(4,5) by (simp add: word_less_nat_alt word_le_nat_alt u64_succ_unat)
  then show ?thesis by (simp add: step) (simp add: state_event_def Let_def expected_block_def)
qed

text \<open>
  Only one element leaves a queue per block. A block with any positive number of pops of one queue has
  the effect of a block with a single pop, since every pop looks at the queue before the block.
\<close>

lemma pops_of_a_block_collapse:
  assumes "rocksdb_laws R view invar" and "codec_laws C" and "invar db"
  shows "\<exists>db1 db2. apply_state_changes R C n (encode_to_vec C (pop_block ts sid (Suc k))) db = Inr db1 \<and>
    apply_state_changes R C n (encode_to_vec C (pop_block ts sid 1)) db = Inr db2 \<and> view db1 = view db2"
proof -
  let ?h = "queue_head R db" and ?c = "\<lparr>state_id = sid, change_operation = Some QueuePop\<rparr>"
  define u where "u = (\<lambda>t :: table. case ?h sid of None \<Rightarrow> t | Some k \<Rightarrow> t(k := None))"
  have pop: "change_effect ?h ts ?c t = Some (u t)" "change_effect ?h ts ?c (u t) = Some (u t)" for t
    by (cases "?h sid"; simp add: change_effect_def u_def)+
  have "changes_effect ?h ts (replicate j ?c) (u t) = Some (u t)" for j t by (induction j) (simp_all add: pop(2))
  then have eff: "items_effect ?h (items (pop_block ts sid (Suc j))) t = Some (u t)" for j t
    by (simp add: pop_block_def pop(1))
  from rocksdb_laws.apply_state_changes_eq [OF assms(1,3), of C n "encode_to_vec C (pop_block ts sid (Suc k))"]
    rocksdb_laws.apply_state_changes_eq [OF assms(1,3), of C n "encode_to_vec C (pop_block ts sid (Suc 0))"]
  show ?thesis by (auto simp: codec_laws.decode_encode [OF assms(2)] eff)
qed

text \<open>
  C22: States do not disturb each other. When a block has been applied and each of its pops met a queue with
  an element, every entry of a state whose id no change of the block carries reads as before.
\<close>

theorem state_ids_isolated:
  assumes "rocksdb_laws R view invar" and "invar db" and "decode_block C bs = Inr b"
    and "apply_state_changes R C n bs db = Inr db'"
    and "\<forall>c \<in> set (block_changes b). change_operation c = Some QueuePop \<longrightarrow>
      (\<exists>r v. get_state_value R (u32_to_be (state_id c) @ r) db = Inr (Some v))"
    and "sid \<notin> state_id ` set (block_changes b)"
  shows "get_state_value R (u32_to_be sid @ key) db' = get_state_value R (u32_to_be sid @ key) db"
proof -
  let ?t = "view db CF_STATE_DATA"
  obtain t' where t': "items_effect (queue_head R db) (items b) ?t = Some t'"
    and db': "invar db'" "view db' CF_STATE_DATA = t'"
    using rocksdb_laws.apply_state_changes_eq [OF assms(1,2), of C n bs] assms(3,4) by (auto split: option.splits)
  have "\<forall>c \<in> set (concat (map item_changes (items b))). pop_filled ?t c \<and> state_id c \<noteq> sid"
    using assms(5,6) rocksdb_laws.get_state_value_eq [OF assms(1,2)] by (auto simp: block_changes_def pop_filled_def)
  from items_effect_frame [OF rocksdb_laws.queue_heads [OF assms(1,2)] this t']
  show ?thesis using rocksdb_laws.get_state_value_eq [OF assms(1)] assms(2) db' by simp
qed

text \<open>
  C39: A pop of an empty queue removes an entry of another state. When a state has no entry, and the first
  entry after its place belongs to a state with a greater id, a block with one pop of the empty state is
  applied without error and deletes that entry, and only that one.
\<close>

theorem empty_queue_pop_deletes_other:
  assumes "rocksdb_laws R view invar" and "codec_laws C" and "invar db" and "sid < other"
    and "get_state_value R (u32_to_be other @ key) db = Inr (Some v)"
    and "\<forall>k. u32_to_be sid \<le> k \<and> k < u32_to_be other @ key \<longrightarrow> get_state_value R k db = Inr None"
  shows "\<exists>db'. apply_state_changes R C n (encode_to_vec C (pop_block ts sid 1)) db = Inr db' \<and>
    (\<forall>k. get_state_value R k db' = (if k = u32_to_be other @ key then Inr None else get_state_value R k db))"
proof -
  let ?t = "view db CF_STATE_DATA" and ?k = "u32_to_be other @ key" and ?h = "queue_head R db"
  note get = rocksdb_laws.get_state_value_eq [OF assms(1)]
  have entry: "?t ?k = Some v" and gap: "\<And>k. u32_to_be sid \<le> k \<Longrightarrow> k < ?k \<Longrightarrow> ?t k = None"
    using assms(5,6) get [OF assms(3)] by auto
  have "u32_to_be sid < ?k" using less_extension [of "u32_to_be sid" "u32_to_be other" key] assms(4) by simp
  then obtain k where k: "?h sid = Some k" "?t k \<noteq> None" "u32_to_be sid \<le> k" "k \<le> ?k"
    using heads_first [OF rocksdb_laws.queue_heads [OF assms(1,3)], of ?k sid] entry less_imp_le by blast
  then have "?h sid = Some ?k" using gap [OF k(3)] by (cases "k = ?k") auto
  then have "items_effect ?h (items (pop_block ts sid 1)) ?t = Some (?t(?k := None))"
    by (simp add: pop_block_def change_effect_def)
  then obtain db' where "apply_state_changes R C n (encode_to_vec C (pop_block ts sid 1)) db = Inr db'" "invar db'"
    "view db' CF_STATE_DATA = ?t(?k := None)"
    using rocksdb_laws.apply_state_changes_eq [OF assms(1,3), of C n "encode_to_vec C (pop_block ts sid 1)"]
    by (auto simp: codec_laws.decode_encode [OF assms(2)])
  then show ?thesis using get assms(3) by (intro exI [of _ db']) simp
qed

section \<open>Examples\<close>

text \<open>A block that sets one entry, in the cache.\<close>

definition state_block :: "u64 \<Rightarrow> block" where
  "state_block n = \<lparr>items = [Some (BlockHeader n []), Some (StateChanges \<lparr>consensus_timestamp = Some [1],
     changes = [\<lparr>state_id = 7, change_operation = Some (MapUpdate (Some [1]) (Some [2]))\<rparr>]\<rparr>)]\<rparr>"

definition cached_block :: "u64 \<Rightarrow> block \<Rightarrow> block_data_cache" where
  "cached_block n b = \<lparr>cache = [9 \<mapsto> (\<lparr>bd_block_number = n, bd_contents = encode_to_vec ref_codec b\<rparr>, 0)], cleanup_queue = {}\<rparr>"

lemma cached_block_get: "cache_get 9 (cached_block n b) = Some \<lparr>bd_block_number = n, bd_contents = encode_to_vec ref_codec b\<rparr>"
  by (simp add: cache_get_def cached_block_def)

lemma state_block_ok: "\<forall>x \<in> set (items (state_block n)). item_ok x"
  by (simp add: state_block_def change_ok_iff)

abbreviation state_ev :: "u64 \<Rightarrow> block_persisted" where
  "state_ev n \<equiv> \<lparr>block_number = n, cache_key = 9\<rparr>"

theorem state_changes_refine_witness:
  "\<exists>db'. apply_state_changes ref_rocksdb ref_codec 0 (encode_to_vec ref_codec (state_block 0)) ref_empty = Inr db' \<and>
    ref_view db' CF_STATE_DATA (u32_to_be 7 @ [1]) = Some [2]"
  using state_changes_refine [of ref_rocksdb ref_view ref_invar ref_empty ref_codec 0 "encode_to_vec ref_codec (state_block 0)",
      OF ref.rocksdb_laws_axioms ref_invar_empty]
  by (auto simp: refc.decode_encode state_block_def change_effect_def)

theorem state_follows_chain_witness:
  "\<exists>s. fst (read_block ref_rocksdb ref_codec s 1) = Inr (Some (encode_to_vec ref_codec (example_block 1))) \<and>
    sp_last (state_event ref_rocksdb ref_codec (persistence_reader ref_rocksdb ref_codec) (state_ev 2)
      \<lparr>sp_store = s, sp_cache = cached_block 2 (state_block 2), sp_last = Some 0, sp_running = True\<rparr>) = Some 2"
proof -
  obtain s where s: "persist_good ref_view ref_invar ref_codec default_persistence_config 0 s"
    "fst (read_block ref_rocksdb ref_codec s 1) = Inr (Some (encode_to_vec ref_codec (example_block 1)))"
    using stored_example [of 1] by auto
  let ?p = "\<lparr>sp_store = s, sp_cache = cached_block 2 (state_block 2), sp_last = Some 0, sp_running = True\<rparr>"
  let ?blk = "\<lambda>m. if m = 1 then example_block 1 else state_block 2"
  have range: "u64_range 1 2 = [1]" by (simp add: u64_range_def upt_rec)
  have "\<exists>p'. state_event ref_rocksdb ref_codec (persistence_reader ref_rocksdb ref_codec) (state_ev 2) ?p = p' \<and>
      sp_last p' = Some (block_number (state_ev 2)) \<and> sp_running p' = sp_running ?p \<and>
      follows ?blk (u64_range (expected_block (sp_last ?p)) (block_number (state_ev 2)) @ [block_number (state_ev 2)])
        (ref_view (ps_db (sp_store ?p)) CF_STATE_DATA) (ref_view (ps_db (sp_store p')) CF_STATE_DATA) \<and>
      persist_good ref_view ref_invar ref_codec default_persistence_config 0 (sp_store p') \<and>
      (\<forall>m. fst (read_block ref_rocksdb ref_codec (sp_store p') m) = fst (read_block ref_rocksdb ref_codec (sp_store ?p) m))"
    by (rule state_follows_chain [of ref_rocksdb ref_view ref_invar, OF refp.persist_laws_axioms, where
          d = "\<lparr>bd_block_number = 2, bd_contents = encode_to_vec ref_codec (state_block 2)\<rparr>"])
      (use s state_block_ok [of 2] in \<open>simp_all add: expected_block_def range refc.decode_encode cached_block_get\<close>)
  with s(2) show ?thesis by auto
qed

theorem failed_catch_up_skips_witness:
  "\<exists>bc' s'. state_event ref_rocksdb ref_codec (persistence_reader ref_rocksdb ref_codec) (state_ev 1)
      \<lparr>sp_store = empty_state, sp_cache = cached_block 1 (state_block 1), sp_last = None, sp_running = True\<rparr> =
    \<lparr>sp_store = s', sp_cache = bc', sp_last = Some 1, sp_running = True\<rparr>"
proof -
  let ?p = "\<lparr>sp_store = empty_state, sp_cache = cached_block 1 (state_block 1), sp_last = None, sp_running = True\<rparr>"
  note empty_state_reads [of 0]
  moreover obtain db' where "apply_state_changes ref_rocksdb ref_codec 1 (encode_to_vec ref_codec (state_block 1)) ref_empty = Inr db'"
    using refp.apply_ok [OF empty_state_good refc.decode_encode state_block_ok] by fastforce
  ultimately show ?thesis
    using failed_catch_up_skips [of ?p "state_ev 1" "persistence_reader ref_rocksdb ref_codec" ref_rocksdb ref_codec
        "mark_for_removal 9 (cached_block 1 (state_block 1))" "empty_state\<lparr>ps_db := db'\<rparr>" "state_ev 0"]
    by (simp add: expected_block_def persistence_reader_def apply_state_from_block_event_def cached_block_get res_simps)
qed

text \<open>A state with one entry of the state 7.\<close>

definition one_entry :: ref_db where
  "one_entry = ref_empty(CF_STATE_DATA := [(u32_to_be 7 @ [1], [2])])"

lemma one_entry_invar: "ref_invar one_entry"
  by (simp add: ref_invar_def one_entry_def ref_empty_def)

lemma one_entry_view: "ref_view one_entry CF_STATE_DATA = [u32_to_be 7 @ [1] \<mapsto> [2]]"
  by (simp add: ref_view_def one_entry_def)

theorem state_ids_isolated_witness:
  "\<exists>db'. apply_state_changes ref_rocksdb ref_codec 1 (encode_to_vec ref_codec (pop_block [1] 7 1)) one_entry = Inr db' \<and>
    get_state_value ref_rocksdb (u32_to_be 8 @ [1]) db' = Inr None"
proof -
  obtain t' where "items_effect (queue_head ref_rocksdb one_entry) (items (pop_block [1] 7 1)) (ref_view one_entry CF_STATE_DATA) = Some t'"
    using items_effect_ok [of "items (pop_block [1] 7 1)"] by (fastforce simp: pop_block_def change_ok_iff)
  then obtain db' where db': "apply_state_changes ref_rocksdb ref_codec 1 (encode_to_vec ref_codec (pop_block [1] 7 1)) one_entry = Inr db'"
    using ref.apply_state_changes_eq [OF one_entry_invar, of ref_codec 1 "encode_to_vec ref_codec (pop_block [1] 7 1)"]
    by (auto simp: refc.decode_encode)
  have "get_state_value ref_rocksdb (u32_to_be 8 @ [1]) db' = get_state_value ref_rocksdb (u32_to_be 8 @ [1]) one_entry"
    by (rule state_ids_isolated [OF ref.rocksdb_laws_axioms one_entry_invar refc.decode_encode db'])
      (auto simp: block_changes_def pop_block_def ref.get_state_value_eq [OF one_entry_invar] one_entry_view)
  with db' show ?thesis by (auto simp: ref.get_state_value_eq [OF one_entry_invar] one_entry_view)
qed

theorem empty_queue_pop_deletes_other_witness:
  "\<exists>db'. get_state_value ref_rocksdb (u32_to_be 7 @ [1]) one_entry = Inr (Some [2]) \<and>
    apply_state_changes ref_rocksdb ref_codec 1 (encode_to_vec ref_codec (pop_block [1] 3 1)) one_entry = Inr db' \<and>
    get_state_value ref_rocksdb (u32_to_be 7 @ [1]) db' = Inr None"
proof -
  have get: "get_state_value ref_rocksdb k one_entry = Inr (if k = u32_to_be 7 @ [1] then Some [2] else None)" for k
    by (simp add: ref.get_state_value_eq [OF one_entry_invar] one_entry_view)
  then have "\<forall>k. u32_to_be 3 \<le> k \<and> k < u32_to_be 7 @ [1] \<longrightarrow> get_state_value ref_rocksdb k one_entry = Inr None" by simp
  from empty_queue_pop_deletes_other [OF ref.rocksdb_laws_axioms refc.codec_laws_axioms one_entry_invar _ _ this, of "[2]" 1 "[1]"]
  show ?thesis using get by fastforce
qed

theorem storage_equals_event_witness:
  "\<exists>s' bc'. process_event ref_rocksdb ref_codec default_persistence_config 0 example_event example_cache empty_state =
      Some ([\<lparr>block_number = 4, cache_key = 1\<rparr>], bc', s') \<and>
    apply_state_from_storage ref_rocksdb ref_codec (persistence_reader ref_rocksdb ref_codec) 4 s' =
      map_sum id snd (apply_state_from_block_event ref_rocksdb ref_codec \<lparr>block_number = 4, cache_key = 1\<rparr> example_cache s')"
proof -
  obtain bc' s' where p: "process_event ref_rocksdb ref_codec default_persistence_config 0 example_event example_cache empty_state =
      Some ([\<lparr>block_number = 4, cache_key = 1\<rparr>], bc', s')" using example_event_runs by blast
  have "apply_state_from_storage ref_rocksdb ref_codec (persistence_reader ref_rocksdb ref_codec)
        (block_number (\<lparr>block_number = 4, cache_key = 1\<rparr> :: block_persisted)) s' =
      map_sum id snd (apply_state_from_block_event ref_rocksdb ref_codec \<lparr>block_number = 4, cache_key = 1\<rparr> example_cache s')"
    by (rule storage_equals_event [of ref_rocksdb ref_view ref_invar, OF refp.persist_laws_axioms _ _ _ _ _ _ p, where
          d = "\<lparr>bd_block_number = 4, bd_contents = encode_to_vec ref_codec (example_block 4)\<rparr>" and b = "example_block 4"])
      (use empty_state_good example_compressed [of 4] in
        \<open>simp_all add: default_persistence_config_def saturating_sub_def cache_get_def cache_insert_def refc.decode_encode
          get_block_number_def persist_fits_def cold_numbers_def\<close>)
  then show ?thesis using p by auto
qed

end
