(* ===== verification/Query_Types.thy ===== *)
theory Query_Types
  imports State_Mgmt
begin

text \<open>
  The messages of the query services (\<^verbatim>\<open>rock-node-query-plugin\<close>), which are generated code: the ids,
  the state values the handlers read with the fields they use, the queries, and the responses with the
  fields they set. Messages that are only passed on are kept as their encoding. The encodings are a
  parameter, and so are the numbers of the state identifiers and the hexadecimal encoder.
\<close>

section \<open>Ids and keys\<close>

datatype account_num = AccountNum i64 | AccountAlias bytes

record account_id =
  aid_shard :: i64
  aid_realm :: i64
  aid_account :: "account_num option"

datatype contract_num = ContractNum i64 | EvmAddress bytes

record contract_id =
  cid_shard :: i64
  cid_realm :: i64
  cid_contract :: "contract_num option"

record entity_id =
  eid_shard :: i64
  eid_realm :: i64
  eid_num :: i64

record nft_id =
  nid_token :: "entity_id option"
  nid_serial :: i64

text \<open>Tokens, files, topics and schedules have ids of the same form.\<close>

datatype map_change_key =
    AccountIdKey account_id
  | ContractIdKey contract_id
  | FileIdKey entity_id
  | TokenIdKey entity_id
  | TopicIdKey entity_id
  | ScheduleIdKey entity_id
  | NftIdKey nft_id
  | TokenRelationshipKey "entity_id option" "account_id option"

datatype state_identifier =
    StateIdAccounts
  | StateIdTokens
  | StateIdNfts
  | StateIdTokenRelations
  | StateIdTopics
  | StateIdSchedulesById
  | StateIdFiles
  | StateIdContractBytecode
  | StateIdBlockStreamInfo

section \<open>State values\<close>

datatype staked_id = StakedAccountId account_id | StakedNodeId i64

record crypto_allowance =
  ca_spender :: "account_id option"
  ca_amount :: i64

record nft_allowance =
  na_token :: "entity_id option"
  na_spender :: "account_id option"

record token_allowance =
  ta_token :: "entity_id option"
  ta_spender :: "account_id option"
  ta_amount :: i64

record account =
  acc_id :: "account_id option"
  acc_alias :: bytes
  acc_key :: "bytes option"
  acc_expiration_second :: i64
  acc_tinybar_balance :: i64
  acc_memo :: string
  acc_deleted :: bool
  acc_staked_to_me :: i64
  acc_stake_period_start :: i64
  acc_decline_reward :: bool
  acc_receiver_sig_required :: bool
  acc_head_token_id :: "entity_id option"
  acc_number_owned_nfts :: i64
  acc_max_auto_associations :: i64
  acc_number_associations :: i64
  acc_smart_contract :: bool
  acc_ethereum_nonce :: i64
  acc_auto_renew_seconds :: i64
  acc_contract_kv_pairs_number :: i64
  acc_crypto_allowances :: "crypto_allowance list"
  acc_approve_for_all_nft_allowances :: "nft_allowance list"
  acc_token_allowances :: "token_allowance list"
  acc_staked_id :: "staked_id option"

record token_relation =
  tr_token_id :: "entity_id option"
  tr_balance :: i64
  tr_frozen :: bool
  tr_kyc_granted :: bool
  tr_automatic_association :: bool
  tr_next_token :: "entity_id option"

record token_keys =
  tk_admin :: "bytes option"
  tk_kyc :: "bytes option"
  tk_freeze :: "bytes option"
  tk_wipe :: "bytes option"
  tk_supply :: "bytes option"
  tk_fee_schedule :: "bytes option"
  tk_pause :: "bytes option"
  tk_metadata :: "bytes option"

record token =
  tok_id :: "entity_id option"
  tok_name :: string
  tok_symbol :: string
  tok_decimals :: i64
  tok_total_supply :: i64
  tok_treasury :: "account_id option"
  tok_keys :: token_keys
  tok_accounts_frozen_by_default :: bool
  tok_accounts_kyc_granted_by_default :: bool
  tok_deleted :: bool
  tok_auto_renew_account :: "account_id option"
  tok_auto_renew_seconds :: i64
  tok_expiration_second :: i64
  tok_memo :: string
  tok_type :: i64
  tok_supply_type :: i64
  tok_max_supply :: i64
  tok_custom_fees :: "bytes list"
  tok_paused :: bool
  tok_metadata :: bytes

record nft =
  nft_nft_id :: "nft_id option"
  nft_owner :: "account_id option"
  nft_spender :: "account_id option"
  nft_mint_time :: "bytes option"
  nft_metadata :: bytes

record topic =
  top_memo :: string
  top_running_hash :: bytes
  top_sequence_number :: i64
  top_expiration_second :: i64
  top_auto_renew_period :: i64
  top_auto_renew_account :: "account_id option"
  top_admin_key :: "bytes option"
  top_submit_key :: "bytes option"
  top_fee_schedule_key :: "bytes option"
  top_fee_exempt_key_list :: "bytes list"
  top_custom_fees :: "bytes list"

record schedule =
  sch_memo :: string
  sch_admin_key :: "bytes option"
  sch_payer :: "account_id option"
  sch_scheduler :: "account_id option"
  sch_scheduled_transaction :: "bytes option"
  sch_signatories :: "bytes list"
  sch_wait_for_expiry :: bool

record stored_file =
  file_contents :: bytes
  file_expiration_second :: i64
  file_deleted :: bool
  file_keys :: "bytes option"
  file_memo :: string

datatype map_change_value =
    AccountValue account
  | TokenValue token
  | NftValue nft
  | TokenRelationValue token_relation
  | TopicValue topic
  | ScheduleValue schedule
  | FileValue stored_file
  | BytecodeValue bytes
  | OtherValue bytes

section \<open>Libraries\<close>

text \<open>
  The encoding of keys, the decoder of values, where a value may lack its choice, the decoder of the block
  stream info, which gives its software version, and the numbers of the state identifiers.
\<close>

record proto =
  encode_key :: "map_change_key \<Rightarrow> bytes"
  decode_value :: "bytes \<Rightarrow> map_change_value option res"
  decode_block_stream_info :: "bytes \<Rightarrow> bytes option res"
  state_number :: "state_identifier \<Rightarrow> u32"
  hex_encode :: "bytes \<Rightarrow> string"

section \<open>Queries and responses\<close>

datatype response_code_enum =
    RcOk
  | RcInvalidAccountId
  | RcInvalidTokenId
  | RcInvalidNftId
  | RcInvalidTopicId
  | RcInvalidScheduleId
  | RcInvalidFileId
  | RcInvalidContractId
  | RcReceiptNotFound
  | RcRecordNotFound
  | RcNotSupported

record response_header =
  precheck_code :: response_code_enum
  header_cost :: u64

definition build_response_header :: "response_code_enum \<Rightarrow> u64 \<Rightarrow> response_header" where
  "build_response_header code cost = \<lparr>precheck_code = code, header_cost = cost\<rparr>"

abbreviation header_of :: "response_code_enum \<Rightarrow> response_header" where
  "header_of code \<equiv> build_response_header code 0"

text \<open>A failed call has a status, or panics on a missing field.\<close>

datatype query_error =
    InvalidArgument string
  | Unimplemented string
  | InternalStatus string
  | InternalError string error
  | Panicked

type_synonym 'a answer = "(query_error, 'a) result"

record staking_info =
  si_staked_to_me :: i64
  si_stake_period_start :: "i64 option"
  si_decline_reward :: bool
  si_pending_reward :: i64
  si_staked_id :: "staked_id option"

text \<open>Timestamps without nanoseconds and durations are their seconds.\<close>

record account_info =
  ai_account_id :: account_id
  ai_contract_account_id :: string
  ai_memo :: string
  ai_key :: "bytes option"
  ai_balance :: u64
  ai_receiver_sig_required :: bool
  ai_deleted :: bool
  ai_auto_renew_period :: "i64 option"
  ai_expiration_time :: "i64 option"
  ai_staking_info :: staking_info
  ai_ethereum_nonce :: i64
  ai_owned_nfts :: i64
  ai_max_automatic_token_associations :: i64
  ai_alias :: bytes

record token_relationship =
  trs_token_id :: "entity_id option"
  trs_balance :: u64
  trs_kyc_status :: nat
  trs_freeze_status :: nat
  trs_decimals :: nat
  trs_automatic_association :: bool

record account_details =
  ad_account_id :: account_id
  ad_contract_account_id :: string
  ad_deleted :: bool
  ad_proxy_received :: i64
  ad_key :: "bytes option"
  ad_balance :: u64
  ad_receiver_sig_required :: bool
  ad_expiration_time :: i64
  ad_auto_renew_period :: i64
  ad_token_relationships :: "token_relationship list"
  ad_memo :: string
  ad_owned_nfts :: i64
  ad_max_automatic_token_associations :: i64
  ad_alias :: bytes
  ad_granted_crypto_allowances :: "crypto_allowance list"
  ad_granted_nft_allowances :: "nft_allowance list"
  ad_granted_token_allowances :: "token_allowance list"

record balance_response =
  br_header :: response_header
  br_account_id :: account_id
  br_balance :: u64

record topic_info =
  ti_memo :: string
  ti_running_hash :: bytes
  ti_sequence_number :: u64
  ti_expiration_time :: i64
  ti_admin_key :: "bytes option"
  ti_submit_key :: "bytes option"
  ti_auto_renew_period :: i64
  ti_auto_renew_account :: "account_id option"
  ti_fee_schedule_key :: "bytes option"
  ti_fee_exempt_key_list :: "bytes list"
  ti_custom_fees :: "bytes list"

record token_info =
  tki_token_id :: entity_id
  tki_name :: string
  tki_symbol :: string
  tki_decimals :: u32
  tki_total_supply :: u64
  tki_treasury :: "account_id option"
  tki_keys :: token_keys
  tki_default_freeze_status :: nat
  tki_default_kyc_status :: nat
  tki_deleted :: bool
  tki_auto_renew_account :: "account_id option"
  tki_auto_renew_period :: i64
  tki_expiry :: i64
  tki_memo :: string
  tki_token_type :: i64
  tki_supply_type :: i64
  tki_max_supply :: i64
  tki_custom_fees :: "bytes list"
  tki_pause_status :: nat
  tki_metadata :: bytes

record nft_info =
  ni_nft_id :: "nft_id option"
  ni_account_id :: "account_id option"
  ni_creation_time :: "bytes option"
  ni_metadata :: bytes
  ni_spender_id :: "account_id option"

record schedule_info =
  sci_schedule_id :: entity_id
  sci_memo :: string
  sci_admin_key :: "bytes option"
  sci_payer_account_id :: "account_id option"
  sci_scheduled_transaction_body :: "bytes option"
  sci_signers :: "bytes list"
  sci_creator_account_id :: "account_id option"
  sci_wait_for_expiry :: bool

record file_info =
  fi_file_id :: entity_id
  fi_size :: i64
  fi_expiration_time :: "i64 option"
  fi_deleted :: bool
  fi_keys :: "bytes option"
  fi_memo :: string

record contract_info =
  ci_contract_id :: contract_id
  ci_account_id :: "account_id option"
  ci_contract_account_id :: string
  ci_admin_key :: "bytes option"
  ci_expiration_time :: i64
  ci_auto_renew_period :: i64
  ci_storage :: i64
  ci_memo :: string
  ci_balance :: u64
  ci_deleted :: bool

datatype balance_source = BalanceOfAccount account_id | BalanceOfContract contract_id

end
