(* ===== verification/Query.thy ===== *)
theory Query
  imports Query_Types
begin

text \<open>
  The query plugin (\<^verbatim>\<open>rock-node-query-plugin\<close>): the handlers that answer queries from the ledger
  state (\<^verbatim>\<open>handlers\<close>), and the services that unpack a query, call a handler and pack its response, and
  refuse transactions (\<^verbatim>\<open>services\<close>). The state is read through the interface of
  \<^verbatim>\<open>core/src/state_reader.rs\<close>, which the state manager provides.
\<close>

section \<open>Reading the state\<close>

record 's state_reader =
  sr_get_state_value :: "bytes \<Rightarrow> 's \<Rightarrow> bytes option res"

definition manager_reader :: "'db rocksdb \<Rightarrow> 'db pstate state_reader" where
  "manager_reader R = \<lparr>sr_get_state_value = (\<lambda>key s. get_state_value R key (ps_db s))\<rparr>"

definition db_key :: "proto \<Rightarrow> state_identifier \<Rightarrow> map_change_key \<Rightarrow> bytes" where
  "db_key Q sid key = u32_to_be (state_number Q sid) @ encode_key Q key"

text \<open>
  The part all handlers share: the value under a key, or None if there is none. A value without choice
  has no type a handler expects.
\<close>

definition query_state ::
    "'s state_reader \<Rightarrow> proto \<Rightarrow> state_identifier \<Rightarrow> map_change_key \<Rightarrow> 's \<Rightarrow> map_change_value option option answer" where
  "query_state sr Q sid key s =
     (case sr_get_state_value sr (db_key Q sid key) s of
        Inl e \<Rightarrow> Inl (InternalError ''Failed to query state: '' e)
      | Inr None \<Rightarrow> Inr None
      | Inr (Some bs) \<Rightarrow>
          (case decode_value Q bs of
             Inl e \<Rightarrow> Inl (InternalError ''Failed to decode MapChangeValue: '' e)
           | Inr v \<Rightarrow> Inr (Some v)))"

text \<open>The contract of the interface: in a good state a read returns the entry of a map from keys to values.\<close>

locale state_reader_laws =
  fixes sr :: "'s state_reader" and ledger :: "'s \<Rightarrow> table" and good :: "'s \<Rightarrow> bool"
  assumes get_entry: "good s \<Longrightarrow> sr_get_state_value sr k s = Inr (ledger s k)"
begin

lemma query_state_eq:
  "good s \<Longrightarrow> query_state sr Q sid key s =
    (case ledger s (db_key Q sid key) of
       None \<Rightarrow> Inr None
     | Some bs \<Rightarrow> (case decode_value Q bs of Inl e \<Rightarrow> Inl (InternalError ''Failed to decode MapChangeValue: '' e) | Inr v \<Rightarrow> Inr (Some v)))"
  by (simp add: query_state_def get_entry split: option.splits)

end

text \<open>The state manager keeps it, with the state of the database as the map.\<close>

lemma manager_reader_laws:
  assumes "rocksdb_laws R view invar"
  shows "state_reader_laws (manager_reader R) (\<lambda>s. view (ps_db s) CF_STATE_DATA) (\<lambda>s. invar (ps_db s))"
  using rocksdb_laws.cf_ok [OF assms] rocksdb_laws.get_ok [OF assms]
  by unfold_locales (simp add: manager_reader_def get_state_value_def require_cf_def res_simps)

interpretation refq: state_reader_laws "manager_reader ref_rocksdb" "\<lambda>s. ref_view (ps_db s) CF_STATE_DATA" "\<lambda>s. ref_invar (ps_db s)"
  by (rule manager_reader_laws [OF ref.rocksdb_laws_axioms])

definition require_field :: "string \<Rightarrow> 'a option \<Rightarrow> 'a answer" where
  "require_field msg v = (case v of None \<Rightarrow> Inl (InvalidArgument msg) | Some x \<Rightarrow> Inr x)"

definition unwrap :: "'a option \<Rightarrow> 'a answer" where
  "unwrap v = (case v of None \<Rightarrow> Inl Panicked | Some x \<Rightarrow> Inr x)"

definition show_i64 :: "i64 \<Rightarrow> string" where
  "show_i64 i = (if i < 0 then ''-'' @ show_dec (nat (- i)) else show_dec (nat i))"

definition positive_seconds :: "i64 \<Rightarrow> i64 option" where
  "positive_seconds i = (if i > 0 then Some i else None)"

section \<open>Accounts\<close>

definition contract_account_name :: "proto \<Rightarrow> account \<Rightarrow> account_id \<Rightarrow> string" where
  "contract_account_name Q a aid =
     (if acc_smart_contract a
      then if acc_alias a \<noteq> [] then hex_encode Q (acc_alias a)
           else (case aid_account aid of Some (AccountNum num) \<Rightarrow> ''0.0.'' @ show_i64 num | _ \<Rightarrow> [])
      else [])"

definition account_info_of :: "proto \<Rightarrow> account \<Rightarrow> account_info answer" where
  "account_info_of Q a =
     and_then (unwrap (acc_id a)) (\<lambda>aid. Inr \<lparr>
       ai_account_id = aid,
       ai_contract_account_id = contract_account_name Q a aid,
       ai_memo = acc_memo a,
       ai_key = acc_key a,
       ai_balance = as_u64 (acc_tinybar_balance a),
       ai_receiver_sig_required = acc_receiver_sig_required a,
       ai_deleted = acc_deleted a,
       ai_auto_renew_period = positive_seconds (acc_auto_renew_seconds a),
       ai_expiration_time = positive_seconds (acc_expiration_second a),
       ai_staking_info = \<lparr>si_staked_to_me = acc_staked_to_me a,
         si_stake_period_start = positive_seconds (acc_stake_period_start a),
         si_decline_reward = acc_decline_reward a, si_pending_reward = 0, si_staked_id = acc_staked_id a\<rparr>,
       ai_ethereum_nonce = acc_ethereum_nonce a,
       ai_owned_nfts = acc_number_owned_nfts a,
       ai_max_automatic_token_associations = acc_max_auto_associations a,
       ai_alias = acc_alias a\<rparr>)"

definition get_account_info ::
    "'s state_reader \<Rightarrow> proto \<Rightarrow> account_id option \<Rightarrow> 's \<Rightarrow> (response_header \<times> account_info option) answer" where
  "get_account_info sr Q query_account s =
     and_then (require_field ''Missing account_id in CryptoGetInfoQuery'' query_account) (\<lambda>aid.
     and_then (query_state sr Q StateIdAccounts (AccountIdKey aid) s) (\<lambda>v.
     case v of
       None \<Rightarrow> Inr (header_of RcInvalidAccountId, None)
     | Some (Some (AccountValue a)) \<Rightarrow> and_then (account_info_of Q a) (\<lambda>i. Inr (header_of RcOk, Some i))
     | Some _ \<Rightarrow> Inl (InternalStatus ''State inconsistency: Expected Account value, found other type'')))"

definition get_account_balance ::
    "'s state_reader \<Rightarrow> proto \<Rightarrow> balance_source option \<Rightarrow> 's \<Rightarrow> balance_response answer" where
  "get_account_balance sr Q source s =
     and_then (require_field ''Missing balance_source in CryptoGetAccountBalanceQuery'' source) (\<lambda>src.
     case src of
       BalanceOfContract _ \<Rightarrow> Inl (Unimplemented ''Contract balance query not supported'')
     | BalanceOfAccount aid \<Rightarrow>
         and_then (query_state sr Q StateIdAccounts (AccountIdKey aid) s) (\<lambda>v.
         case v of
           None \<Rightarrow> Inr \<lparr>br_header = header_of RcInvalidAccountId, br_account_id = aid, br_balance = 0\<rparr>
         | Some (Some (AccountValue a)) \<Rightarrow>
             Inr \<lparr>br_header = header_of RcOk, br_account_id = aid, br_balance = as_u64 (acc_tinybar_balance a)\<rparr>
         | Some _ \<Rightarrow> Inl (InternalStatus ''State inconsistency: Expected Account value, found other type'')))"

text \<open>Records and receipts are not indexed: the answers are empty.\<close>

definition get_account_records :: "account_id option \<Rightarrow> (response_header \<times> account_id \<times> bytes list) answer" where
  "get_account_records query_account =
     and_then (require_field ''Missing account_id in CryptoGetAccountRecordsQuery'' query_account) (\<lambda>aid.
     Inr (header_of RcOk, aid, []))"

definition get_transaction_receipt :: "bytes \<Rightarrow> (response_header \<times> bytes option) answer" where
  "get_transaction_receipt query = Inr (header_of RcReceiptNotFound, None)"

definition get_transaction_record :: "bytes option \<Rightarrow> (response_header \<times> bytes) answer" where
  "get_transaction_record transaction_id =
     and_then (require_field ''Missing transaction_id in TransactionGetRecordQuery'' transaction_id) (\<lambda>tid.
     Inr (header_of RcRecordNotFound, tid))"

section \<open>Network\<close>

text \<open>The software version is an encoded message; a missing one is the default message, whose encoding is empty.\<close>

definition get_version_info :: "'s state_reader \<Rightarrow> proto \<Rightarrow> 's \<Rightarrow> (response_header \<times> bytes option \<times> bytes option) answer" where
  "get_version_info sr Q s =
     (case sr_get_state_value sr (u32_to_be (state_number Q StateIdBlockStreamInfo)) s of
        Inl e \<Rightarrow> Inl (InternalError ''Failed to query state: '' e)
      | Inr None \<Rightarrow> Inr (header_of RcOk, None, None)
      | Inr (Some bs) \<Rightarrow>
          (case decode_block_stream_info Q bs of
             Inl e \<Rightarrow> Inl (InternalError ''Failed to decode BlockStreamInfo: '' e)
           | Inr v \<Rightarrow> (let version = (case v of None \<Rightarrow> [] | Some x \<Rightarrow> x) in Inr (header_of RcOk, Some version, Some version))))"

definition relationship_of :: "token_relation \<Rightarrow> token_relationship" where
  "relationship_of r = \<lparr>
     trs_token_id = tr_token_id r,
     trs_balance = as_u64 (tr_balance r),
     trs_kyc_status = (if tr_kyc_granted r then 1 else 2),
     trs_freeze_status = (if tr_frozen r then 1 else 2),
     trs_decimals = 0,
     trs_automatic_association = tr_automatic_association r\<rparr>"

text \<open>The list of token relations of an account, from its head, for at most the recorded number of associations.\<close>

fun token_relations ::
    "'s state_reader \<Rightarrow> proto \<Rightarrow> account_id option \<Rightarrow> nat \<Rightarrow> entity_id option \<Rightarrow> 's \<Rightarrow> token_relationship list answer" where
  "token_relations sr Q aid 0 current s = Inr []"
| "token_relations sr Q aid (Suc n) None s = Inr []"
| "token_relations sr Q aid (Suc n) (Some tid) s =
     and_then (query_state sr Q StateIdTokenRelations (TokenRelationshipKey (Some tid) aid) s) (\<lambda>v.
     case v of
       None \<Rightarrow> Inl (InternalStatus ''Token relationship not found in state'')
     | Some (Some (TokenRelationValue r)) \<Rightarrow>
         and_then (token_relations sr Q aid n (tr_next_token r) s) (\<lambda>rs. Inr (relationship_of r # rs))
     | Some _ \<Rightarrow> Inl (InternalStatus ''State inconsistency: Expected TokenRelation value, found other type''))"

definition get_token_relationships ::
    "'s state_reader \<Rightarrow> proto \<Rightarrow> account \<Rightarrow> 's \<Rightarrow> token_relationship list answer" where
  "get_token_relationships sr Q a s =
     token_relations sr Q (acc_id a) (nat (acc_number_associations a)) (acc_head_token_id a) s"

definition account_details_of :: "proto \<Rightarrow> account \<Rightarrow> token_relationship list \<Rightarrow> account_details answer" where
  "account_details_of Q a rels =
     and_then (unwrap (acc_id a)) (\<lambda>aid. Inr \<lparr>
       ad_account_id = aid,
       ad_contract_account_id = (if acc_smart_contract a then hex_encode Q (acc_alias a) else []),
       ad_deleted = acc_deleted a,
       ad_proxy_received = acc_staked_to_me a,
       ad_key = acc_key a,
       ad_balance = as_u64 (acc_tinybar_balance a),
       ad_receiver_sig_required = acc_receiver_sig_required a,
       ad_expiration_time = acc_expiration_second a,
       ad_auto_renew_period = acc_auto_renew_seconds a,
       ad_token_relationships = rels,
       ad_memo = acc_memo a,
       ad_owned_nfts = acc_number_owned_nfts a,
       ad_max_automatic_token_associations = acc_max_auto_associations a,
       ad_alias = acc_alias a,
       ad_granted_crypto_allowances = acc_crypto_allowances a,
       ad_granted_nft_allowances = acc_approve_for_all_nft_allowances a,
       ad_granted_token_allowances = acc_token_allowances a\<rparr>)"

definition get_account_details ::
    "'s state_reader \<Rightarrow> proto \<Rightarrow> account_id option \<Rightarrow> 's \<Rightarrow> (response_header \<times> account_details option) answer" where
  "get_account_details sr Q query_account s =
     and_then (require_field ''Missing account_id in GetAccountDetailsQuery'' query_account) (\<lambda>aid.
     and_then (query_state sr Q StateIdAccounts (AccountIdKey aid) s) (\<lambda>v.
     case v of
       None \<Rightarrow> Inr (header_of RcInvalidAccountId, None)
     | Some (Some (AccountValue a)) \<Rightarrow>
         and_then (get_token_relationships sr Q a s) (\<lambda>rels.
         and_then (account_details_of Q a rels) (\<lambda>d. Inr (header_of RcOk, Some d)))
     | Some _ \<Rightarrow> Inl (InternalStatus ''State inconsistency: Expected Account value, found other type'')))"

section \<open>Topics, tokens and schedules\<close>

definition topic_info_of :: "topic \<Rightarrow> topic_info" where
  "topic_info_of t = \<lparr>
     ti_memo = top_memo t,
     ti_running_hash = top_running_hash t,
     ti_sequence_number = as_u64 (top_sequence_number t),
     ti_expiration_time = top_expiration_second t,
     ti_admin_key = top_admin_key t,
     ti_submit_key = top_submit_key t,
     ti_auto_renew_period = top_auto_renew_period t,
     ti_auto_renew_account = top_auto_renew_account t,
     ti_fee_schedule_key = top_fee_schedule_key t,
     ti_fee_exempt_key_list = top_fee_exempt_key_list t,
     ti_custom_fees = top_custom_fees t\<rparr>"

definition get_topic_info ::
    "'s state_reader \<Rightarrow> proto \<Rightarrow> entity_id option \<Rightarrow> 's \<Rightarrow> (response_header \<times> entity_id \<times> topic_info option) answer" where
  "get_topic_info sr Q query_topic s =
     and_then (require_field ''Missing topic_id in ConsensusGetTopicInfoQuery'' query_topic) (\<lambda>tid.
     and_then (query_state sr Q StateIdTopics (TopicIdKey tid) s) (\<lambda>v.
     case v of
       None \<Rightarrow> Inr (header_of RcInvalidTopicId, tid, None)
     | Some (Some (TopicValue t)) \<Rightarrow> Inr (header_of RcOk, tid, Some (topic_info_of t))
     | Some _ \<Rightarrow> Inl (InternalStatus ''State inconsistency: Expected Topic value, found other type'')))"

text \<open>\<^verbatim>\<open>as u32\<close> of a 32-bit signed integer.\<close>

definition as_u32 :: "i64 \<Rightarrow> u32" where
  "as_u32 i = word_of_int i"

definition token_info_of :: "token \<Rightarrow> token_info answer" where
  "token_info_of t =
     and_then (unwrap (tok_id t)) (\<lambda>tid. Inr \<lparr>
       tki_token_id = tid,
       tki_name = tok_name t,
       tki_symbol = tok_symbol t,
       tki_decimals = as_u32 (tok_decimals t),
       tki_total_supply = as_u64 (tok_total_supply t),
       tki_treasury = tok_treasury t,
       tki_keys = tok_keys t,
       tki_default_freeze_status = (if tok_accounts_frozen_by_default t then 1 else 2),
       tki_default_kyc_status = (if tok_accounts_kyc_granted_by_default t then 1 else 2),
       tki_deleted = tok_deleted t,
       tki_auto_renew_account = tok_auto_renew_account t,
       tki_auto_renew_period = tok_auto_renew_seconds t,
       tki_expiry = tok_expiration_second t,
       tki_memo = tok_memo t,
       tki_token_type = tok_type t,
       tki_supply_type = tok_supply_type t,
       tki_max_supply = tok_max_supply t,
       tki_custom_fees = tok_custom_fees t,
       tki_pause_status = (if tok_paused t then 1 else 2),
       tki_metadata = tok_metadata t\<rparr>)"

definition get_token_info ::
    "'s state_reader \<Rightarrow> proto \<Rightarrow> entity_id option \<Rightarrow> 's \<Rightarrow> (response_header \<times> token_info option) answer" where
  "get_token_info sr Q query_token s =
     and_then (require_field ''Missing token_id in TokenGetInfoQuery'' query_token) (\<lambda>tid.
     and_then (query_state sr Q StateIdTokens (TokenIdKey tid) s) (\<lambda>v.
     case v of
       None \<Rightarrow> Inr (header_of RcInvalidTokenId, None)
     | Some (Some (TokenValue t)) \<Rightarrow> and_then (token_info_of t) (\<lambda>i. Inr (header_of RcOk, Some i))
     | Some _ \<Rightarrow> Inl (InternalStatus ''State inconsistency: Expected Token value, found other type'')))"

definition get_token_nft_info ::
    "'s state_reader \<Rightarrow> proto \<Rightarrow> nft_id option \<Rightarrow> 's \<Rightarrow> (response_header \<times> nft_info option) answer" where
  "get_token_nft_info sr Q query_nft s =
     and_then (require_field ''Missing nft_id in TokenGetNftInfoQuery'' query_nft) (\<lambda>nid.
     and_then (query_state sr Q StateIdNfts (NftIdKey nid) s) (\<lambda>v.
     case v of
       None \<Rightarrow> Inr (header_of RcInvalidNftId, None)
     | Some (Some (NftValue n)) \<Rightarrow>
         Inr (header_of RcOk, Some \<lparr>ni_nft_id = nft_nft_id n, ni_account_id = nft_owner n,
           ni_creation_time = nft_mint_time n, ni_metadata = nft_metadata n, ni_spender_id = nft_spender n\<rparr>)
     | Some _ \<Rightarrow> Inl (InternalStatus ''State inconsistency: Expected Nft value, found other type'')))"

definition get_schedule_info ::
    "'s state_reader \<Rightarrow> proto \<Rightarrow> entity_id option \<Rightarrow> 's \<Rightarrow> (response_header \<times> schedule_info option) answer" where
  "get_schedule_info sr Q query_schedule s =
     and_then (require_field ''Missing schedule_id in ScheduleGetInfoQuery'' query_schedule) (\<lambda>sid.
     and_then (query_state sr Q StateIdSchedulesById (ScheduleIdKey sid) s) (\<lambda>v.
     case v of
       None \<Rightarrow> Inr (header_of RcInvalidScheduleId, None)
     | Some (Some (ScheduleValue x)) \<Rightarrow>
         Inr (header_of RcOk, Some \<lparr>sci_schedule_id = sid, sci_memo = sch_memo x, sci_admin_key = sch_admin_key x,
           sci_payer_account_id = sch_payer x, sci_scheduled_transaction_body = sch_scheduled_transaction x,
           sci_signers = sch_signatories x, sci_creator_account_id = sch_scheduler x,
           sci_wait_for_expiry = sch_wait_for_expiry x\<rparr>)
     | Some _ \<Rightarrow> Inl (InternalStatus ''State inconsistency: Expected Schedule value, found other type'')))"

section \<open>Files and contracts\<close>

definition get_file_info ::
    "'s state_reader \<Rightarrow> proto \<Rightarrow> entity_id option \<Rightarrow> 's \<Rightarrow> (response_header \<times> file_info option) answer" where
  "get_file_info sr Q query_file s =
     and_then (require_field ''Missing file_id in FileGetInfoQuery'' query_file) (\<lambda>fid.
     and_then (query_state sr Q StateIdFiles (FileIdKey fid) s) (\<lambda>v.
     case v of
       None \<Rightarrow> Inr (header_of RcInvalidFileId, None)
     | Some (Some (FileValue f)) \<Rightarrow>
         Inr (header_of RcOk, Some \<lparr>fi_file_id = fid, fi_size = int (length (file_contents f)),
           fi_expiration_time = positive_seconds (file_expiration_second f), fi_deleted = file_deleted f,
           fi_keys = file_keys f, fi_memo = file_memo f\<rparr>)
     | Some _ \<Rightarrow> Inl (InternalStatus ''State inconsistency: Expected File value, found other type'')))"

definition get_file_content ::
    "'s state_reader \<Rightarrow> proto \<Rightarrow> entity_id option \<Rightarrow> 's \<Rightarrow> (response_header \<times> (entity_id \<times> bytes) option) answer" where
  "get_file_content sr Q query_file s =
     and_then (require_field ''Missing file_id in FileGetContentsQuery'' query_file) (\<lambda>fid.
     and_then (query_state sr Q StateIdFiles (FileIdKey fid) s) (\<lambda>v.
     case v of
       None \<Rightarrow> Inr (header_of RcInvalidFileId, None)
     | Some (Some (FileValue f)) \<Rightarrow> Inr (header_of RcOk, Some (fid, file_contents f))
     | Some _ \<Rightarrow> Inl (InternalStatus ''State inconsistency: Expected File value, found other type'')))"

text \<open>Contracts are accounts with a number.\<close>

definition contract_account :: "contract_id \<Rightarrow> account_id answer" where
  "contract_account cid =
     (case cid_contract cid of
        Some (ContractNum num) \<Rightarrow>
          Inr \<lparr>aid_shard = cid_shard cid, aid_realm = cid_realm cid, aid_account = Some (AccountNum num)\<rparr>
      | _ \<Rightarrow> Inl (InvalidArgument ''EVM address not supported yet''))"

definition get_contract_info ::
    "'s state_reader \<Rightarrow> proto \<Rightarrow> contract_id option \<Rightarrow> 's \<Rightarrow> (response_header \<times> contract_info option) answer" where
  "get_contract_info sr Q query_contract s =
     and_then (require_field ''Missing contract_id in ContractGetInfoQuery'' query_contract) (\<lambda>cid.
     and_then (contract_account cid) (\<lambda>aid.
     and_then (query_state sr Q StateIdAccounts (AccountIdKey aid) s) (\<lambda>v.
     case v of
       None \<Rightarrow> Inr (header_of RcInvalidContractId, None)
     | Some (Some (AccountValue a)) \<Rightarrow>
         if \<not> acc_smart_contract a then Inr (header_of RcInvalidContractId, None)
         else Inr (header_of RcOk, Some \<lparr>ci_contract_id = cid, ci_account_id = acc_id a,
           ci_contract_account_id = hex_encode Q (acc_alias a), ci_admin_key = acc_key a,
           ci_expiration_time = acc_expiration_second a, ci_auto_renew_period = acc_auto_renew_seconds a,
           ci_storage = acc_contract_kv_pairs_number a, ci_memo = acc_memo a,
           ci_balance = as_u64 (acc_tinybar_balance a), ci_deleted = acc_deleted a\<rparr>)
     | Some _ \<Rightarrow> Inl (InternalStatus ''State inconsistency: Expected Account value for contract, found other type''))))"

definition get_contract_bytecode ::
    "'s state_reader \<Rightarrow> proto \<Rightarrow> contract_id option \<Rightarrow> 's \<Rightarrow> (response_header \<times> bytes) answer" where
  "get_contract_bytecode sr Q query_contract s =
     and_then (require_field ''Missing contract_id in ContractGetBytecodeQuery'' query_contract) (\<lambda>cid.
     and_then (query_state sr Q StateIdContractBytecode (ContractIdKey cid) s) (\<lambda>v.
     case v of
       None \<Rightarrow> Inr (header_of RcInvalidContractId, [])
     | Some (Some (BytecodeValue code)) \<Rightarrow> Inr (header_of RcOk, code)
     | Some _ \<Rightarrow> Inl (InternalStatus ''State inconsistency: Expected Bytecode value, found other type'')))"

end
