(* ===== verification/Query_Service.thy ===== *)
theory Query_Service
  imports Query
begin

text \<open>
  The gRPC services of the query plugin (\<^verbatim>\<open>services\<close>): every method takes the query of its own
  kind out of the envelope, asks the handler and wraps the response; any other query is refused.
  Transactions are never accepted. Then the properties of queries: they answer from the state the
  blocks have left.
\<close>

section \<open>Envelopes\<close>

text \<open>The payment header of a query is not read.\<close>

datatype query =
    CryptoGetInfo "account_id option"
  | CryptoGetAccountRecords "account_id option"
  | CryptogetAccountBalance "balance_source option"
  | TransactionGetReceipt bytes
  | TransactionGetRecord "bytes option"
  | ConsensusGetTopicInfo "entity_id option"
  | ContractGetInfo "contract_id option"
  | ContractGetBytecode "contract_id option"
  | FileGetContents "entity_id option"
  | FileGetInfo "entity_id option"
  | NetworkGetVersionInfo
  | AccountDetails "account_id option"
  | ScheduleGetInfo "entity_id option"
  | TokenGetInfo "entity_id option"
  | TokenGetNftInfo "nft_id option"
  | OtherQuery bytes

datatype response =
    CryptoGetInfoResponse "response_header \<times> account_info option"
  | CryptoGetAccountRecordsResponse "response_header \<times> account_id \<times> bytes list"
  | CryptogetAccountBalanceResponse balance_response
  | TransactionGetReceiptResponse "response_header \<times> bytes option"
  | TransactionGetRecordResponse "response_header \<times> bytes"
  | ConsensusGetTopicInfoResponse "response_header \<times> entity_id \<times> topic_info option"
  | ContractGetInfoResponse "response_header \<times> contract_info option"
  | ContractGetBytecodeResponse "response_header \<times> bytes"
  | FileGetContentsResponse "response_header \<times> (entity_id \<times> bytes) option"
  | FileGetInfoResponse "response_header \<times> file_info option"
  | NetworkGetVersionInfoResponse "response_header \<times> bytes option \<times> bytes option"
  | AccountDetailsResponse "response_header \<times> account_details option"
  | ScheduleGetInfoResponse "response_header \<times> schedule_info option"
  | TokenGetInfoResponse "response_header \<times> token_info option"
  | TokenGetNftInfoResponse "response_header \<times> nft_info option"

record transaction_response =
  tx_precheck_code :: response_code_enum
  tx_cost :: u64

definition not_supported :: "transaction_response answer" where
  "not_supported = Inr \<lparr>tx_precheck_code = RcNotSupported, tx_cost = 0\<rparr>"

section \<open>Services\<close>

subsection \<open>Crypto\<close>

definition crypto_service_get_account_info :: "'s state_reader \<Rightarrow> proto \<Rightarrow> query option \<Rightarrow> 's \<Rightarrow> response answer" where
  "crypto_service_get_account_info sr Q q s =
     (case q of
        Some (CryptoGetInfo x) \<Rightarrow> and_then (get_account_info sr Q x s) (\<lambda>r. Inr (CryptoGetInfoResponse r))
      | _ \<Rightarrow> Inl (InvalidArgument ''Incorrect query type provided for getAccountInfo''))"

definition crypto_service_get_account_records :: "query option \<Rightarrow> response answer" where
  "crypto_service_get_account_records q =
     (case q of
        Some (CryptoGetAccountRecords x) \<Rightarrow> and_then (get_account_records x) (\<lambda>r. Inr (CryptoGetAccountRecordsResponse r))
      | _ \<Rightarrow> Inl (InvalidArgument ''Incorrect query type provided for getAccountRecords''))"


definition crypto_service_get_transaction_receipts :: "query option \<Rightarrow> response answer" where
  "crypto_service_get_transaction_receipts q =
     (case q of
        Some (TransactionGetReceipt x) \<Rightarrow> and_then (get_transaction_receipt x) (\<lambda>r. Inr (TransactionGetReceiptResponse r))
      | _ \<Rightarrow> Inl (InvalidArgument ''Incorrect query type provided for getTransactionReceipts''))"

definition crypto_service_get_tx_record_by_tx_id :: "query option \<Rightarrow> response answer" where
  "crypto_service_get_tx_record_by_tx_id q =
     (case q of
        Some (TransactionGetRecord x) \<Rightarrow> and_then (get_transaction_record x) (\<lambda>r. Inr (TransactionGetRecordResponse r))
      | _ \<Rightarrow> Inl (InvalidArgument ''Incorrect query type provided for getTxRecordByTxID''))"

definition crypto_service_get_live_hash :: "query option \<Rightarrow> response answer" where
  "crypto_service_get_live_hash q = Inl (Unimplemented ''getLiveHash is obsolete'')"

datatype crypto_transaction =
    CreateAccount
  | UpdateAccount
  | CryptoTransfer
  | CryptoDelete
  | ApproveAllowances
  | DeleteAllowances
  | AddLiveHash
  | DeleteLiveHash

definition crypto_service_transaction :: "crypto_transaction \<Rightarrow> bytes \<Rightarrow> transaction_response answer" where
  "crypto_service_transaction m tx = not_supported"

subsection \<open>Consensus\<close>

definition consensus_service_get_topic_info :: "'s state_reader \<Rightarrow> proto \<Rightarrow> query option \<Rightarrow> 's \<Rightarrow> response answer" where
  "consensus_service_get_topic_info sr Q q s =
     (case q of
        Some (ConsensusGetTopicInfo x) \<Rightarrow> and_then (get_topic_info sr Q x s) (\<lambda>r. Inr (ConsensusGetTopicInfoResponse r))
      | _ \<Rightarrow> Inl (InvalidArgument ''Incorrect query type provided for getTopicInfo''))"

datatype consensus_transaction =
    CreateTopic
  | UpdateTopic
  | DeleteTopic
  | SubmitMessage

definition consensus_service_transaction :: "consensus_transaction \<Rightarrow> bytes \<Rightarrow> transaction_response answer" where
  "consensus_service_transaction m tx = not_supported"

subsection \<open>Smart contracts\<close>

definition contract_service_contract_call_local_method :: "query option \<Rightarrow> response answer" where
  "contract_service_contract_call_local_method q = Inl (Unimplemented ''Query not yet implemented'')"

definition contract_service_get_contract_info :: "'s state_reader \<Rightarrow> proto \<Rightarrow> query option \<Rightarrow> 's \<Rightarrow> response answer" where
  "contract_service_get_contract_info sr Q q s =
     (case q of
        Some (ContractGetInfo x) \<Rightarrow> and_then (get_contract_info sr Q x s) (\<lambda>r. Inr (ContractGetInfoResponse r))
      | _ \<Rightarrow> Inl (InvalidArgument ''Incorrect query type provided for getContractInfo''))"

definition contract_service_contract_get_bytecode :: "'s state_reader \<Rightarrow> proto \<Rightarrow> query option \<Rightarrow> 's \<Rightarrow> response answer" where
  "contract_service_contract_get_bytecode sr Q q s =
     (case q of
        Some (ContractGetBytecode x) \<Rightarrow> and_then (get_contract_bytecode sr Q x s) (\<lambda>r. Inr (ContractGetBytecodeResponse r))
      | _ \<Rightarrow> Inl (InvalidArgument ''Incorrect query type provided for contractGetBytecode''))"

definition contract_service_get_by_solidity_id :: "query option \<Rightarrow> response answer" where
  "contract_service_get_by_solidity_id q = Inl (Unimplemented ''Query not yet implemented'')"

definition contract_service_get_tx_record_by_contract_id :: "query option \<Rightarrow> response answer" where
  "contract_service_get_tx_record_by_contract_id q = Inl (Unimplemented ''Query not yet implemented'')"

datatype contract_transaction =
    CreateContract
  | UpdateContract
  | ContractCallMethod
  | DeleteContract
  | ContractSystemDelete
  | ContractSystemUndelete
  | CallEthereum
  | LambdaSStore

definition contract_service_transaction :: "contract_transaction \<Rightarrow> bytes \<Rightarrow> transaction_response answer" where
  "contract_service_transaction m tx = not_supported"

subsection \<open>Files\<close>

definition file_service_get_file_content :: "'s state_reader \<Rightarrow> proto \<Rightarrow> query option \<Rightarrow> 's \<Rightarrow> response answer" where
  "file_service_get_file_content sr Q q s =
     (case q of
        Some (FileGetContents x) \<Rightarrow> and_then (get_file_content sr Q x s) (\<lambda>r. Inr (FileGetContentsResponse r))
      | _ \<Rightarrow> Inl (InvalidArgument ''Incorrect query type provided for getFileContent''))"

definition file_service_get_file_info :: "'s state_reader \<Rightarrow> proto \<Rightarrow> query option \<Rightarrow> 's \<Rightarrow> response answer" where
  "file_service_get_file_info sr Q q s =
     (case q of
        Some (FileGetInfo x) \<Rightarrow> and_then (get_file_info sr Q x s) (\<lambda>r. Inr (FileGetInfoResponse r))
      | _ \<Rightarrow> Inl (InvalidArgument ''Incorrect query type provided for getFileInfo''))"

datatype file_transaction =
    CreateFile
  | UpdateFile
  | DeleteFile
  | AppendContent
  | FileSystemDelete
  | FileSystemUndelete

definition file_service_transaction :: "file_transaction \<Rightarrow> bytes \<Rightarrow> transaction_response answer" where
  "file_service_transaction m tx = not_supported"

subsection \<open>Network\<close>

definition network_service_get_version_info :: "'s state_reader \<Rightarrow> proto \<Rightarrow> query option \<Rightarrow> 's \<Rightarrow> response answer" where
  "network_service_get_version_info sr Q q s =
     (case q of
        Some NetworkGetVersionInfo \<Rightarrow> and_then (get_version_info sr Q s) (\<lambda>r. Inr (NetworkGetVersionInfoResponse r))
      | _ \<Rightarrow> Inl (InvalidArgument ''Incorrect query type provided for getVersionInfo''))"

definition network_service_get_execution_time :: "query option \<Rightarrow> response answer" where
  "network_service_get_execution_time q = Inl (Unimplemented ''getExecutionTime is deprecated'')"

definition network_service_get_account_details :: "'s state_reader \<Rightarrow> proto \<Rightarrow> query option \<Rightarrow> 's \<Rightarrow> response answer" where
  "network_service_get_account_details sr Q q s =
     (case q of
        Some (AccountDetails x) \<Rightarrow> and_then (get_account_details sr Q x s) (\<lambda>r. Inr (AccountDetailsResponse r))
      | _ \<Rightarrow> Inl (InvalidArgument ''Incorrect query type provided for getAccountDetails''))"

datatype network_transaction =
    UncheckedSubmit

definition network_service_transaction :: "network_transaction \<Rightarrow> bytes \<Rightarrow> transaction_response answer" where
  "network_service_transaction m tx = not_supported"

subsection \<open>Schedules\<close>

definition schedule_service_get_schedule_info :: "'s state_reader \<Rightarrow> proto \<Rightarrow> query option \<Rightarrow> 's \<Rightarrow> response answer" where
  "schedule_service_get_schedule_info sr Q q s =
     (case q of
        Some (ScheduleGetInfo x) \<Rightarrow> and_then (get_schedule_info sr Q x s) (\<lambda>r. Inr (ScheduleGetInfoResponse r))
      | _ \<Rightarrow> Inl (InvalidArgument ''Incorrect query type provided for getScheduleInfo''))"

datatype schedule_transaction =
    CreateSchedule
  | SignSchedule
  | DeleteSchedule

definition schedule_service_transaction :: "schedule_transaction \<Rightarrow> bytes \<Rightarrow> transaction_response answer" where
  "schedule_service_transaction m tx = not_supported"

subsection \<open>Tokens\<close>

definition token_service_get_token_info :: "'s state_reader \<Rightarrow> proto \<Rightarrow> query option \<Rightarrow> 's \<Rightarrow> response answer" where
  "token_service_get_token_info sr Q q s =
     (case q of
        Some (TokenGetInfo x) \<Rightarrow> and_then (get_token_info sr Q x s) (\<lambda>r. Inr (TokenGetInfoResponse r))
      | _ \<Rightarrow> Inl (InvalidArgument ''Incorrect query type provided for getTokenInfo''))"

definition token_service_get_token_nft_info :: "'s state_reader \<Rightarrow> proto \<Rightarrow> query option \<Rightarrow> 's \<Rightarrow> response answer" where
  "token_service_get_token_nft_info sr Q q s =
     (case q of
        Some (TokenGetNftInfo x) \<Rightarrow> and_then (get_token_nft_info sr Q x s) (\<lambda>r. Inr (TokenGetNftInfoResponse r))
      | _ \<Rightarrow> Inl (InvalidArgument ''Incorrect query type provided for getTokenNftInfo''))"

datatype token_transaction =
    CreateToken
  | UpdateToken
  | MintToken
  | BurnToken
  | DeleteToken
  | WipeTokenAccount
  | FreezeTokenAccount
  | UnfreezeTokenAccount
  | GrantKycToTokenAccount
  | RevokeKycFromTokenAccount
  | AssociateTokens
  | DissociateTokens
  | UpdateTokenFeeSchedule
  | PauseToken
  | UnpauseToken
  | UpdateNfts
  | RejectToken
  | AirdropTokens
  | CancelAirdrop
  | ClaimAirdrop

definition token_service_transaction :: "token_transaction \<Rightarrow> bytes \<Rightarrow> transaction_response answer" where
  "token_service_transaction m tx = not_supported"

section \<open>Queries and the state\<close>











text \<open>The token relations of an account as a linked list in the state.\<close>

fun relation_chain :: "entity_id option \<Rightarrow> (entity_id \<times> token_relation) list \<Rightarrow> bool" where
  "relation_chain current [] \<longleftrightarrow> current = None"
| "relation_chain current ((tid, r) # xs) \<longleftrightarrow> current = Some tid \<and> relation_chain (tr_next_token r) xs"

lemma token_relations_chain:
  assumes "relation_chain current ch"
    and "\<forall>(tid, r) \<in> set ch. query_state sr Q StateIdTokenRelations (TokenRelationshipKey (Some tid) aid) s =
      Inr (Some (Some (TokenRelationValue r)))"
  shows "token_relations sr Q aid n current s = Inr (map (relationship_of \<circ> snd) (take n ch))"
  using assms
proof (induction ch arbitrary: current n)
  case Nil
  then show ?case by (cases n) simp_all
next
  case (Cons p ch)
  then show ?case by (cases n; cases p) simp_all
qed

lemma token_relations_length: "token_relations sr Q aid n current s = Inr rels \<Longrightarrow> length rels \<le> n"
  by (induction sr Q aid n current s arbitrary: rels rule: token_relations.induct)
    (auto simp: and_then_cases split: sum.splits option.splits map_change_value.splits)

section \<open>Properties\<close>


text \<open>
  C40: The token relations of an account are listed in order and their number is bounded. Whatever the state,
  also if the list is cyclic, an answer has at most the recorded number of associations; if the state
  holds the relations as a linked list from the head of the account, the answer is that list, cut at
  the recorded number.
\<close>

theorem token_relationships_listed:
  assumes "relation_chain (acc_head_token_id a) ch"
    and "\<forall>(tid, r) \<in> set ch. query_state sr Q StateIdTokenRelations (TokenRelationshipKey (Some tid) (acc_id a)) s =
      Inr (Some (Some (TokenRelationValue r)))"
  shows "get_token_relationships sr Q a s = Inr (map (relationship_of \<circ> snd) (take (nat (acc_number_associations a)) ch)) \<and>
    (\<forall>s' rels. get_token_relationships sr Q a s' = Inr rels \<longrightarrow> int (length rels) \<le> max 0 (acc_number_associations a))"
proof -
  have "int (length rels) \<le> max 0 (acc_number_associations a)" if "get_token_relationships sr Q a s' = Inr rels" for s' rels
    using token_relations_length [OF that [unfolded get_token_relationships_def]] by linarith
  then show ?thesis using token_relations_chain [OF assms] by (simp add: get_token_relationships_def)
qed

section \<open>Examples\<close>

text \<open>A small encoding: every value is the account whose balance is its first byte.\<close>

definition example_id :: account_id where
  "example_id = \<lparr>aid_shard = 0, aid_realm = 0, aid_account = Some (AccountNum 1001)\<rparr>"

definition example_account :: "i64 \<Rightarrow> account" where
  "example_account bal = \<lparr>acc_id = Some example_id, acc_alias = [], acc_key = None, acc_expiration_second = 0,
     acc_tinybar_balance = bal, acc_memo = [], acc_deleted = False, acc_staked_to_me = 0, acc_stake_period_start = 0,
     acc_decline_reward = False, acc_receiver_sig_required = False,
     acc_head_token_id = Some \<lparr>eid_shard = 0, eid_realm = 0, eid_num = 7\<rparr>, acc_number_owned_nfts = 0,
     acc_max_auto_associations = 0, acc_number_associations = 3, acc_smart_contract = False, acc_ethereum_nonce = 0,
     acc_auto_renew_seconds = 0, acc_contract_kv_pairs_number = 0, acc_crypto_allowances = [],
     acc_approve_for_all_nft_allowances = [], acc_token_allowances = [], acc_staked_id = None\<rparr>"

definition example_relation :: "i64 \<Rightarrow> entity_id option \<Rightarrow> token_relation" where
  "example_relation bal next_token = \<lparr>tr_token_id = Some \<lparr>eid_shard = 0, eid_realm = 0, eid_num = bal\<rparr>, tr_balance = bal,
     tr_frozen = False, tr_kyc_granted = True, tr_automatic_association = False, tr_next_token = next_token\<rparr>"

definition example_proto :: proto where
  "example_proto = \<lparr>
     encode_key = (\<lambda>key. case key of
        TokenRelationshipKey (Some tid) _ \<Rightarrow> [of_int (eid_num tid)]
      | _ \<Rightarrow> [0]),
     decode_value = (\<lambda>bs. case bs of
        [] \<Rightarrow> Inr None
      | [x] \<Rightarrow> Inr (Some (AccountValue (example_account (uint x))))
      | x # y # _ \<Rightarrow> Inr (Some (TokenRelationValue (example_relation (uint x)
          (if y = 0 then None else Some \<lparr>eid_shard = 0, eid_realm = 0, eid_num = uint y\<rparr>))))),
     decode_block_stream_info = (\<lambda>bs. Inr (Some bs)),
     state_number = (\<lambda>sid. if sid = StateIdAccounts then 3 else 4),
     hex_encode = (\<lambda>bs. [])\<rparr>"




text \<open>An account with two token relations.\<close>

abbreviation example_token :: "i64 \<Rightarrow> entity_id" where
  "example_token x \<equiv> \<lparr>eid_shard = 0, eid_realm = 0, eid_num = x\<rparr>"

definition relation_reader :: "unit state_reader" where
  "relation_reader = \<lparr>sr_get_state_value = (\<lambda>key s.
     Inr (if key = u32_to_be 4 @ [7] then Some [7, 8] else if key = u32_to_be 4 @ [8] then Some [8, 0] else None))\<rparr>"

theorem token_relationships_listed_witness:
  "get_token_relationships relation_reader example_proto (example_account 0) () =
    Inr [relationship_of (example_relation 7 (Some (example_token 8))), relationship_of (example_relation 8 None)]"
proof -
  have q: "query_state relation_reader example_proto StateIdTokenRelations (TokenRelationshipKey (Some (example_token 7)) aid) () =
      Inr (Some (Some (TokenRelationValue (example_relation 7 (Some (example_token 8))))))"
    "query_state relation_reader example_proto StateIdTokenRelations (TokenRelationshipKey (Some (example_token 8)) aid) () =
      Inr (Some (Some (TokenRelationValue (example_relation 8 None))))" for aid
    by (simp_all add: query_state_def relation_reader_def db_key_def example_proto_def)
  have a: "acc_head_token_id (example_account 0) = Some (example_token 7)" "nat (acc_number_associations (example_account 0)) = 3"
    by (simp_all add: example_account_def)
  have n: "tr_next_token (example_relation x y) = y" for x y by (simp add: example_relation_def)
  show ?thesis
    using token_relationships_listed [of "example_account 0"
        "[(example_token 7, example_relation 7 (Some (example_token 8))), (example_token 8, example_relation 8 None)]"
        relation_reader example_proto "()"]
    by (simp add: q a n)
qed

end
