(* ===== verification/Metrics.thy ===== *)
theory Metrics
  imports Core_Types
begin

text \<open>
  The metrics registry (\<^verbatim>\<open>core/src/metrics.rs\<close>): the collectors of the node and their registration. The
  Prometheus library is a parameter: it builds a collector from a well-formed description and registers
  collectors of different names.
\<close>

section \<open>Prometheus\<close>

datatype collector_kind = IntCounter | IntGauge | CounterVec | GaugeVec | HistogramVec

text \<open>A collector with its kind, name, help text and label names.\<close>

datatype collector =
  Collector (collector_kind: collector_kind) (collector_name: string) (collector_help: string) (collector_labels: "string list")

record 'r prometheus =
  registry_new :: 'r
  collector_new :: "collector \<Rightarrow> unit res"
  registry_register :: "collector \<Rightarrow> 'r \<Rightarrow> 'r res"
  text_encode :: "'r \<Rightarrow> bytes \<times> error option"

text \<open>
  What the library asks of a description: a name of letters, digits, underscores and colons that does not
  begin with a digit, labels of the same form without colons, a help text, no label twice, and for
  histograms not the label of the buckets.
\<close>

definition name_start :: "char \<Rightarrow> bool" where
  "name_start c \<longleftrightarrow> c \<in> set ''abcdefghijklmnopqrstuvwxyzABCDEFGHIJKLMNOPQRSTUVWXYZ_''"

definition name_char :: "char \<Rightarrow> bool" where
  "name_char c \<longleftrightarrow> name_start c \<or> c \<in> set ''0123456789''"

fun valid_label_name :: "string \<Rightarrow> bool" where
  "valid_label_name [] \<longleftrightarrow> False"
| "valid_label_name (c # cs) \<longleftrightarrow> name_start c \<and> list_all name_char cs"

fun valid_metric_name :: "string \<Rightarrow> bool" where
  "valid_metric_name [] \<longleftrightarrow> False"
| "valid_metric_name (c # cs) \<longleftrightarrow> (name_start c \<or> c = CHR '':'') \<and> list_all (\<lambda>x. name_char x \<or> x = CHR '':'') cs"

definition well_formed :: "collector \<Rightarrow> bool" where
  "well_formed d \<longleftrightarrow> valid_metric_name (collector_name d) \<and> collector_help d \<noteq> [] \<and>
     list_all valid_label_name (collector_labels d) \<and> distinct (collector_labels d) \<and>
     (collector_kind d = HistogramVec \<longrightarrow> ''le'' \<notin> set (collector_labels d))"

locale prometheus_laws =
  fixes P :: "'r prometheus" and registered :: "'r \<Rightarrow> collector list"
  assumes new_empty: "registered (registry_new P) = []"
    and collector_ok: "well_formed d \<Longrightarrow> collector_new P d = Inr ()"
    and register_fresh: "collector_name d \<notin> collector_name ` set (registered r) \<Longrightarrow>
      \<exists>r'. registry_register P d r = Inr r' \<and> registered r' = registered r @ [d]"
    and register_again: "collector_name d \<in> collector_name ` set (registered r) \<Longrightarrow> \<exists>e. registry_register P d r = Inl e"

section \<open>The collectors\<close>

definition core_metrics :: "collector list" where
  "core_metrics = [
     Collector IntCounter ''rocknode_blocks_acknowledged''
       ''Total number of blocks acknowledged by the publish plugin after successful persistence.'' [],
     Collector IntGauge ''rocknode_active_publish_sessions''
       ''Number of currently active gRPC publisher sessions.'' []]"

definition block_access_metrics :: "collector list" where
  "block_access_metrics = [
     Collector CounterVec ''rocknode_block_access_requests_total''
       ''The total number of getBlock gRPC requests processed.'' [''status'', ''request_type''],
     Collector HistogramVec ''rocknode_block_access_request_duration_seconds''
       ''The duration of getBlock gRPC requests from start to finish, in seconds.'' [''status'', ''request_type''],
     Collector IntGauge ''rocknode_block_access_latest_available_block''
       ''The most recent block number known to be available for serving.'' []]"

definition server_status_metrics :: "collector list" where
  "server_status_metrics = [
     Collector CounterVec ''rocknode_server_status_requests_total''
       ''The total number of server_status gRPC requests processed.'' [''status''],
     Collector HistogramVec ''rocknode_server_status_request_duration_seconds''
       ''The duration of server_status gRPC requests, in seconds.'' [''status''],
     Collector IntGauge ''rocknode_server_status_earliest_available_block''
       ''The earliest block number reported by the status service.'' [],
     Collector IntGauge ''rocknode_server_status_latest_available_block''
       ''The latest block number reported by the status service.'' []]"

definition publish_metrics :: "collector list" where
  "publish_metrics = [
     Collector CounterVec ''rocknode_publish_blocks_received_total''
       ''Total number of block headers received from publishers, categorized by outcome.'' [''outcome''],
     Collector IntCounter ''rocknode_publish_items_processed_total''
       ''Total number of individual BlockItem messages processed by primary sessions.'' [],
     Collector HistogramVec ''rocknode_publish_persistence_duration_seconds''
       ''Duration from block publish to persistence acknowledgement.'' [''outcome''],
     Collector HistogramVec ''rocknode_publish_lifecycle_duration_seconds''
       ''Duration from receiving a block header to sending acknowledgement (or timeout) back to publisher.'' [''outcome''],
     Collector HistogramVec ''rocknode_publish_header_to_proof_duration_seconds''
       ''Duration from receiving a block header to receiving its corresponding proof.'' [],
     Collector GaugeVec ''rocknode_publish_average_header_to_proof_time_seconds''
       ''Average time between header and proof for each publisher session.'' [''session_id''],
     Collector CounterVec ''rocknode_publish_responses_sent_total''
       ''Total number of different response types sent back to publisher clients.'' [''response_type''],
     Collector HistogramVec ''rocknode_publish_session_duration_seconds''
       ''Duration of publisher sessions from connection to disconnection.'' []]"

definition persistence_metrics :: "collector list" where
  "persistence_metrics = [
     Collector CounterVec ''rocknode_persistence_writes_total''
       ''Total number of block writes, by type (live, batch).'' [''type''],
     Collector HistogramVec ''rocknode_persistence_write_duration_seconds''
       ''Duration of block writes, by type.'' [''type''],
     Collector HistogramVec ''rocknode_persistence_event_duration_seconds''
       ''Duration from receiving a block event to emitting BlockPersisted, end-to-end latency.'' [],
     Collector CounterVec ''rocknode_persistence_reads_total''
       ''Total number of block reads, by tier (hot, cold, not_found).'' [''tier''],
     Collector HistogramVec ''rocknode_persistence_read_duration_seconds''
       ''Duration of block reads, by tier.'' [''tier''],
     Collector IntCounter ''rocknode_persistence_archival_cycles_total''
       ''Total number of hot-to-cold archival cycles completed.'' [],
     Collector HistogramVec ''rocknode_persistence_archival_cycle_duration_seconds''
       ''Duration of the hot-to-cold archival cycle.'' [],
     Collector IntGauge ''rocknode_persistence_hot_tier_block_count''
       ''The current number of blocks in the hot tier storage.'' [],
     Collector IntGauge ''rocknode_persistence_cold_tier_block_count''
       ''The current number of blocks indexed in the cold tier storage.'' []]"

definition subscriber_metrics :: "collector list" where
  "subscriber_metrics = [
     Collector IntGauge ''rocknode_subscriber_active_sessions''
       ''Number of currently active gRPC subscriber sessions.'' [],
     Collector CounterVec ''rocknode_subscriber_blocks_sent_total''
       ''Total number of blocks sent to subscribers, by type (historical, live).'' [''type''],
     Collector CounterVec ''rocknode_subscriber_sessions_total''
       ''Total number of subscriber sessions, labeled by the final outcome.'' [''outcome''],
     Collector GaugeVec ''rocknode_subscriber_average_inter_block_time_seconds''
       ''Average time between blocks (seconds) for each subscriber session.'' [''session_id'']]"

definition backfill_metrics :: "collector list" where
  "backfill_metrics = [
     Collector IntCounter ''rocknode_backfill_gaps_found_total''
       ''Total number of block gaps detected by the GapFill mode.'' [],
     Collector CounterVec ''rocknode_backfill_blocks_fetched_total''
       ''Total number of blocks successfully fetched from peers.'' [''mode''],
     Collector CounterVec ''rocknode_backfill_peer_connection_attempts_total''
       ''Total number of connection attempts to peers.'' [''peer_address'', ''outcome''],
     Collector HistogramVec ''rocknode_backfill_stream_duration_seconds''
       ''Duration of a backfill stream from a single peer.'' [''peer_address'', ''mode''],
     Collector IntGauge ''rocknode_backfill_active_streams''
       ''Number of currently active backfill streams.'' [],
     Collector IntGauge ''rocknode_backfill_latest_continuous_block''
       ''The latest block number fetched in Continuous mode.'' []]"

definition all_metrics :: "collector list" where
  "all_metrics = core_metrics @ block_access_metrics @ server_status_metrics @ publish_metrics @ persistence_metrics @
     subscriber_metrics @ backfill_metrics"

section \<open>Registration\<close>

text \<open>Each collector is built and registered before the next one; the first error ends it.\<close>

fun register_metrics :: "'r prometheus \<Rightarrow> collector list \<Rightarrow> 'r \<Rightarrow> 'r res" where
  "register_metrics P [] r = Inr r"
| "register_metrics P (d # ds) r =
     and_then (collector_new P d) (\<lambda>_. and_then (registry_register P d r) (register_metrics P ds))"

definition with_registry :: "'r prometheus \<Rightarrow> 'r \<Rightarrow> 'r res" where
  "with_registry P r = register_metrics P all_metrics r"

definition metrics_new :: "'r prometheus \<Rightarrow> 'r res" where
  "metrics_new P = with_registry P (registry_new P)"

text \<open>An encoding error is only logged; what has been encoded is served.\<close>

definition gather :: "'r prometheus \<Rightarrow> 'r \<Rightarrow> bytes" where
  "gather P r = fst (text_encode P r)"

section \<open>Registration succeeds\<close>

lemma metrics_well_formed: "list_all well_formed all_metrics"
  by code_simp

lemma metric_names_distinct: "distinct (map collector_name all_metrics)"
  by code_simp

context prometheus_laws
begin

lemma register_metrics_ok:
  assumes "list_all well_formed ds" and "distinct (map collector_name ds)"
    and "collector_name ` set (registered r) \<inter> collector_name ` set ds = {}"
  shows "\<exists>r'. register_metrics P ds r = Inr r' \<and> registered r' = registered r @ ds"
  using assms
proof (induction ds arbitrary: r)
  case (Cons d ds)
  obtain r1 where r1: "registry_register P d r = Inr r1" "registered r1 = registered r @ [d]"
    using register_fresh [of d r] Cons.prems(3) by auto
  have "\<exists>r'. register_metrics P ds r1 = Inr r' \<and> registered r' = registered r1 @ ds"
    by (rule Cons.IH) (use Cons.prems r1(2) in auto)
  then show ?case using Cons.prems(1) r1 by (auto simp: collector_ok)
qed simp

text \<open>Registering the metrics in a registry that has one of them already fails.\<close>

lemma register_metrics_twice:
  assumes "d \<in> set ds" and "collector_name d \<in> collector_name ` set (registered r)" and "list_all well_formed ds"
  shows "\<exists>e. register_metrics P ds r = Inl e"
  using assms
proof (induction ds arbitrary: r)
  case (Cons c ds)
  show ?case
  proof (cases "collector_name c \<in> collector_name ` set (registered r)")
    case True
    then obtain e where "registry_register P c r = Inl e" using register_again by blast
    then show ?thesis using Cons.prems(3) by (auto simp: collector_ok)
  next
    case False
    then obtain r1 where r1: "registry_register P c r = Inr r1" "registered r1 = registered r @ [c]"
      using register_fresh by blast
    have "\<exists>e. register_metrics P ds r1 = Inl e"
      by (rule Cons.IH) (use Cons.prems False r1(2) in auto)
    then show ?thesis using Cons.prems(3) r1(1) by (auto simp: collector_ok)
  qed
qed simp

lemma metrics_new_ok: "\<exists>r. metrics_new P = Inr r \<and> registered r = all_metrics"
  using register_metrics_ok [OF metrics_well_formed metric_names_distinct, of "registry_new P"]
  by (simp add: metrics_new_def with_registry_def new_empty)

end

section \<open>A reference registry\<close>

definition ref_prometheus :: "collector list prometheus" where
  "ref_prometheus = \<lparr>
     registry_new = [],
     collector_new = (\<lambda>d. if well_formed d then Inr () else Inl (Other ''invalid collector'')),
     registry_register = (\<lambda>d r. if collector_name d \<in> set (map collector_name r) then Inl (Other ''duplicate collector'') else Inr (r @ [d])),
     text_encode = (\<lambda>r. ([], None))\<rparr>"

interpretation refm: prometheus_laws ref_prometheus id
  by unfold_locales (auto simp: ref_prometheus_def)

end
