(* ===== verification/Node.thy ===== *)
theory Node
  imports Pipeline Backfill Query_Service Metrics
begin

text \<open>
  The node as an application: the plugin trait (\<^verbatim>\<open>core/src/plugin.rs\<close>) and its ten implementations as
  far as their life cycle goes (\<^verbatim>\<open>initialize\<close>, \<^verbatim>\<open>register_grpc_services\<close>, \<^verbatim>\<open>start\<close> and \<^verbatim>\<open>stop\<close> in the
  \<^verbatim>\<open>lib.rs\<close> or \<^verbatim>\<open>plugin.rs\<close> of each plugin), the probes of the observability plugin, and \<^verbatim>\<open>main\<close>, which
  assembles, initialises, registers, starts and at the end stops them.
\<close>

section \<open>Context\<close>

datatype core_error =
    Configuration string
  | PluginInitialization string
  | PluginShutdown string
  | CoreIo error
  | CoreOther error

type_synonym 'a core_result = "(core_error, 'a) result"

text \<open>
  The providers of the context, by their type. The store behind the readers and the writer is that of
  the persistence service, the state reader that of the state manager.
\<close>

datatype service_provider =
    DatabaseManagerProvider
  | BlockReaderProvider
  | BlockWriterProvider
  | StateReaderProvider

datatype grpc_service =
    BlockStreamPublishService
  | BlockStreamSubscribeService
  | BlockAccessService
  | BlockNodeService
  | CryptoService
  | FileService
  | ConsensusService
  | NetworkService
  | ScheduleService
  | TokenService
  | SmartContractService

text \<open>
  The shared parts of the running node: the providers, the capabilities announced by spawned tasks, the
  store once the persistence service is initialised, the shared state of the publish plugin and the
  routes of the gRPC server.
\<close>

record 'db app =
  service_providers :: "service_provider set"
  announced :: "capability set"
  app_store :: "'db pstate option"
  app_shared :: "shared_state option"
  app_routes :: "grpc_service list"

definition register_service_provider :: "service_provider \<Rightarrow> 'db app \<Rightarrow> 'db app" where
  "register_service_provider p a = a\<lparr>service_providers := insert p (service_providers a)\<rparr>"

definition get_service_provider :: "service_provider \<Rightarrow> 'db app \<Rightarrow> service_provider option" where
  "get_service_provider p a = (if p \<in> service_providers a then Some p else None)"

section \<open>Plugins\<close>

datatype plugin_kind =
    PersistencePlugin
  | VerifierPlugin
  | PublishPlugin
  | SubscriberPlugin
  | BlockAccessPlugin
  | StatusPlugin
  | ObservabilityPlugin
  | StateManagementPlugin
  | QueryPlugin
  | BackfillPlugin

text \<open>
  The fields of the plugin structs: the context, the running flag, the receivers of the channels a plugin
  owns, whether its service (the persistence service, the state manager or the shared state) is made,
  the flag of the state plugin and the shutdown sender of the observability plugin.
\<close>

record plugin =
  pl_kind :: plugin_kind
  pl_context :: "config option"
  pl_running :: bool
  pl_rx_items :: bool
  pl_rx_verified :: bool
  pl_service :: bool
  pl_enabled :: bool
  pl_shutdown_tx :: bool

definition new_plugin :: "plugin_kind \<Rightarrow> bool \<Rightarrow> bool \<Rightarrow> plugin" where
  "new_plugin k rx_items rx_verified = \<lparr>pl_kind = k, pl_context = None, pl_running = False, pl_rx_items = rx_items,
     pl_rx_verified = rx_verified, pl_service = False, pl_enabled = False, pl_shutdown_tx = False\<rparr>"

fun plugin_name :: "plugin_kind \<Rightarrow> string" where
  "plugin_name PersistencePlugin = ''persistence-plugin''"
| "plugin_name VerifierPlugin = ''verifier-plugin''"
| "plugin_name PublishPlugin = ''publish-plugin''"
| "plugin_name SubscriberPlugin = ''subscriber-plugin''"
| "plugin_name BlockAccessPlugin = ''block-access-plugin''"
| "plugin_name StatusPlugin = ''status-plugin''"
| "plugin_name ObservabilityPlugin = ''observability-plugin''"
| "plugin_name StateManagementPlugin = ''rock-node-state-management-plugin''"
| "plugin_name QueryPlugin = ''rock-node-query-plugin''"
| "plugin_name BackfillPlugin = ''backfill-plugin''"

definition is_running :: "plugin \<Rightarrow> bool" where
  "is_running p = pl_running p"

subsection \<open>Initialisation\<close>

text \<open>What initialisation meets outside the node: the libraries, the cold directory, the database and the disk.\<close>

record 'db platform =
  pf_rocksdb :: "'db rocksdb"
  pf_codec :: codec
  pf_read_dir :: "path list res"
  pf_db :: 'db
  pf_disk :: disk
  pf_valid_address :: "string \<Rightarrow> bool"
  pf_receiver_alive :: bool

definition persistence_plugin_initialize :: "'db platform \<Rightarrow> config \<Rightarrow> plugin \<Rightarrow> 'db app \<Rightarrow> (plugin \<times> 'db app) core_result" where
  "persistence_plugin_initialize pf conf p a =
     (case get_service_provider DatabaseManagerProvider a of
        None \<Rightarrow> Inl (PluginInitialization ''DatabaseManagerProvider not found!'')
      | Some _ \<Rightarrow>
          (case fst (persistence_initialize (pf_rocksdb pf) (pf_codec pf) conf (pf_read_dir pf) (pf_db pf) (pf_disk pf)) of
             Inl e \<Rightarrow> Inl (CoreOther e)
           | Inr s \<Rightarrow>
               Inr (p\<lparr>pl_service := True, pl_context := Some conf\<rparr>,
                 (register_service_provider BlockWriterProvider (register_service_provider BlockReaderProvider a))
                   \<lparr>app_store := Some s, announced := insert ProvidesBlockReader (announced a)\<rparr>)))"

definition verifier_plugin_initialize :: "config \<Rightarrow> plugin \<Rightarrow> 'db app \<Rightarrow> (plugin \<times> 'db app) core_result" where
  "verifier_plugin_initialize conf p a =
     Inr (p\<lparr>pl_context := Some conf\<rparr>, a\<lparr>announced := verifier_initialize (announced a)\<rparr>)"

text \<open>A disabled publish plugin returns before it keeps the context.\<close>

definition publish_plugin_initialize :: "'db platform \<Rightarrow> config \<Rightarrow> plugin \<Rightarrow> 'db app \<Rightarrow> (plugin \<times> 'db app) core_result" where
  "publish_plugin_initialize pf conf p a =
     (let cfg = publish_service (plugins conf) in
      if \<not> publish_enabled cfg then Inr (p, a)
      else
        let latest = (case get_service_provider BlockReaderProvider a of
                        None \<Rightarrow> None
                      | Some _ \<Rightarrow> map_option (br_latest (persistence_reader (pf_rocksdb pf) (pf_codec pf))) (app_store a))
        in Inr (p\<lparr>pl_context := Some conf, pl_service := True\<rparr>, a\<lparr>app_shared := publish_initialize cfg latest\<rparr>))"

definition init_internal :: "config \<Rightarrow> plugin \<Rightarrow> 'db app \<Rightarrow> (plugin \<times> 'db app) res" where
  "init_internal conf p a =
     (if get_service_provider DatabaseManagerProvider a = None then Inl (Other ''DatabaseManagerProvider not found'')
      else if get_service_provider BlockReaderProvider a = None then Inl (Other ''BlockReaderProvider not found'')
      else Inr (p\<lparr>pl_service := True, pl_context := Some conf\<rparr>, register_service_provider StateReaderProvider a))"

text \<open>The state plugin wraps what went wrong in an initialisation error; here the message is that of the cause.\<close>

definition init_error :: "error \<Rightarrow> core_error" where
  "init_error e = PluginInitialization (case e of Other msg \<Rightarrow> msg | _ \<Rightarrow> [])"

definition state_plugin_initialize :: "config \<Rightarrow> plugin \<Rightarrow> 'db app \<Rightarrow> (plugin \<times> 'db app) core_result" where
  "state_plugin_initialize conf p a =
     (let enabled = state_management_enabled (state_management_service (plugins conf)); p' = p\<lparr>pl_enabled := enabled\<rparr> in
      if \<not> enabled then Inr (p'\<lparr>pl_context := Some conf\<rparr>, a)
      else (case init_internal conf p' a of Inl e \<Rightarrow> Inl (init_error e) | Inr r \<Rightarrow> Inr r))"

definition plugin_initialize :: "'db platform \<Rightarrow> config \<Rightarrow> plugin \<Rightarrow> 'db app \<Rightarrow> (plugin \<times> 'db app) core_result" where
  "plugin_initialize pf conf p a =
     (case pl_kind p of
        PersistencePlugin \<Rightarrow> persistence_plugin_initialize pf conf p a
      | VerifierPlugin \<Rightarrow> verifier_plugin_initialize conf p a
      | PublishPlugin \<Rightarrow> publish_plugin_initialize pf conf p a
      | StateManagementPlugin \<Rightarrow> state_plugin_initialize conf p a
      | ObservabilityPlugin \<Rightarrow> Inr (p\<lparr>pl_context := Some conf, pl_running := False\<rparr>, a)
      | QueryPlugin \<Rightarrow> Inr (p\<lparr>pl_context := Some conf, pl_running := False\<rparr>, a)
      | _ \<Rightarrow> Inr (p\<lparr>pl_context := Some conf\<rparr>, a))"

subsection \<open>Services\<close>

text \<open>
  A plugin adds its services to the routes if it is enabled and finds the provider it reads from. The
  result tells whether it has added any.
\<close>

definition need_context :: "string \<Rightarrow> plugin \<Rightarrow> config core_result" where
  "need_context msg p = (case pl_context p of None \<Rightarrow> Inl (PluginInitialization msg) | Some conf \<Rightarrow> Inr conf)"

definition add_services :: "grpc_service list \<Rightarrow> 'db app \<Rightarrow> (bool \<times> 'db app) core_result" where
  "add_services ss a = Inr (True, a\<lparr>app_routes := app_routes a @ ss\<rparr>)"

definition publish_register :: "plugin \<Rightarrow> 'db app \<Rightarrow> (bool \<times> 'db app) core_result" where
  "publish_register p a =
     and_then (need_context ''PublishPlugin not initialized'' p) (\<lambda>conf.
     if \<not> publish_enabled (publish_service (plugins conf)) then Inr (False, a)
     else add_services [BlockStreamPublishService] a)"

definition subscriber_register :: "plugin \<Rightarrow> 'db app \<Rightarrow> (bool \<times> 'db app) core_result" where
  "subscriber_register p a =
     and_then (need_context ''SubscriberPlugin not initialized'' p) (\<lambda>conf.
     if \<not> subscriber_enabled (subscriber_service (plugins conf)) then Inr (False, a)
     else add_services [BlockStreamSubscribeService] a)"

definition block_access_register :: "plugin \<Rightarrow> 'db app \<Rightarrow> (bool \<times> 'db app) core_result" where
  "block_access_register p a =
     and_then (need_context ''BlockAccessPlugin not initialized'' p) (\<lambda>conf.
     if \<not> block_access_enabled (block_access_service (plugins conf)) then Inr (False, a)
     else if get_service_provider BlockReaderProvider a = None then Inr (False, a)
     else add_services [BlockAccessService] a)"

definition status_register :: "plugin \<Rightarrow> 'db app \<Rightarrow> (bool \<times> 'db app) core_result" where
  "status_register p a =
     and_then (need_context ''StatusPlugin not initialized'' p) (\<lambda>conf.
     if \<not> server_status_enabled (server_status_service (plugins conf)) then Inr (False, a)
     else if get_service_provider BlockReaderProvider a = None then Inr (False, a)
     else add_services [BlockNodeService] a)"

definition query_services :: "grpc_service list" where
  "query_services = [CryptoService, FileService, ConsensusService, NetworkService, ScheduleService, TokenService, SmartContractService]"

definition query_register :: "plugin \<Rightarrow> 'db app \<Rightarrow> (bool \<times> 'db app) core_result" where
  "query_register p a =
     and_then (need_context ''QueryPlugin not initialized'' p) (\<lambda>conf.
     if \<not> query_enabled (query_service (plugins conf)) then Inr (False, a)
     else if get_service_provider StateReaderProvider a = None then Inr (False, a)
     else add_services query_services a)"

definition register_grpc_services :: "plugin \<Rightarrow> 'db app \<Rightarrow> (bool \<times> 'db app) core_result" where
  "register_grpc_services p a =
     (case pl_kind p of
        PublishPlugin \<Rightarrow> publish_register p a
      | SubscriberPlugin \<Rightarrow> subscriber_register p a
      | BlockAccessPlugin \<Rightarrow> block_access_register p a
      | StatusPlugin \<Rightarrow> status_register p a
      | QueryPlugin \<Rightarrow> query_register p a
      | _ \<Rightarrow> Inr (False, a))"

subsection \<open>Start and stop\<close>

definition persistence_start :: "plugin \<Rightarrow> plugin core_result" where
  "persistence_start p =
     and_then (need_context ''PersistencePlugin not initialized'' p) (\<lambda>_.
     if \<not> pl_service p then Inl (PluginInitialization ''PersistenceService not initialized'')
     else if \<not> pl_rx_verified p then Inl (PluginInitialization ''Block verified receiver not set'')
     else Inr (p\<lparr>pl_rx_verified := False, pl_rx_items := False, pl_running := True\<rparr>))"

definition verifier_start :: "plugin \<Rightarrow> plugin core_result" where
  "verifier_start p =
     (if pl_context p = None then Inl (CoreOther (Other ''VerifierPlugin not initialized''))
      else if \<not> pl_rx_items p then Inl (CoreOther (Other ''VerifierPlugin receiver already taken''))
      else Inr (p\<lparr>pl_rx_items := False, pl_running := True\<rparr>))"

definition publish_start :: "plugin \<Rightarrow> plugin core_result" where
  "publish_start p =
     and_then (need_context ''PublishPlugin not initialized'' p) (\<lambda>conf.
     if \<not> publish_enabled (publish_service (plugins conf)) then Inr p else Inr (p\<lparr>pl_running := True\<rparr>))"

definition enabled_start :: "string \<Rightarrow> (config \<Rightarrow> bool) \<Rightarrow> plugin \<Rightarrow> plugin core_result" where
  "enabled_start msg enabled p =
     and_then (need_context msg p) (\<lambda>conf. if enabled conf then Inr (p\<lparr>pl_running := True\<rparr>) else Inr p)"

definition subscriber_start :: "plugin \<Rightarrow> plugin core_result" where
  "subscriber_start = enabled_start ''SubscriberPlugin not initialized'' (\<lambda>conf. subscriber_enabled (subscriber_service (plugins conf)))"

definition block_access_start :: "plugin \<Rightarrow> plugin core_result" where
  "block_access_start = enabled_start ''BlockAccessPlugin not initialized'' (\<lambda>conf. block_access_enabled (block_access_service (plugins conf)))"

definition status_start :: "plugin \<Rightarrow> plugin core_result" where
  "status_start = enabled_start ''StatusPlugin not initialized'' (\<lambda>conf. server_status_enabled (server_status_service (plugins conf)))"

definition query_start :: "plugin \<Rightarrow> plugin core_result" where
  "query_start = enabled_start ''QueryPlugin not initialized'' (\<lambda>conf. query_enabled (query_service (plugins conf)))"

definition observability_start :: "'db platform \<Rightarrow> plugin \<Rightarrow> plugin core_result" where
  "observability_start pf p =
     (case pl_context p of
        None \<Rightarrow> Inl (CoreOther (Other ''ObservabilityPlugin not initialized''))
      | Some conf \<Rightarrow>
          if \<not> obs_enabled (observability (plugins conf)) then Inr p
          else if \<not> pf_valid_address pf (listen_address (observability (plugins conf)))
          then Inl (CoreOther (Other ''Invalid observability listen address''))
          else Inr (p\<lparr>pl_shutdown_tx := True, pl_running := True\<rparr>))"

text \<open>The start of the state plugin, whose task is \<open>start_internal\<close>; starting only spawns it.\<close>

definition state_plugin_start :: "plugin \<Rightarrow> plugin core_result" where
  "state_plugin_start p =
     (case pl_context p of
        None \<Rightarrow> Inl (PluginInitialization ''AppContext not initialized'')
      | Some conf \<Rightarrow>
          if \<not> pl_enabled p then Inr p
          else if start_block_number (core conf) > 0 then Inr p
          else if \<not> pl_service p then Inl (PluginInitialization ''StateManager not initialized'')
          else Inr (p\<lparr>pl_running := True\<rparr>))"

definition backfill_start :: "'db platform \<Rightarrow> 'db app \<Rightarrow> plugin \<Rightarrow> plugin core_result" where
  "backfill_start pf a p =
     and_then (need_context ''BackfillPlugin not initialized'' p) (\<lambda>conf.
     let cfg = backfill (plugins conf); R = pf_rocksdb pf; C = pf_codec pf in
     if \<not> backfill_enabled cfg then Inr p
     else if peers cfg = [] \<or> (\<forall>x \<in> set (peers cfg). x = []) then Inr p
     else (case backfill_new conf
             (map_option (\<lambda>_. persistence_reader R C) (get_service_provider BlockReaderProvider a))
             (map_option (\<lambda>_. persistence_writer R C (persistence_service (plugins conf)) (start_block_number (core conf)))
               (get_service_provider BlockWriterProvider a))
             (map_option (\<lambda>_. ps_db) (get_service_provider DatabaseManagerProvider a)) of
             Inl e \<Rightarrow> Inl (init_error e)
           | Inr _ \<Rightarrow> Inr (p\<lparr>pl_running := True\<rparr>)))"

definition plugin_start :: "'db platform \<Rightarrow> 'db app \<Rightarrow> plugin \<Rightarrow> plugin core_result" where
  "plugin_start pf a p =
     (case pl_kind p of
        PersistencePlugin \<Rightarrow> persistence_start p
      | VerifierPlugin \<Rightarrow> verifier_start p
      | PublishPlugin \<Rightarrow> publish_start p
      | SubscriberPlugin \<Rightarrow> subscriber_start p
      | BlockAccessPlugin \<Rightarrow> block_access_start p
      | StatusPlugin \<Rightarrow> status_start p
      | ObservabilityPlugin \<Rightarrow> observability_start pf p
      | StateManagementPlugin \<Rightarrow> state_plugin_start p
      | QueryPlugin \<Rightarrow> query_start p
      | BackfillPlugin \<Rightarrow> backfill_start pf a p)"

text \<open>
  Stopping clears the running flag. The observability plugin first signals its server and keeps the
  flag if the server is gone already.
\<close>

definition observability_stop :: "'db platform \<Rightarrow> plugin \<Rightarrow> unit core_result \<times> plugin" where
  "observability_stop pf p =
     (if pl_shutdown_tx p \<and> \<not> pf_receiver_alive pf
      then (Inl (PluginShutdown ''Failed to send shutdown signal to Observability server: receiver dropped.''), p\<lparr>pl_shutdown_tx := False\<rparr>)
      else (Inr (), p\<lparr>pl_shutdown_tx := False, pl_running := False\<rparr>))"

definition plugin_stop :: "'db platform \<Rightarrow> plugin \<Rightarrow> unit core_result \<times> plugin" where
  "plugin_stop pf p =
     (case pl_kind p of
        ObservabilityPlugin \<Rightarrow> observability_stop pf p
      | PublishPlugin \<Rightarrow> if \<not> is_running p then (Inr (), p) else (Inr (), p\<lparr>pl_running := False\<rparr>)
      | _ \<Rightarrow> (Inr (), p\<lparr>pl_running := False\<rparr>))"

subsection \<open>The observability server\<close>

datatype status_code = StatusOk | ServiceUnavailable | InternalServerError | NotFound

definition health_check :: "status_code \<times> string" where
  "health_check = (StatusOk, ''OK'')"

definition readiness_check :: "capability_registry \<Rightarrow> status_code \<times> string" where
  "readiness_check reg =
     (if \<not> is_registered ProvidesBlockReader reg then (ServiceUnavailable, ''NOT_READY'') else (StatusOk, ''READY''))"

text \<open>The metrics text is served as it is gathered, unless the response cannot be built.\<close>

definition get_metrics :: "'r prometheus \<Rightarrow> bool \<Rightarrow> 'r \<Rightarrow> status_code \<times> bytes" where
  "get_metrics P response_built r =
     (if response_built then (StatusOk, gather P r) else (InternalServerError, ascii ''Internal Server Error''))"

definition observability_route ::
    "'r prometheus \<Rightarrow> capability_registry \<Rightarrow> 'r \<Rightarrow> string \<Rightarrow> status_code \<times> bytes" where
  "observability_route P reg r path =
     (if path = ''/livez'' then map_prod id ascii health_check
      else if path = ''/readyz'' then map_prod id ascii (readiness_check reg)
      else if path = ''/metrics'' then get_metrics P True r
      else (NotFound, []))"

text \<open>The task of the server: it runs until binding fails or serving ends, by the signal or an error.\<close>

definition observability_task :: "bool \<Rightarrow> bool \<Rightarrow> plugin \<Rightarrow> plugin" where
  "observability_task bound ended p =
     (if \<not> bound then p\<lparr>pl_running := False\<rparr> else if ended then p\<lparr>pl_running := False\<rparr> else p)"

section \<open>Main\<close>

definition assemble_plugins :: "config \<Rightarrow> plugin list" where
  "assemble_plugins conf =
     (if verification_enabled (verification_service (plugins conf))
      then [new_plugin PersistencePlugin False True, new_plugin VerifierPlugin True False]
      else [new_plugin PersistencePlugin True True]) @
     map (\<lambda>k. new_plugin k False False)
       [PublishPlugin, SubscriberPlugin, BlockAccessPlugin, StatusPlugin, ObservabilityPlugin, StateManagementPlugin,
        QueryPlugin, BackfillPlugin]"

definition app_new :: "'db app" where
  "app_new = \<lparr>service_providers = {DatabaseManagerProvider}, announced = {}, app_store = None, app_shared = None, app_routes = []\<rparr>"

fun initialize_all :: "'db platform \<Rightarrow> config \<Rightarrow> plugin list \<Rightarrow> 'db app \<Rightarrow> (plugin list \<times> 'db app) core_result" where
  "initialize_all pf conf [] a = Inr ([], a)"
| "initialize_all pf conf (p # ps) a =
     and_then (plugin_initialize pf conf p a) (\<lambda>(p', a').
     and_then (initialize_all pf conf ps a') (\<lambda>(ps', a''). Inr (p' # ps', a'')))"

text \<open>Whether any plugin has added services decides whether the gRPC server is started.\<close>

fun register_all :: "plugin list \<Rightarrow> bool \<Rightarrow> 'db app \<Rightarrow> (bool \<times> 'db app) core_result" where
  "register_all [] found a = Inr (found, a)"
| "register_all (p # ps) found a =
     and_then (register_grpc_services p a) (\<lambda>(added, a'). register_all ps (found \<or> added) a')"

fun start_all :: "'db platform \<Rightarrow> 'db app \<Rightarrow> plugin list \<Rightarrow> plugin list core_result" where
  "start_all pf a [] = Inr []"
| "start_all pf a (p # ps) =
     and_then (plugin_start pf a p) (\<lambda>p'. and_then (start_all pf a ps) (\<lambda>ps'. Inr (p' # ps')))"

definition grpc_listen_address :: "config \<Rightarrow> string" where
  "grpc_listen_address conf = grpc_address (core conf) @ '':'' @ show_dec (unat (grpc_port (core conf)))"

text \<open>Up to the report: the plugins, the shared parts, and whether the server is started.\<close>

definition node_boot :: "'db platform \<Rightarrow> config \<Rightarrow> (plugin list \<times> 'db app \<times> bool) core_result" where
  "node_boot pf conf =
     and_then (initialize_all pf conf (assemble_plugins conf) app_new) (\<lambda>(ps, a).
     if \<not> pf_valid_address pf (grpc_listen_address conf) then Inl (CoreOther (Other ''invalid socket address syntax''))
     else
       and_then (register_all ps False a) (\<lambda>(found, a').
       and_then (start_all pf a' ps) (\<lambda>ps'. Inr (ps', a', found))))"

subsection \<open>Report\<close>

text \<open>The symbols of the report in UTF-8.\<close>

definition check_mark :: string where
  "check_mark = [CHR 0xE2, CHR 0x9C, CHR 0x85]"

definition cross_mark :: string where
  "cross_mark = [CHR 0xE2, CHR 0x9D, CHR 0x8C]"

definition warning_sign :: string where
  "warning_sign = [CHR 0xE2, CHR 0x9A, CHR 0xA0, CHR 0xEF, CHR 0xB8, CHR 0x8F]"

fun join_lines :: "string list \<Rightarrow> string" where
  "join_lines [] = []"
| "join_lines [x] = x"
| "join_lines (x # y # xs) = x @ CHR 0x0A # join_lines (y # xs)"

definition format_plugin_list :: "string list \<Rightarrow> string \<Rightarrow> string" where
  "format_plugin_list names symbol =
     (if names = [] then ''None''
      else join_lines (map (\<lambda>x. ''  '' @ symbol @ '' '' @ x @ '' - '' @ (if symbol = check_mark then ''OK'' else ''FAILED'')) names))"

definition analyze_plugin_startup_results :: "nat \<Rightarrow> string list \<Rightarrow> string list \<Rightarrow> string \<times> bool" where
  "analyze_plugin_startup_results total_plugins running_plugins failed_plugins =
     (let all_successful = (failed_plugins = []) in
      (if all_successful then check_mark @ '' All '' @ show_dec total_plugins @ '' plugins started successfully!''
       else warning_sign @ ''  Some plugins failed to start:'' @ CHR 0x0A # format_plugin_list failed_plugins cross_mark @
         CHR 0x0A # check_mark @ '' '' @ show_dec (length running_plugins) @ '' plugins running:'' @
         CHR 0x0A # format_plugin_list running_plugins check_mark,
       all_successful))"

text \<open>The two lines that are logged. A plugin that does not run counts as failed, also if it is disabled.\<close>

definition report_plugin_startup_status :: "plugin list \<Rightarrow> string list" where
  "report_plugin_startup_status ps =
     (let running_plugins = map (plugin_name \<circ> pl_kind) (filter is_running ps);
          failed_plugins = map (plugin_name \<circ> pl_kind) (filter (\<lambda>p. \<not> is_running p) ps) in
      [fst (analyze_plugin_startup_results (length ps) running_plugins failed_plugins),
       if failed_plugins = [] then ''Rock Node running successfully!''
       else ''Rock Node running successfully! However, some plugins may not be available!''])"

subsection \<open>From the configuration to the running node\<close>

text \<open>
  What \<^verbatim>\<open>main\<close> meets outside the node before there are plugins: the configuration file, the log filter, the
  database and the metrics library. The rest of the platform depends on the opened database.
\<close>

record ('db, 'r) environment =
  ev_config_exists :: bool
  ev_config :: "config res"
  ev_valid_directive :: "string \<Rightarrow> bool"
  ev_open_db :: "string \<Rightarrow> string list \<Rightarrow> 'db res"
  ev_prometheus :: "'r prometheus"
  ev_platform :: "'db platform"

definition validate_config_file_exists :: "('db, 'r) environment \<Rightarrow> unit core_result" where
  "validate_config_file_exists env =
     (if ev_config_exists env then Inr () else Inl (CoreOther (Other ''Config file not found'')))"

definition cf_descriptors :: "string list" where
  "cf_descriptors = ''default'' # map cf_string [CF_METADATA, CF_HOT_BLOCKS, CF_STATE_DATA, CF_GAPS, CF_SKIPPED_BATCHES]"

definition database_new :: "('db, 'r) environment \<Rightarrow> string \<Rightarrow> 'db core_result" where
  "database_new env path = map_sum CoreOther id (ev_open_db env path cf_descriptors)"

definition node_main :: "('db, 'r) environment \<Rightarrow> (plugin list \<times> 'db app \<times> bool \<times> 'r) core_result" where
  "node_main env =
     and_then (validate_config_file_exists env) (\<lambda>_.
     and_then (map_sum CoreOther id (ev_config env)) (\<lambda>conf.
     if \<not> ev_valid_directive env (log_level (core conf)) then Inl (CoreOther (Other ''invalid filter directive''))
     else
       and_then (database_new env (database_path (core conf))) (\<lambda>db.
       and_then (map_sum CoreOther id (metrics_new (ev_prometheus env))) (\<lambda>r.
       and_then (node_boot ((ev_platform env)\<lparr>pf_db := db\<rparr>) conf) (\<lambda>(ps, a, found).
       Inr (ps, a, found, r))))))"

subsection \<open>Shutdown\<close>

text \<open>At the end the plugins that run are stopped, the last one first; errors are only logged.\<close>

definition stop_running :: "'db platform \<Rightarrow> plugin \<Rightarrow> plugin" where
  "stop_running pf p = (if is_running p then snd (plugin_stop pf p) else p)"

definition node_shutdown :: "'db platform \<Rightarrow> plugin list \<Rightarrow> plugin list" where
  "node_shutdown pf ps = rev (map (stop_running pf) (rev ps))"

section \<open>A start that succeeds\<close>

text \<open>A plugin after its initialisation, and after its start.\<close>

definition initialized :: "config \<Rightarrow> plugin \<Rightarrow> plugin" where
  "initialized conf p =
     (let publishes = publish_enabled (publish_service (plugins conf));
          tracks = state_management_enabled (state_management_service (plugins conf)) in
      p\<lparr>pl_context := if pl_kind p = PublishPlugin \<and> \<not> publishes then None else Some conf,
        pl_service := pl_kind p = PersistencePlugin \<or> pl_kind p = PublishPlugin \<and> publishes \<or> pl_kind p = StateManagementPlugin \<and> tracks,
        pl_enabled := pl_kind p = StateManagementPlugin \<and> tracks\<rparr>)"

text \<open>Which plugins run in the end, and which services are routed.\<close>

fun expected_running :: "config \<Rightarrow> plugin_kind \<Rightarrow> bool" where
  "expected_running conf PersistencePlugin \<longleftrightarrow> True"
| "expected_running conf VerifierPlugin \<longleftrightarrow> True"
| "expected_running conf PublishPlugin \<longleftrightarrow> publish_enabled (publish_service (plugins conf))"
| "expected_running conf SubscriberPlugin \<longleftrightarrow> subscriber_enabled (subscriber_service (plugins conf))"
| "expected_running conf BlockAccessPlugin \<longleftrightarrow> block_access_enabled (block_access_service (plugins conf))"
| "expected_running conf StatusPlugin \<longleftrightarrow> server_status_enabled (server_status_service (plugins conf))"
| "expected_running conf ObservabilityPlugin \<longleftrightarrow> obs_enabled (observability (plugins conf))"
| "expected_running conf StateManagementPlugin \<longleftrightarrow>
     state_management_enabled (state_management_service (plugins conf)) \<and> start_block_number (core conf) = 0"
| "expected_running conf QueryPlugin \<longleftrightarrow> query_enabled (query_service (plugins conf))"
| "expected_running conf BackfillPlugin \<longleftrightarrow> backfill_enabled (backfill (plugins conf)) \<and> (\<exists>x \<in> set (peers (backfill (plugins conf))). x \<noteq> [])"

definition expected_routes :: "config \<Rightarrow> grpc_service list" where
  "expected_routes conf =
     (let c = plugins conf in
      [BlockStreamPublishService] @
      (if subscriber_enabled (subscriber_service c) then [BlockStreamSubscribeService] else []) @
      (if block_access_enabled (block_access_service c) then [BlockAccessService] else []) @
      (if server_status_enabled (server_status_service c) then [BlockNodeService] else []) @
      (if query_enabled (query_service c) \<and> state_management_enabled (state_management_service c) then query_services else []))"

definition storage_ready :: "'db platform \<Rightarrow> config \<Rightarrow> 'db pstate res" where
  "storage_ready pf conf =
     fst (persistence_initialize (pf_rocksdb pf) (pf_codec pf) conf (pf_read_dir pf) (pf_db pf) (pf_disk pf))"

text \<open>The shared parts after initialisation.\<close>

definition initialized_app :: "'db platform \<Rightarrow> config \<Rightarrow> 'db pstate \<Rightarrow> 'db app" where
  "initialized_app pf conf s =
     (let c = plugins conf in
      \<lparr>service_providers = {DatabaseManagerProvider, BlockReaderProvider, BlockWriterProvider} \<union>
         (if state_management_enabled (state_management_service c) then {StateReaderProvider} else {}),
       announced = {ProvidesBlockReader} \<union>
         (if verification_enabled (verification_service c) then {ProvidesVerifiedBlocks} else {}),
       app_store = Some s,
       app_shared = publish_initialize (publish_service c) (Some (get_latest_persisted_block_number (pf_rocksdb pf) s)),
       app_routes = []\<rparr>)"

lemmas initialize_defs = plugin_initialize_def persistence_plugin_initialize_def verifier_plugin_initialize_def
  publish_plugin_initialize_def state_plugin_initialize_def init_internal_def get_service_provider_def
  register_service_provider_def

lemma initialize_all_ready:
  "initialize_all pf conf (assemble_plugins conf) app_new =
    (case storage_ready pf conf of
       Inl e \<Rightarrow> Inl (CoreOther e)
     | Inr s \<Rightarrow> Inr (map (initialized conf) (assemble_plugins conf), initialized_app pf conf s))"
proof (cases "storage_ready pf conf")
  case (Inl e)
  then show ?thesis
    by (simp add: storage_ready_def assemble_plugins_def initialize_defs new_plugin_def app_new_def)
next
  case (Inr s)
  then show ?thesis
    by (simp add: storage_ready_def assemble_plugins_def initialize_defs new_plugin_def app_new_def initialized_def
        initialized_app_def Let_def verifier_initialize_def register_def publish_initialize_def persistence_reader_def insert_commute)
qed

lemmas register_defs = register_grpc_services_def publish_register_def subscriber_register_def block_access_register_def
  status_register_def query_register_def need_context_def get_service_provider_def add_services_def

lemma register_all_ready:
  "register_all (map (initialized conf) (assemble_plugins conf)) False (initialized_app pf conf s) =
    (if publish_enabled (publish_service (plugins conf))
     then Inr (True, (initialized_app pf conf s)\<lparr>app_routes := expected_routes conf\<rparr>)
     else Inl (PluginInitialization ''PublishPlugin not initialized''))"
  by (simp add: assemble_plugins_def register_defs initialized_def new_plugin_def Let_def initialized_app_def expected_routes_def)

lemmas start_defs = plugin_start_def persistence_start_def verifier_start_def publish_start_def subscriber_start_def
  block_access_start_def status_start_def observability_start_def state_plugin_start_def query_start_def backfill_start_def
  enabled_start_def need_context_def get_service_provider_def backfill_new_def

text \<open>A started plugin, when its start does not fail.\<close>

definition started :: "config \<Rightarrow> plugin \<Rightarrow> plugin" where
  "started conf p = p\<lparr>pl_running := expected_running conf (pl_kind p), pl_rx_items := False, pl_rx_verified := False,
     pl_shutdown_tx := pl_kind p = ObservabilityPlugin \<and> obs_enabled (observability (plugins conf))\<rparr>"

lemma start_all_ready:
  assumes "publish_enabled (publish_service (plugins conf))"
    and "service_providers a \<supseteq> {DatabaseManagerProvider, BlockReaderProvider, BlockWriterProvider}"
  shows "start_all pf a (map (initialized conf) (assemble_plugins conf)) =
    (if obs_enabled (observability (plugins conf)) \<and> \<not> pf_valid_address pf (listen_address (observability (plugins conf)))
     then Inl (CoreOther (Other ''Invalid observability listen address''))
     else Inr (map (started conf) (map (initialized conf) (assemble_plugins conf))))"
proof -
  have "0 < start_block_number (core conf) \<longleftrightarrow> start_block_number (core conf) \<noteq> 0" by (simp add: word_gt_0)
  then show ?thesis using assms
    by (simp add: assemble_plugins_def start_defs initialized_def started_def new_plugin_def Let_def)
qed

text \<open>Starting step by step: the errors in the order they are met, and the node if there are none.\<close>

lemma node_boot_ready:
  "node_boot pf conf =
    (case storage_ready pf conf of
       Inl e \<Rightarrow> Inl (CoreOther e)
     | Inr s \<Rightarrow>
         if \<not> pf_valid_address pf (grpc_listen_address conf) then Inl (CoreOther (Other ''invalid socket address syntax''))
         else if \<not> publish_enabled (publish_service (plugins conf)) then Inl (PluginInitialization ''PublishPlugin not initialized'')
         else if obs_enabled (observability (plugins conf)) \<and> \<not> pf_valid_address pf (listen_address (observability (plugins conf)))
         then Inl (CoreOther (Other ''Invalid observability listen address''))
         else Inr (map (started conf) (map (initialized conf) (assemble_plugins conf)),
           (initialized_app pf conf s)\<lparr>app_routes := expected_routes conf\<rparr>, True))"
proof (cases "storage_ready pf conf")
  case (Inr s)
  have "{DatabaseManagerProvider, BlockReaderProvider, BlockWriterProvider} \<subseteq>
      service_providers ((initialized_app pf conf s)\<lparr>app_routes := expected_routes conf\<rparr>)"
    by (simp add: initialized_app_def Let_def)
  with Inr show ?thesis by (simp add: node_boot_def initialize_all_ready register_all_ready start_all_ready)
qed (simp add: node_boot_def initialize_all_ready)

lemma node_boot_iff:
  "(\<exists>x. node_boot pf conf = Inr x) \<longleftrightarrow>
    (\<exists>s. storage_ready pf conf = Inr s) \<and> pf_valid_address pf (grpc_listen_address conf) \<and>
    publish_enabled (publish_service (plugins conf)) \<and>
    (obs_enabled (observability (plugins conf)) \<longrightarrow> pf_valid_address pf (listen_address (observability (plugins conf))))"
  by (auto simp: node_boot_ready split: sum.splits)

lemma map_sum_Inr [simp]: "map_sum f id z = Inr y \<longleftrightarrow> z = Inr y"
  by (cases z) simp_all

lemma node_main_Inr:
  "node_main env = Inr x \<longleftrightarrow> ev_config_exists env \<and>
    (\<exists>conf db r ps a found. ev_config env = Inr conf \<and> ev_valid_directive env (log_level (core conf)) \<and>
      ev_open_db env (database_path (core conf)) cf_descriptors = Inr db \<and> metrics_new (ev_prometheus env) = Inr r \<and>
      node_boot ((ev_platform env)\<lparr>pf_db := db\<rparr>) conf = Inr (ps, a, found) \<and> x = (ps, a, found, r))"
  by (auto simp: node_main_def validate_config_file_exists_def database_new_def and_then_Inr)

section \<open>Properties\<close>

text \<open>
  C14: When the node starts. Starting succeeds exactly if the configuration file exists and loads with a valid
  log level, the database opens, the storage can be initialised on it, the address of the gRPC server
  and, if the observability plugin is enabled, its address are valid, and the publish plugin is enabled:
  a node whose publish plugin is disabled never starts. Registering the metrics never prevents a start, and
  a started node has all of them.
\<close>

theorem node_starts_iff:
  assumes "prometheus_laws (ev_prometheus env) registered"
  shows "((\<exists>x. node_main env = Inr x) \<longleftrightarrow>
      ev_config_exists env \<and>
      (\<exists>conf db s. ev_config env = Inr conf \<and> ev_valid_directive env (log_level (core conf)) \<and>
        ev_open_db env (database_path (core conf)) cf_descriptors = Inr db \<and>
        storage_ready ((ev_platform env)\<lparr>pf_db := db\<rparr>) conf = Inr s \<and>
        pf_valid_address (ev_platform env) (grpc_listen_address conf) \<and>
        publish_enabled (publish_service (plugins conf)) \<and>
        (obs_enabled (observability (plugins conf)) \<longrightarrow>
          pf_valid_address (ev_platform env) (listen_address (observability (plugins conf)))))) \<and>
    (\<forall>ps a found r. node_main env = Inr (ps, a, found, r) \<longrightarrow> registered r = all_metrics)"
proof -
  obtain r where r: "metrics_new (ev_prometheus env) = Inr r" "registered r = all_metrics"
    using prometheus_laws.metrics_new_ok [OF assms] by blast
  have "(\<exists>x. node_main env = Inr x) \<longleftrightarrow> ev_config_exists env \<and>
      (\<exists>conf db. ev_config env = Inr conf \<and> ev_valid_directive env (log_level (core conf)) \<and>
        ev_open_db env (database_path (core conf)) cf_descriptors = Inr db \<and>
        (\<exists>x. node_boot ((ev_platform env)\<lparr>pf_db := db\<rparr>) conf = Inr x))"
    unfolding node_main_Inr r(1) by fastforce
  then show ?thesis unfolding node_boot_iff using r by (auto simp: node_main_Inr)
qed

text \<open>
  C20: What a started node runs and serves. Its plugins run as configured, the persistence plugin always;
  the services of every enabled plugin are routed, those of the query plugin only if the state is
  tracked too, and the server is started; every provider a routed service reads from is present, the
  publish plugin has taken over the latest block in storage, the node becomes ready as soon as its
  announced capabilities are registered, and the startup report is clean exactly if no plugin is
  switched off, since it counts a disabled plugin as failed.
\<close>

theorem started_node_serves:
  assumes "node_boot pf conf = Inr (ps, a, found)"
  shows "(\<forall>p \<in> set ps. is_running p = expected_running conf (pl_kind p)) \<and> found \<and> app_routes a = expected_routes conf \<and>
    {BlockReaderProvider, BlockWriterProvider, DatabaseManagerProvider} \<subseteq> service_providers a \<and>
    (CryptoService \<in> set (app_routes a) \<longrightarrow> StateReaderProvider \<in> service_providers a) \<and>
    (\<exists>s. storage_ready pf conf = Inr s \<and> app_store a = Some s \<and>
      app_shared a = publish_initialize (publish_service (plugins conf)) (Some (get_latest_persisted_block_number (pf_rocksdb pf) s))) \<and>
    readiness_check (announced a) = (StatusOk, ''READY'') \<and>
    (report_plugin_startup_status ps ! 1 = ''Rock Node running successfully!'' \<longleftrightarrow> (\<forall>p \<in> set ps. expected_running conf (pl_kind p)))"
proof -
  obtain s where s: "storage_ready pf conf = Inr s"
    using assms by (cases "storage_ready pf conf") (simp_all add: node_boot_ready)
  have r: "ps = map (started conf) (map (initialized conf) (assemble_plugins conf))" "found"
    "a = (initialized_app pf conf s)\<lparr>app_routes := expected_routes conf\<rparr>"
    using assms by (auto simp: node_boot_ready s split: if_splits)
  have "is_running p = expected_running conf (pl_kind p)" if "p \<in> set ps" for p
    using that by (auto simp: r(1) started_def is_running_def)
  then show ?thesis using r(2)
    by (auto simp: r(3) s initialized_app_def Let_def expected_routes_def query_services_def readiness_check_def is_registered_def
        report_plugin_startup_status_def filter_empty_conv)
qed

text \<open>
  A shutdown stops every plugin. While the observability server is there to take its signal, no plugin
  runs after a shutdown, whichever were running, and no plugin is lost.
\<close>

lemma shutdown_stops_all:
  assumes "pf_receiver_alive pf"
  shows "(\<forall>p \<in> set (node_shutdown pf ps). \<not> is_running p) \<and> map pl_kind (node_shutdown pf ps) = map pl_kind ps"
proof -
  have "\<not> is_running (stop_running pf p) \<and> pl_kind (stop_running pf p) = pl_kind p" for p
    using assms by (simp add: stop_running_def plugin_stop_def observability_stop_def is_running_def split: plugin_kind.splits)
  then show ?thesis by (simp add: node_shutdown_def rev_map)
qed

section \<open>Examples\<close>

text \<open>The default configuration on an empty store.\<close>

definition example_platform :: "ref_db platform" where
  "example_platform = \<lparr>pf_rocksdb = ref_rocksdb, pf_codec = ref_codec, pf_read_dir = Inr [], pf_db = ref_empty,
     pf_disk = empty_disk, pf_valid_address = (\<lambda>_. True), pf_receiver_alive = True\<rparr>"

definition silent_config :: config where
  "silent_config = example_config\<lparr>plugins := (plugins example_config)\<lparr>publish_service := default_publish_config\<lparr>publish_enabled := False\<rparr>\<rparr>\<rparr>"

lemma example_storage: "\<exists>s. storage_ready example_platform example_config = Inr s"
proof -
  have "\<exists>s0 d'. persistence_initialize ref_rocksdb ref_codec example_config (Inr []) ref_empty empty_disk = (Inr s0, d')"
    using example_run [of 1] by blast
  then show ?thesis by (auto simp: storage_ready_def example_platform_def)
qed

lemmas example_flags = example_config_def default_plugin_configs_def default_publish_config_def default_subscriber_config_def
  default_block_access_config_def default_server_status_config_def default_query_config_def default_state_management_config_def

definition example_environment :: "config \<Rightarrow> (ref_db, collector list) environment" where
  "example_environment conf = \<lparr>ev_config_exists = True, ev_config = Inr conf, ev_valid_directive = (\<lambda>_. True),
     ev_open_db = (\<lambda>_ _. Inr ref_empty), ev_prometheus = ref_prometheus, ev_platform = example_platform\<rparr>"

theorem node_starts_iff_witness:
  "(\<exists>x. node_main (example_environment example_config) = Inr x) \<and>
    \<not> (\<exists>x. node_main (example_environment silent_config) = Inr x)"
proof -
  have laws: "prometheus_laws (ev_prometheus (example_environment conf)) id" for conf
    using refm.prometheus_laws_axioms by (simp add: example_environment_def)
  have pf: "example_platform\<lparr>pf_db := ref_empty\<rparr> = example_platform" "pf_valid_address example_platform x" for x
    by (simp_all add: example_platform_def)
  have pub: "publish_enabled (publish_service (plugins example_config))" "\<not> publish_enabled (publish_service (plugins silent_config))"
    by (simp_all add: silent_config_def example_flags)
  show ?thesis using node_starts_iff [OF laws, of example_config] node_starts_iff [OF laws, of silent_config] example_storage pub
    by (simp add: example_environment_def pf)
qed

theorem started_node_serves_witness:
  "\<exists>ps a. node_boot example_platform example_config = Inr (ps, a, True) \<and>
    app_routes a = [BlockStreamPublishService, BlockStreamSubscribeService, BlockAccessService, BlockNodeService] @ query_services"
proof -
  obtain s where s: "storage_ready example_platform example_config = Inr s" using example_storage by blast
  have "\<exists>ps a. node_boot example_platform example_config = Inr (ps, a, True)"
    by (simp add: node_boot_ready s) (simp add: example_platform_def example_flags)
  then obtain ps a where r: "node_boot example_platform example_config = Inr (ps, a, True)" by blast
  from started_node_serves [OF r] r show ?thesis by (auto simp: expected_routes_def example_flags)
qed

end
