(* ===== verification/Spec2Isabelle.thy ===== *)
theory Spec2Isabelle
  imports Pipeline Subscriber Block_Access Backfill State_Mgmt Query_Service Metrics Node
begin

text \<open>
  A verification library for Rock-Node, a block node written in Rust: it receives the blocks of a network
  from publishers, verifies and stores them, and serves them, and the ledger state they lead to, to
  clients. Paths below are relative to \<^verbatim>\<open>src/crates\<close>; \<^verbatim>\<open>core\<close> stands for \<^verbatim>\<open>rock-node-core\<close> and the name of a
  plugin for \<^verbatim>\<open>rock-node-<name>-plugin\<close>.

  \<^bold>\<open>The program.\<close> The binary (\<^verbatim>\<open>src/app/rock-node/src/main.rs\<close>) loads a configuration, opens one RocksDB
  database and runs ten plugins. They share an application context: the configuration, the channels of a
  message bus, a cache of block contents, a registry of capabilities and a table of service providers.
  A block takes this way. A publisher session (publish) wins the election for a block number, collects the
  items, puts the encoded block into the cache and announces it on the bus. The verifier takes the
  contents from the cache and announces the block as verified or failed. Persistence, which listens to the
  verified blocks if a verifier is registered and to the received ones otherwise, writes the block to the
  hot tier, announces it, and an archiver moves the oldest batches to files of the cold tier. The session
  that waits for the announcement acknowledges the block to the publishers. Subscriber, block access and
  server status read through the block reader interface; backfill asks peers for missing blocks and writes
  them through the block writer interface; state management applies the state changes of persisted blocks
  to the database, and query answers from them through the state reader interface. Observability serves
  the probes and the metrics.

  \<^bold>\<open>Conventions.\<close> Unsigned integers are words of their width, so arithmetic wraps around as in a release
  build; signed ones are integers with the casts written out. Bytes are lists of 8-bit words. Fallible
  code returns a sum with the error on the left, and \<open>and_then\<close> is the question mark operator. State is
  passed on explicitly. Code outside the repository is a parameter: a record of operations, with the
  documented behaviour as the assumptions of a locale, and a reference instance that satisfies them and on
  which the examples run. What comes from outside (requests, answers of peers, the order of events, time,
  fresh keys, faults of the disk) is an argument, or a choice of a step relation. Waiting for ever is None.

  \<^bold>\<open>Foundations.\<close>
  \<^item> \<open>Prelude\<close>: casts, saturating operations, big-endian keys and their order, results.
  \<^item> \<open>Store\<close>: RocksDB as the record \<open>rocksdb\<close> with the contract \<open>rocksdb_laws\<close>: column families are maps, a
    batch is applied as a whole, iteration is ordered. The contract is that of an open database without
    faults; the error branches of the callers are in the definitions. The reference instance is \<open>ref\<close>.
  \<^item> \<open>Disk\<close>: files and directories with faults; any operation may fail without effect, so that every
    prefix of a sequence of operations is an outcome.
  \<^item> \<open>Core_Types\<close> and \<open>Ref_Codec\<close>: \<^verbatim>\<open>core/src/config.rs\<close>, \<^verbatim>\<open>events.rs\<close> and \<^verbatim>\<open>capability.rs\<close>, the block messages,
    and the encoders (protobuf, bincode, zstd, the pattern of file names) as the record \<open>codec\<close> with the
    contract \<open>codec_laws\<close>. The reference instance is \<open>refc\<close>.

  \<^bold>\<open>Persistence.\<close>
  \<^item> \<open>Gap_Map\<close> and \<open>Persist_State\<close>: \<^verbatim>\<open>persistence/src/state.rs\<close>, the watermarks, the recorded gaps and the skipped
    batches. \<open>Gap_Map\<close> is the abstract specification; adding a range and filling a block refine it.
  \<^item> \<open>Hot_Tier\<close>: \<^verbatim>\<open>hot_tier.rs\<close>. \<open>Cold_Storage\<close>: \<^verbatim>\<open>cold_storage/writer.rs\<close> and \<^verbatim>\<open>reader.rs\<close>, with the round trip of
    an archive and its atomicity under faults. \<open>Archiver\<close>: \<^verbatim>\<open>cold_storage/archiver.rs\<close>, whose cycle returns
    and loses no block.
  \<^item> \<open>Persist_Service\<close>: \<^verbatim>\<open>service.rs\<close> and the event handling of \<^verbatim>\<open>lib.rs\<close>. The live write refines an abstract
    update of blocks, gaps and watermarks, and a written block is read back.
  \<^item> \<open>Persist_System\<close>: the step relation \<open>persist_step\<close> of writes, batches, archival cycles and reads, and its
    invariant: blocks after the base and up to the highest contiguous one are readable, later ones up to the
    latest are readable or in a gap.
  \<^item> \<open>Reader\<close>: \<^verbatim>\<open>core/src/block_reader.rs\<close> and \<^verbatim>\<open>block_writer.rs\<close> as records with the contracts \<open>block_reader_laws\<close>
    and \<open>block_store_laws\<close>, which persistence satisfies. The clients below are proved over them.

  \<^bold>\<open>The way of a block.\<close>
  \<^item> \<open>Block_Cache\<close>: \<^verbatim>\<open>core/src/cache.rs\<close> with explicit time; entries live for their minute and are not leaked.
  \<^item> \<open>Publish\<close>: \<^verbatim>\<open>publish/src/state.rs\<close>, \<^verbatim>\<open>error.rs\<close>, \<^verbatim>\<open>validation.rs\<close>, \<^verbatim>\<open>session_manager.rs\<close> and \<^verbatim>\<open>service.rs\<close>, a session
    from request to response. \<open>Publish_System\<close>: all sessions interleaved at their waiting points; the
    election is exclusive, winners are connected, acknowledgements follow persistence; and how a publisher
    learns of the end of its session.
  \<^item> \<open>Verifier\<close>: \<^verbatim>\<open>verifier/src/lib.rs\<close>, one decision for every event.
  \<^item> \<open>Pipeline\<close>: publisher, verifier, persistence and cache joined by the bus as \<open>node_step\<close>; an acknowledged
    block is readable in every later state.

  \<^bold>\<open>Clients and peers.\<close>
  \<^item> \<open>Subscriber\<close>: \<^verbatim>\<open>subscriber/src/error.rs\<close>, \<^verbatim>\<open>session.rs\<close> and \<^verbatim>\<open>service.rs\<close>; streams are in order, complete for
    finite requests, and end with one status if the client is there to receive it.
  \<^item> \<open>Block_Access\<close>: \<^verbatim>\<open>block-access/src/service.rs\<close> and \<^verbatim>\<open>server-status/src/service.rs\<close>.
  \<^item> \<open>Backfill\<close>: \<^verbatim>\<open>backfill/src/worker.rs\<close>; a check of the gaps returns, keeps what is stored, and fills the gaps
    from a good peer.
  \<^item> \<open>State_Mgmt\<close>: \<^verbatim>\<open>state-management/src/state_manager.rs\<close> and \<^verbatim>\<open>plugin.rs\<close>; applying a block refines a map
    update, every block is applied once and in order, and the entries of different states do not disturb
    each other unless an empty queue is popped.
  \<^item> \<open>Query_Types\<close>, \<open>Query\<close> and \<open>Query_Service\<close>: the messages with the fields in use, \<^verbatim>\<open>query/src/handlers\<close> and
    \<^verbatim>\<open>services\<close>, over the state reader (\<^verbatim>\<open>core/src/state_reader.rs\<close>) with the contract \<open>state_reader_laws\<close>, which
    the state manager satisfies. Queries answer from what the blocks have left.

  \<^bold>\<open>The application.\<close>
  \<^item> \<open>Metrics\<close>: \<^verbatim>\<open>core/src/metrics.rs\<close>, all collectors and their registration in a Prometheus registry, which
    is the parameter \<open>prometheus\<close> with the contract \<open>prometheus_laws\<close>.
  \<^item> \<open>Node\<close>: \<^verbatim>\<open>core/src/plugin.rs\<close>, \<^verbatim>\<open>app_context.rs\<close> and \<^verbatim>\<open>error.rs\<close>, the life cycle of the plugins in their
    \<^verbatim>\<open>lib.rs\<close> or \<^verbatim>\<open>plugin.rs\<close>, \<^verbatim>\<open>observability/src/lib.rs\<close> and \<^verbatim>\<open>main.rs\<close>: when the node starts, what a
    started node runs and serves, and that shutdown stops all plugins.
  \<^item> This theory: acknowledged blocks are served, across all of the components.

  \<^bold>\<open>Bounds and termination.\<close> No definition has fuel. The walk along contiguous blocks, the archival cycle
  and the continuous attempts of backfill are partial functions with None for a run that does not end. That
  the walk returns is part of the refinement of the live write, for block numbers below the maximum; that
  the archival cycle returns is proved for every batch size other than zero, and that it does not for zero.
  A continuous attempt may go on for ever by design. The retries of backfill end by the retry limit of
  three, streams and event loops by the list of what happens. The list of token relations of an account is
  cut at the recorded number of them. The step relations restrict the environment as follows: the store is
  empty at the start and the archive batch size lies between 1 and 2 to the power 32; the disk has no faults,
  in any reachable state, so the step relations say nothing of a node whose disk fails (faults are the
  subject of the atomicity of an archive and of the termination of the archival cycle); blocks have
  numbers of at most ten digits, the width of the names of archive files, and a compressed size below 2 to
  the power 32, the width of its field; a live block is not one that has been archived, and a historical
  batch is consecutive and new; in \<open>node_step\<close> publishers are polite, that is, they send no header in the
  middle of a block. What a header in the middle of a block leads to is a property of its own.

  \<^bold>\<open>Not modelled.\<close>
  \<^item> \<^verbatim>\<open>rock-node-protobufs\<close> only includes generated code; its encoders are parameters, and messages are
    records and datatypes with the fields the node uses.
  \<^item> Test utilities, examples and the tests in the source files are not part of the node.
  \<^item> Libraries: reading the configuration file and the environment, the log filter, the gRPC and HTTP
    servers with their transport, and timers. Their results are inputs.
  \<^item> Log messages other than the startup report, the printed configuration, and measured durations. The
    registration of metrics is modelled; of their updates, those of block access and server status are.
  \<^item> Concurrency is the interleaving of the steps of the relations above. Inside one step locks are taken and
    released, so neither deadlock nor the poisoning of a lock is expressed, and memory is sequentially
    consistent. Tasks that were spawned take their steps in any order, without fairness.
\<close>

section \<open>The node as a whole\<close>

text \<open>
  C2: Acknowledged blocks are served to clients. Consider a node that has started on an empty store and a
  disk without faults, whose publishers are polite, that is, send no header in the middle of a block, and
  which writes only blocks that fit the archive and are not archived yet. In every state it reaches, a block
  acknowledged to any publisher is what the block access service answers to a request for its number, what
  the next turn of a subscriber session that is at this number sends to a client that is there, and what
  the state plugin is given when it catches up from storage.
\<close>

theorem acknowledged_blocks_served:
  assumes "persist_laws (pf_rocksdb pf) view invar (pf_codec pf)" and "invar (pf_db pf)"
    and "fresh_start view conf (pf_db pf) (pf_disk pf)" and "node_boot pf conf = Inr (ps, a, found)"
    and "app_store a = Some s0" and "node_init conf (Some (get_latest_persisted_block_number (pf_rocksdb pf) s0)) s0 = Some nd0"
    and "node_reach (pf_rocksdb pf) view (pf_codec pf) display conf reg nd0 nd"
    and "(i, Acknowledgement n) \<in> set (responses (pworld (npub nd)))" and "n \<noteq> u64_MAX"
    and "req_end req = u64_MAX \<or> n \<le> req_end req"
  shows "shared (pworld (npub nd0)) = the (app_shared a) \<and>
    (\<exists>b. get_block_number b = Inr n \<and>
      fst (get_block (persistence_reader (pf_rocksdb pf) (pf_codec pf)) (pf_codec pf) (Some (BlockNumber n)) (nstore nd) m) =
        \<lparr>response_status = Success, response_block = Some b\<rparr> \<and>
      process_next_block (persistence_reader (pf_rocksdb pf) (pf_codec pf)) (pf_codec pf) req (nstore nd) True recvs n
        (req_end req \<noteq> u64_MAX) = Some ([\<lparr>block_items = items b\<rparr>], Inr (Some (n + 1))) \<and>
      apply_state_from_storage (pf_rocksdb pf) (pf_codec pf) (persistence_reader (pf_rocksdb pf) (pf_codec pf)) n (nstore nd) =
        map_sum id (\<lambda>db'. (nstore nd)\<lparr>ps_db := db'\<rparr>)
          (apply_state_changes (pf_rocksdb pf) (pf_codec pf) n (encode_to_vec (pf_codec pf) b) (ps_db (nstore nd))))"
proof -
  let ?R = "pf_rocksdb pf" and ?C = "pf_codec pf"
  have codec: "codec_laws ?C" using persist_laws.axioms(2) [OF assms(1)] .
  have boot: "storage_ready pf conf = Inr s0"
    "app_shared a = publish_initialize (publish_service (plugins conf)) (Some (get_latest_persisted_block_number ?R s0))"
    using assms(4,5) by (auto simp: node_boot_ready initialized_app_def Let_def split: sum.splits if_splits)
  obtain d' where init: "persistence_initialize ?R ?C conf (pf_read_dir pf) (pf_db pf) (pf_disk pf) = (Inr s0, d')"
    using boot(1) by (metis storage_ready_def prod.collapse)
  obtain b where b: "fst (read_block ?R ?C (nstore nd) n) = Inr (Some (encode_to_vec ?C b))" "get_block_number b = Inr n"
    using acknowledged_read [OF assms(1) node_reach_inv [OF assms(1-3) init assms(6,7)] assms(8)] by auto
  have read: "br_read (persistence_reader ?R ?C) (nstore nd) n = Inr (Some (encode_to_vec ?C b))"
    using b(1) by (simp add: persistence_reader_def)
  have "items b \<noteq> []" using b(2) by (auto simp: get_block_number_def)
  then have dec: "decode_block ?C (encode_to_vec ?C b) = Inr b" "encode_to_vec ?C b \<noteq> []"
    using codec_laws.decode_encode [OF codec] codec_laws.encode_nonempty [OF codec] by auto
  have "shared (pworld (npub nd0)) = the (app_shared a)"
    using assms(6) by (auto simp: node_init_def pub_init_def boot(2))
  moreover have "fst (get_block (persistence_reader ?R ?C) ?C (Some (BlockNumber n)) (nstore nd) m) =
      \<lparr>response_status = Success, response_block = Some b\<rparr>"
    using assms(9) by (simp add: get_block_number_request read handle_found_block_def dec)
  moreover have "process_next_block (persistence_reader ?R ?C) ?C req (nstore nd) True recvs n (req_end req \<noteq> u64_MAX) =
      Some ([\<lparr>block_items = items b\<rparr>], Inr (Some (n + 1)))"
    using assms(10) by (auto simp: process_next_block_def read send_block_def dec not_less [symmetric])
  moreover have "apply_state_from_storage ?R ?C (persistence_reader ?R ?C) n (nstore nd) =
      map_sum id (\<lambda>db'. (nstore nd)\<lparr>ps_db := db'\<rparr>) (apply_state_changes ?R ?C n (encode_to_vec ?C b) (ps_db (nstore nd)))"
    by (cases "apply_state_changes ?R ?C n (encode_to_vec ?C b) (ps_db (nstore nd))")
      (simp_all add: apply_state_from_storage_def read)
  ultimately show ?thesis using b(2) by blast
qed

lemma example_latest:
  assumes "persistence_initialize ref_rocksdb ref_codec example_config (Inr []) ref_empty empty_disk = (Inr s0, d')"
  shows "get_latest_persisted_block_number ref_rocksdb s0 = Inr None"
proof -
  obtain db' where db': "init_db ref_rocksdb 0 [] ref_empty = Inr db'" "ref_invar db'"
    "ref_view db' = apply_op (PutCf CF_METADATA HIGHEST_CONTIGUOUS_KEY (u64_to_be (saturating_sub 0 1))) (ref_view ref_empty)"
    using refp.init_db_fresh [OF ref_invar_empty, of 0] by (auto simp: ref_view_def ref_empty_def fun_eq_iff)
  have "ps_db s0 = db'" using assms db'(1) by (auto simp: persistence_initialize_def scan_and_build_index_def)
  moreover have "meta_ok (ref_view db')" "meta (ref_view db') LATEST_PERSISTED_KEY = None"
    using db'(3) by (auto simp: meta_ok_def meta_def ref_view_def ref_empty_def)
  ultimately show ?thesis
    using ref.get_u64_opt_eq [OF db'(2), of LATEST_PERSISTED_KEY]
    by (simp add: get_latest_persisted_block_number_def get_latest_persisted_def)
qed

theorem acknowledged_blocks_served_witness:
  "\<exists>nd :: ref_db node_state. \<exists>b. (1, Acknowledgement 5) \<in> set (responses (pworld (npub nd))) \<and> get_block_number b = Inr 5 \<and>
    fst (get_block (persistence_reader ref_rocksdb ref_codec) ref_codec (Some (BlockNumber 5)) (nstore nd) no_metrics) =
      \<lparr>response_status = Success, response_block = Some b\<rparr>"
proof -
  obtain s0 d' nd0 nd where e: "persistence_initialize ref_rocksdb ref_codec example_config (Inr []) ref_empty empty_disk = (Inr s0, d')"
    "node_init example_config None s0 = Some nd0" "node_reach ref_rocksdb ref_view ref_codec (\<lambda>_. []) example_config {} nd0 nd"
    "(1, Acknowledgement 5) \<in> set (responses (pworld (npub nd)))" using pipeline_example_acked by blast
  have pf: "pf_rocksdb example_platform = ref_rocksdb" "pf_codec example_platform = ref_codec" "pf_db example_platform = ref_empty"
    "pf_disk example_platform = empty_disk" "\<And>x. pf_valid_address example_platform x" by (simp_all add: example_platform_def)
  have ready: "storage_ready example_platform example_config = Inr s0" "publish_enabled (publish_service (plugins example_config))"
    using e(1) by (simp_all add: storage_ready_def example_platform_def example_flags)
  obtain ps a where boot: "node_boot example_platform example_config = Inr (ps, a, True)" "app_store a = Some s0"
    using ready by (simp add: node_boot_ready pf initialized_app_def Let_def)
  have init: "node_init example_config (Some (get_latest_persisted_block_number ref_rocksdb s0)) s0 = Some nd0"
    using e(2) ready(2) by (auto simp: example_latest [OF e(1)] node_init_def pub_init_def publish_initialize_def)
  have "5 \<noteq> u64_MAX" by simp
  from acknowledged_blocks_served [of example_platform ref_view ref_invar example_config ps a True s0 nd0 "\<lambda>_. []" "{}" nd 1 5
      "\<lparr>req_start = 5, req_end = 5\<rparr>" no_metrics "[]", unfolded pf, OF refp.persist_laws_axioms ref_invar_empty example_fresh boot init e(3,4) this]
  show ?thesis using e(4) by auto
qed

end
